(* ===== verification/Prelude.thy ===== *)
theory Prelude imports Main "HOL-Library.Sublist" "HOL-Library.Word" begin

text \<open>
  What every component shares: the C++ standard library operations the sources use on
  \<open>std::string_view\<close> and \<open>std::string\<close> (byte strings, here lists of \<open>char\<close>), decimal
  printing (\<open>std::to_string\<close>) and reading (\<open>std::stoll\<close>), \<open>std::strtoul\<close> in base 16, and
  the collections of simplification rules the component theories add to.
  \<open>std::string_view::npos\<close> is \<open>None\<close>; a result that may throw is a sum whose left part is
  the error.
\<close>

named_theorems sv_simps \<open>string view operations: the facts proofs rewrite with\<close>
named_theorems fd_simps \<open>descriptor operations\<close>
named_theorems http_simps \<open>protocol constants and their tables\<close>

section \<open>Byte strings\<close>

abbreviation newline :: string where
  "newline \<equiv> [CHR 0x0D, CHR 0x0A]"

abbreviation headers_end :: string where
  "headers_end \<equiv> [CHR 0x0D, CHR 0x0A, CHR 0x0D, CHR 0x0A]"

text \<open>\<open>find(needle)\<close>: the least position at which the needle occurs.\<close>

fun sv_find :: "string \<Rightarrow> string \<Rightarrow> nat option" where
  "sv_find p [] = (if p = [] then Some 0 else None)"
| "sv_find p (c # cs) =
     (if prefix p (c # cs) then Some 0 else map_option Suc (sv_find p cs))"

text \<open>\<open>find(needle, pos)\<close>: the search starts at \<open>pos\<close>; past the end it finds nothing.\<close>

definition sv_find_from :: "string \<Rightarrow> string \<Rightarrow> nat \<Rightarrow> nat option" where
  "sv_find_from p s pos =
     (if pos \<le> length s then map_option ((+) pos) (sv_find p (drop pos s)) else None)"

text \<open>\<open>substr(0, n)\<close> where \<open>n\<close> may be \<open>npos\<close>.\<close>

definition substr0 :: "string \<Rightarrow> nat option \<Rightarrow> string" where
  "substr0 s n = (case n of None \<Rightarrow> s | Some k \<Rightarrow> take k s)"

text \<open>\<open>find_first_not_of(c)\<close> and then \<open>remove_prefix(min(pos, size))\<close>.\<close>

definition skip_char :: "char \<Rightarrow> string \<Rightarrow> string" where
  "skip_char c s = dropWhile (\<lambda>x. x = c) s"

definition occurs_at :: "string \<Rightarrow> string \<Rightarrow> nat \<Rightarrow> bool" where
  "occurs_at p s i \<longleftrightarrow> i \<le> length s \<and> prefix p (drop i s)"

lemma substr0_simps [simp, sv_simps]:
  "substr0 s None = s" "substr0 s (Some k) = take k s"
  by (simp_all add: substr0_def)

lemma occurs_at_Nil [simp]: "occurs_at p [] i \<longleftrightarrow> i = 0 \<and> p = []"
  by (auto simp: occurs_at_def)

lemma occurs_at_0: "occurs_at p s 0 \<longleftrightarrow> prefix p s"
  by (simp add: occurs_at_def)

lemma occurs_at_Suc: "occurs_at p (c # cs) (Suc i) \<longleftrightarrow> occurs_at p cs i"
  by (simp add: occurs_at_def)

lemma sv_find_None_iff: "sv_find p s = None \<longleftrightarrow> (\<forall>i. \<not> occurs_at p s i)"
proof (induction s)
  case Nil
  show ?case by auto
next
  case (Cons c cs)
  have "(\<forall>i. \<not> occurs_at p (c # cs) i) \<longleftrightarrow> \<not> prefix p (c # cs) \<and> (\<forall>i. \<not> occurs_at p cs i)"
    by (metis not0_implies_Suc occurs_at_0 occurs_at_Suc)
  with Cons show ?case by simp
qed

lemma sv_find_Some_iff:
  "sv_find p s = Some i \<longleftrightarrow> occurs_at p s i \<and> (\<forall>j < i. \<not> occurs_at p s j)"
proof (induction s arbitrary: i)
  case Nil
  show ?case by auto
next
  case (Cons c cs)
  show ?case
  proof (cases i)
    case 0
    then show ?thesis by (auto simp: occurs_at_0)
  next
    case (Suc k)
    have "(\<forall>j < Suc k. \<not> occurs_at p (c # cs) j) \<longleftrightarrow>
        \<not> prefix p (c # cs) \<and> (\<forall>j < k. \<not> occurs_at p cs j)"
      by (auto simp: less_Suc_eq_0_disj occurs_at_0 occurs_at_Suc)
    with Suc Cons show ?thesis by (auto simp: occurs_at_Suc)
  qed
qed

lemma sv_find_occurs: "sv_find p s = Some i \<Longrightarrow> occurs_at p s i"
  by (simp add: sv_find_Some_iff)

lemma occurs_at_bound: "occurs_at p s i \<Longrightarrow> i + length p \<le> length s"
  by (auto simp: occurs_at_def prefix_def) (metis length_append length_drop le_add1
      add.commute le_diff_conv2)

lemma sv_find_bound: "sv_find p s = Some i \<Longrightarrow> i + length p \<le> length s"
  by (rule occurs_at_bound [OF sv_find_occurs])

lemma occurs_at_split: "occurs_at p s i \<longleftrightarrow> (\<exists>a b. s = a @ p @ b \<and> length a = i)"
proof
  assume o: "occurs_at p s i"
  then obtain b where "drop i s = p @ b" by (auto simp: occurs_at_def prefix_def)
  moreover have "s = take i s @ drop i s" by simp
  moreover have "length (take i s) = i" using o by (simp add: occurs_at_def)
  ultimately show "\<exists>a b. s = a @ p @ b \<and> length a = i" by metis
qed (auto simp: occurs_at_def)

lemma sv_find_split:
  assumes "sv_find p s = Some i"
  shows "s = take i s @ p @ drop (i + length p) s"
proof -
  obtain a b where "s = a @ p @ b" "length a = i"
    using sv_find_occurs [OF assms] by (auto simp: occurs_at_split)
  then show ?thesis by simp
qed

text \<open>A one-character needle: the text before the first occurrence lacks it.\<close>

lemma sv_find_char_append [sv_simps]:
  "c \<notin> set a \<Longrightarrow> sv_find [c] (a @ c # b) = Some (length a)"
  by (induction a) auto

lemma sv_find_char_None [sv_simps]: "sv_find [c] s = None \<longleftrightarrow> c \<notin> set s"
  by (induction s) auto

lemma sv_find_char_SomeD:
  "sv_find [c] s = Some i \<Longrightarrow> c \<notin> set (take i s) \<and> s = take i s @ c # drop (Suc i) s"
proof (induction s arbitrary: i)
  case (Cons x xs)
  then show ?case by (cases "x = c") (auto split: option.splits)
qed simp

text \<open>The CR LF needle, when the text before it has no CR.\<close>

lemma sv_find_newline_append [sv_simps]:
  "CHR 0x0D \<notin> set a \<Longrightarrow> sv_find newline (a @ CHR 0x0D # CHR 0x0A # b) = Some (length a)"
  by (induction a) auto

lemma sv_find_newline_None [sv_simps]:
  "CHR 0x0D \<notin> set s \<Longrightarrow> sv_find newline s = None"
  by (induction s) auto

text \<open>
  Restarting a search. Where no occurrence starts before \<open>pos\<close>, searching from \<open>pos\<close> finds
  the same position as searching from the start.
\<close>

lemma occurs_at_drop: "pos \<le> length s \<Longrightarrow> occurs_at p (drop pos s) i \<longleftrightarrow> occurs_at p s (pos + i)"
  by (auto simp: occurs_at_def add.commute)

lemma sv_find_from_eq:
  assumes "pos \<le> length s" and none: "\<And>i. i < pos \<Longrightarrow> \<not> occurs_at p s i"
  shows "sv_find_from p s pos = sv_find p s"
proof (cases "sv_find p (drop pos s)")
  case None
  have "\<not> occurs_at p s i" for i
  proof (cases "i < pos")
    case False
    then obtain k where "i = pos + k" by (metis le_add_diff_inverse not_less)
    with None assms(1) show ?thesis by (auto simp: sv_find_None_iff occurs_at_drop)
  qed (rule none)
  then have "sv_find p s = None" by (simp add: sv_find_None_iff)
  with None assms(1) show ?thesis by (simp add: sv_find_from_def)
next
  case (Some k)
  have "\<not> occurs_at p s i" if "i < pos + k" for i
  proof (cases "i < pos")
    case False
    then obtain m where "i = pos + m" by (metis le_add_diff_inverse not_less)
    with Some assms(1) that show ?thesis by (auto simp: sv_find_Some_iff occurs_at_drop)
  qed (rule none)
  with Some assms(1) have "sv_find p s = Some (pos + k)"
    by (auto simp: sv_find_Some_iff occurs_at_drop)
  with Some assms(1) show ?thesis by (simp add: sv_find_from_def)
qed

lemma occurs_at_take:
  "occurs_at p s i \<longleftrightarrow> i + length p \<le> length s \<and> take (length p) (drop i s) = p"
proof
  assume o: "occurs_at p s i"
  then have "prefix p (drop i s)" by (simp add: occurs_at_def)
  then have "take (length p) (drop i s) = p" by (auto simp: prefix_def)
  with occurs_at_bound [OF o] show "i + length p \<le> length s \<and> take (length p) (drop i s) = p"
    by simp
next
  assume "i + length p \<le> length s \<and> take (length p) (drop i s) = p"
  then show "occurs_at p s i" by (metis add_leE occurs_at_def take_is_prefix)
qed

lemma occurs_at_append_left:
  "i + length p \<le> length s \<Longrightarrow> occurs_at p (s @ t) i \<longleftrightarrow> occurs_at p s i"
  by (simp add: occurs_at_take)

section \<open>Characters: \<open>std::tolower\<close>, digits\<close>

text \<open>\<open>std::tolower\<close> in the "C" locale, on one byte.\<close>

definition tolower_c :: "char \<Rightarrow> char" where
  "tolower_c c = (let n = of_char c :: nat in if 65 \<le> n \<and> n \<le> 90 then char_of (n + 32) else c)"

definition isspace_c :: "char \<Rightarrow> bool" where
  "isspace_c c = (let n = of_char c :: nat in n = 32 \<or> (9 \<le> n \<and> n \<le> 13))"

text \<open>The value of a digit in a base of at most 16; \<open>None\<close> for any other character.\<close>

definition digit_of :: "nat \<Rightarrow> char \<Rightarrow> nat option" where
  "digit_of base c = (let n = of_char c :: nat;
       d = (if 48 \<le> n \<and> n \<le> 57 then n - 48
            else if 65 \<le> n \<and> n \<le> 70 then n - 55
            else if 97 \<le> n \<and> n \<le> 102 then n - 87 else 16)
     in if d < base then Some d else None)"

text \<open>The digit of a value below 16.\<close>

definition digit_char :: "nat \<Rightarrow> char" where
  "digit_char d = ''0123456789ABCDEF'' ! d"

end
