(* ===== verification/CppStd.thy ===== *)
theory CppStd imports Prelude "HOL-Library.AList" "HOL-Library.Multiset" begin

text \<open>
  The standard library the sources rely on beyond string views: its exceptions, decimal printing
  and reading, \<open>std::strtoul\<close> with base 16, and \<open>std::unordered_map<std::string, T>\<close>.
  An unordered map is an association list with distinct keys: its contents are the pairs, its
  size the length. The iteration order of the container is unspecified, so what iterates over
  it takes the order as an argument. The locale \<open>dict_store\<close> is the contract of a string
  dictionary; HTTP headers and query parameters both provide it.
\<close>

datatype std_exn = Out_of_range | Invalid_argument | Logic_error | Bad_alloc | Runtime_error

section \<open>Numbers\<close>

text \<open>\<open>std::to_string\<close> of an unsigned value.\<close>

fun to_dec :: "nat \<Rightarrow> string" where
  "to_dec n = (if n < 10 then [digit_char n] else to_dec (n div 10) @ [digit_char (n mod 10)])"

declare to_dec.simps [simp del]

text \<open>Read digits as long as they last; the rest of the text is returned with the value.\<close>

fun read_digits :: "nat \<Rightarrow> nat \<Rightarrow> string \<Rightarrow> nat \<times> string" where
  "read_digits base acc [] = (acc, [])"
| "read_digits base acc (c # cs) =
     (case digit_of base c of
        None \<Rightarrow> (acc, c # cs)
      | Some d \<Rightarrow> read_digits base (base * acc + d) cs)"

definition split_sign :: "string \<Rightarrow> bool \<times> string" where
  "split_sign s = (case s of
       [] \<Rightarrow> (False, [])
     | c # cs \<Rightarrow> if c = CHR ''-'' then (True, cs)
                else if c = CHR ''+'' then (False, cs) else (False, s))"

text \<open>\<open>std::stoll(s)\<close>: leading spaces, a sign, decimal digits, anything after them ignored.\<close>

definition stoll :: "string \<Rightarrow> std_exn + int" where
  "stoll s = (let (neg, u) = split_sign (dropWhile isspace_c s) in
     if u = [] \<or> digit_of 10 (hd u) = None then Inl Invalid_argument
     else let n = int (fst (read_digits 10 0 u)); v = (if neg then - n else n)
       in if - (2 ^ 63) \<le> v \<and> v < 2 ^ 63 then Inr v else Inl Out_of_range)"

text \<open>
  \<open>std::strtoul(s, nullptr, 16)\<close>: leading spaces, a sign, an optional \<open>0x\<close>, hexadecimal
  digits; a minus sign negates the unsigned result. The sources call it on two characters, so
  the saturation of the C function cannot occur.
\<close>

definition skip_0x :: "string \<Rightarrow> string" where
  "skip_0x s = (case s of
       z # x # d # r \<Rightarrow> if z = CHR ''0'' \<and> (x = CHR ''x'' \<or> x = CHR ''X'') \<and> digit_of 16 d \<noteq> None
                     then d # r else s
     | _ \<Rightarrow> s)"

definition strtoul16 :: "string \<Rightarrow> 64 word" where
  "strtoul16 s = (let (neg, u) = split_sign (dropWhile isspace_c s);
       w = of_nat (fst (read_digits 16 0 (skip_0x u))) in if neg then - w else w)"

text \<open>The facts about the sixteen digits, by evaluation.\<close>

lemma below_16: "(d::nat) < 16 \<Longrightarrow> d \<in> set [0, 1, 2, 3, 4, 5, 6, 7, 8, 9, 10, 11, 12, 13, 14, 15]"
  unfolding list.set insert_iff empty_iff by presburger

lemma digits_table:
  "\<forall>d \<in> set [0, 1, 2, 3, 4, 5, 6, 7, 8, 9, 10, 11, 12, 13, 14, 15]. \<not> isspace_c (digit_char d) \<and>
      digit_char d \<notin> set [CHR ''-'', CHR ''+'', CHR ''x'', CHR ''X'', CHR 0x0D, CHR 0x0A, CHR '' '']
      \<and> digit_of 16 (digit_char d) = Some d \<and> (d < 10 \<longrightarrow> digit_of 10 (digit_char d) = Some d)"
  by (simp add: digit_char_def isspace_c_def digit_of_def)

lemma digit_char_plain:
  assumes "d < 16"
  shows "\<not> isspace_c (digit_char d)" "digit_char d \<noteq> CHR ''-''" "digit_char d \<noteq> CHR ''+''"
    "digit_char d \<noteq> CHR ''x''" "digit_char d \<noteq> CHR ''X''"
    "digit_char d \<noteq> CHR 0x0D" "digit_char d \<noteq> CHR 0x0A" "digit_char d \<noteq> CHR '' ''"
  using bspec [OF digits_table below_16 [OF assms]] by simp_all

lemma digit_of_digit_char [simp]:
  "d < 16 \<Longrightarrow> digit_of 16 (digit_char d) = Some d"
  "d < 10 \<Longrightarrow> digit_of 10 (digit_char d) = Some d"
  using bspec [OF digits_table below_16, of d] by simp_all

lemma to_dec_neq_Nil [simp]: "to_dec n \<noteq> []"
  by (subst to_dec.simps) simp

lemma set_to_dec: "set (to_dec n) \<subseteq> digit_char ` {..<10}"
proof (induction n rule: to_dec.induct)
  case (1 n)
  then show ?case by (subst to_dec.simps) auto
qed

lemma to_dec_hd: "\<exists>d < 10. hd (to_dec n) = digit_char d"
proof -
  have "hd (to_dec n) \<in> set (to_dec n)" by simp
  then show ?thesis using set_to_dec [of n] by blast
qed

lemma read_digits_append:
  "set a \<subseteq> digit_char ` {..<10} \<Longrightarrow>
   read_digits 10 acc (a @ b) = read_digits 10 (fst (read_digits 10 acc a)) b"
  by (induction a arbitrary: acc) auto

lemma read_digits_to_dec: "read_digits 10 0 (to_dec n) = (n, [])"
proof (induction n rule: to_dec.induct)
  case (1 n)
  show ?case
  proof (cases "n < 10")
    case True
    then show ?thesis by (subst to_dec.simps) simp
  next
    case False
    have "read_digits 10 0 (to_dec (n div 10) @ [digit_char (n mod 10)]) =
        read_digits 10 (n div 10) [digit_char (n mod 10)]"
      using "1.IH" [OF False] set_to_dec [of "n div 10"]
      by (subst read_digits_append) simp_all
    with False show ?thesis by (subst to_dec.simps) simp
  qed
qed

lemma dropWhile_isspace_to_dec [simp]: "dropWhile isspace_c (to_dec n) = to_dec n"
proof -
  obtain d where "d < 10" "hd (to_dec n) = digit_char d" using to_dec_hd by blast
  moreover obtain c cs where "to_dec n = c # cs" by (cases "to_dec n") auto
  ultimately show ?thesis using digit_char_plain(1) [of d] by simp
qed

lemma split_sign_to_dec [simp]: "split_sign (to_dec n) = (False, to_dec n)"
proof -
  obtain d where d: "d < 10" "hd (to_dec n) = digit_char d" using to_dec_hd by blast
  obtain c cs where "to_dec n = c # cs" by (cases "to_dec n") auto
  with d show ?thesis using digit_char_plain(2,3) [of d] by (simp add: split_sign_def)
qed

text \<open>Reading back what was printed.\<close>

lemma stoll_to_dec: "n < 2 ^ 63 \<Longrightarrow> stoll (to_dec n) = Inr (int n)"
proof -
  assume n: "n < 2 ^ 63"
  obtain d where "d < 10" "hd (to_dec n) = digit_char d" using to_dec_hd by blast
  then have "digit_of 10 (hd (to_dec n)) \<noteq> None" by simp
  moreover have "int n < 2 ^ 63" using n by (metis of_nat_less_iff of_nat_numeral of_nat_power)
  ultimately show ?thesis by (simp add: stoll_def read_digits_to_dec)
qed

lemma to_dec_no_cr: "c \<in> set (to_dec n) \<Longrightarrow> c \<noteq> CHR 0x0D \<and> c \<noteq> CHR 0x0A \<and> c \<noteq> CHR '' ''"
proof -
  assume "c \<in> set (to_dec n)"
  then obtain d where "d < 10" "c = digit_char d" using set_to_dec [of n] by blast
  then show ?thesis using digit_char_plain(6,7,8) [of d] by simp
qed

lemma strtoul16_digits:
  assumes "hi < 16" "lo < 16"
  shows "strtoul16 [digit_char hi, digit_char lo] = of_nat (16 * hi + lo)"
  using digit_char_plain [OF assms(1)] assms
  by (simp add: strtoul16_def split_sign_def skip_0x_def)

section \<open>\<open>std::unordered_map\<close> with string keys\<close>

type_synonym 'v umap = "(string \<times> 'v) list"

definition umap_emplace :: "string \<Rightarrow> 'v \<Rightarrow> 'v umap \<Rightarrow> 'v umap" where
  "umap_emplace k v m = (if map_of m k = None then m @ [(k, v)] else m)"

definition umap_assign :: "string \<Rightarrow> 'v \<Rightarrow> 'v umap \<Rightarrow> 'v umap" where
  "umap_assign k v m = AList.update k v m"

text \<open>\<open>erase(key)\<close> returns the number of elements removed.\<close>

definition umap_erase :: "string \<Rightarrow> 'v umap \<Rightarrow> nat \<times> 'v umap" where
  "umap_erase k m = (if map_of m k = None then 0 else 1, AList.delete k m)"

definition umap_at :: "'v umap \<Rightarrow> string \<Rightarrow> std_exn + 'v" where
  "umap_at m k = (case map_of m k of None \<Rightarrow> Inl Out_of_range | Some v \<Rightarrow> Inr v)"

definition umap_wf :: "'v umap \<Rightarrow> bool" where
  "umap_wf m \<longleftrightarrow> distinct (map fst m)"

text \<open>What a range-based \<open>for\<close> over the container may enumerate: the pairs, in some order.\<close>

definition iteration :: "('v umap \<Rightarrow> 'v umap) \<Rightarrow> bool" where
  "iteration ord \<longleftrightarrow> (\<forall>m. mset (ord m) = mset m)"

lemma lookup_umap_emplace:
  "map_of (umap_emplace k v m) x = (if x = k \<and> map_of m k = None then Some v else map_of m x)"
  by (auto simp: umap_emplace_def map_add_def split: option.splits)

lemma lookup_umap_assign: "map_of (umap_assign k v m) x = (if x = k then Some v else map_of m x)"
  by (simp add: umap_assign_def update_conv)

lemma lookup_umap_erase: "map_of (snd (umap_erase k m)) x = (if x = k then None else map_of m x)"
  by (simp add: umap_erase_def delete_conv)

lemma umap_wf_emplace: "umap_wf m \<Longrightarrow> umap_wf (umap_emplace k v m)"
  by (auto simp: umap_wf_def umap_emplace_def map_of_eq_None_iff)

lemma umap_wf_assign: "umap_wf m \<Longrightarrow> umap_wf (umap_assign k v m)"
  by (simp add: umap_wf_def umap_assign_def distinct_update)

lemma umap_wf_erase: "umap_wf m \<Longrightarrow> umap_wf (snd (umap_erase k m))"
  by (simp add: umap_wf_def umap_erase_def distinct_delete)

lemma umap_wf_Nil [simp]: "umap_wf []"
  by (simp add: umap_wf_def)

lemma iteration_wf: "iteration ord \<Longrightarrow> umap_wf m \<Longrightarrow> umap_wf (ord m)"
  by (metis iteration_def umap_wf_def mset_map mset_eq_imp_distinct_iff)

lemma iteration_map_of: "iteration ord \<Longrightarrow> umap_wf m \<Longrightarrow> map_of (ord m) = map_of m"
  by (metis iteration_def iteration_wf map_of_inject_set mset_eq_setD umap_wf_def)

lemma iteration_set: "iteration ord \<Longrightarrow> set (ord m) = set m"
  by (metis iteration_def mset_eq_setD)

lemma iteration_length: "iteration ord \<Longrightarrow> length (ord m) = length m"
  by (metis iteration_def mset_eq_length)

lemma iteration_id: "iteration id"
  by (simp add: iteration_def)

section \<open>The contract of a string dictionary\<close>

text \<open>
  \<open>norm\<close> is the normal form of a key: two keys with the same normal form name the same entry.
  \<open>emplace\<close> keeps an existing entry, \<open>assign\<close> replaces it.
\<close>

locale dict_store =
  fixes norm :: "string \<Rightarrow> string"
    and lookup :: "'m \<Rightarrow> string \<Rightarrow> 'v option"
    and emplace :: "string \<Rightarrow> 'v \<Rightarrow> 'm \<Rightarrow> 'm"
    and assign :: "string \<Rightarrow> 'v \<Rightarrow> 'm \<Rightarrow> 'm"
    and remove :: "string \<Rightarrow> 'm \<Rightarrow> 'm"
    and empty :: 'm
  assumes lookup_empty: "lookup empty k = None"
    and lookup_norm: "norm k = norm k' \<Longrightarrow> lookup m k = lookup m k'"
    and lookup_emplace: "lookup (emplace k v m) k' =
          (if norm k' = norm k \<and> lookup m k = None then Some v else lookup m k')"
    and lookup_assign: "lookup (assign k v m) k' = (if norm k' = norm k then Some v else lookup m k')"
    and lookup_remove: "lookup (remove k m) k' = (if norm k' = norm k then None else lookup m k')"
begin

lemma lookup_assign_same: "lookup (assign k v m) k = Some v"
  by (simp add: lookup_assign)

lemma lookup_emplace_kept: "lookup m k = Some w \<Longrightarrow> lookup (emplace k v m) k' = lookup m k'"
  by (simp add: lookup_emplace)

lemma lookup_assign_twice: "lookup (assign k w (assign k v m)) k' = lookup (assign k w m) k'"
  by (simp add: lookup_assign)

lemma lookup_remove_emplace: "lookup (emplace k v (remove k m)) k = Some v"
  by (simp add: lookup_emplace lookup_remove)

text \<open>A sequence of \<open>emplace\<close> calls: what was there stays, then the first of each key wins.\<close>

lemma lookup_emplace_all:
  "lookup (fold (\<lambda>(k, v). emplace k v) kvs m) k =
     (case lookup m k of
        Some v \<Rightarrow> Some v
      | None \<Rightarrow> map_of (map (\<lambda>(k, v). (norm k, v)) kvs) (norm k))"
proof (induction kvs arbitrary: m)
  case Nil
  show ?case by (simp split: option.splits)
next
  case (Cons kv kvs)
  obtain k0 v0 where kv: "kv = (k0, v0)" by (cases kv)
  have "norm k = norm k0 \<Longrightarrow> lookup m k0 = lookup m k" by (rule lookup_norm) simp
  then show ?case by (auto simp: kv Cons.IH lookup_emplace split: option.splits)
qed

end

end
