(* ===== verification/HttpConstants.thy ===== *)
theory HttpConstants imports CppStd begin

text \<open>
  \<open>tinyhttp/constants\<close>: the protocol versions, methods and response statuses (the enums of
  \<open>constants.h\<close>) and the tables that translate between them and their texts
  (\<open>constants.cpp\<close>). A lookup by \<open>.at()\<close> in a table that lacks the key throws
  \<open>std::out_of_range\<close>.
\<close>

section \<open>Strings\<close>

definition server_name :: string where
  "server_name = ''tinyhttp V0.0.1''"

definition hdr_server :: string where
  "hdr_server = ''Server''"

definition hdr_date :: string where
  "hdr_date = ''Date''"

definition hdr_connection :: string where
  "hdr_connection = ''Connection''"

definition hdr_content_type :: string where
  "hdr_content_type = ''Content-Type''"

definition hdr_content_length :: string where
  "hdr_content_length = ''Content-Length''"

section \<open>Versions and methods\<close>

datatype http_version = Version_unsupported | V0_9 | V1_0 | V1_1

fun http_version_value :: "http_version \<Rightarrow> nat" where
  "http_version_value Version_unsupported = 0"
| "http_version_value V0_9 = 9"
| "http_version_value V1_0 = 10"
| "http_version_value V1_1 = 11"

text \<open>Scoped enums compare by their underlying values.\<close>

instantiation http_version :: linorder
begin
definition less_eq_http_version :: "http_version \<Rightarrow> http_version \<Rightarrow> bool" where
  "less_eq_http_version a b \<longleftrightarrow> http_version_value a \<le> http_version_value b"
definition less_http_version :: "http_version \<Rightarrow> http_version \<Rightarrow> bool" where
  "less_http_version a b \<longleftrightarrow> http_version_value a < http_version_value b"
instance
proof
  fix a b :: http_version
  show "a \<le> b \<Longrightarrow> b \<le> a \<Longrightarrow> a = b"
    by (cases a; cases b) (simp_all add: less_eq_http_version_def)
qed (auto simp: less_eq_http_version_def less_http_version_def)
end

datatype http_method =
  Method_unsupported | GET | HEAD | POST | PUT | DELETE | CONNECT | OPTIONS | TRACE

fun http_method_value :: "http_method \<Rightarrow> nat" where
  "http_method_value Method_unsupported = 0"
| "http_method_value GET = 1"
| "http_method_value HEAD = 2"
| "http_method_value POST = 3"
| "http_method_value PUT = 4"
| "http_method_value DELETE = 5"
| "http_method_value CONNECT = 6"
| "http_method_value OPTIONS = 7"
| "http_method_value TRACE = 8"

section \<open>Response statuses\<close>

text \<open>
  The enum's underlying type is \<open>uint16_t\<close>; a status is its value. The enumerators are listed by
  name and value; those the sources mention have a constant of their own.
\<close>

type_synonym http_response_status = nat

definition http_response_status_enum :: "(string \<times> http_response_status) list" where
  "http_response_status_enum = [
     (''Continue'', 100), (''SwitchingProtocols'', 101), (''Processing'', 102),
     (''EarlyHints'', 103), (''OK'', 200), (''Created'', 201),
     (''Accepted'', 202), (''NonAuthoritativeInfo'', 203), (''NoContent'', 204),
     (''ResetContent'', 205), (''PartialContent'', 206), (''MultiStatus'', 207),
     (''AlreadyReported'', 208), (''IMUsed'', 226), (''MultipleChoices'', 300),
     (''MovedPermanently'', 301), (''Found'', 302), (''SeeOther'', 303),
     (''NotModified'', 304), (''UseProxy'', 305), (''TemporaryRedirect'', 307),
     (''PermanentRedirect'', 308), (''BadRequest'', 400), (''Unauthorized'', 401),
     (''PaymentRequired'', 402), (''Forbidden'', 403), (''NotFound'', 404),
     (''MethodNotAllowed'', 405), (''NotAcceptable'', 406), (''ProxyAuthRequired'', 407),
     (''RequestTimeout'', 408), (''Conflict'', 409), (''Gone'', 410),
     (''LengthRequired'', 411), (''PreconditionFailed'', 412), (''RequestEntityTooLarge'', 413),
     (''RequestURITooLong'', 414), (''UnsupportedMediaType'', 415), (''RequestedRangeNotSatisfiable'', 416),
     (''ExpectationFailed'', 417), (''Teapot'', 418), (''MisdirectedRequest'', 421),
     (''UnprocessableEntity'', 422), (''Locked'', 423), (''FailedDependency'', 424),
     (''TooEarly'', 425), (''UpgradeRequired'', 426), (''PreconditionRequired'', 428),
     (''TooManyRequests'', 429), (''RequestHeaderFieldsTooLarge'', 431), (''UnavailableForLegalReasons'', 451),
     (''InternalServerError'', 500), (''NotImplemented'', 501), (''BadGateway'', 502),
     (''ServiceUnavailable'', 503), (''GatewayTimeout'', 504), (''HTTPVersionNotSupported'', 505),
     (''VariantAlsoNegotiates'', 506), (''InsufficientStorage'', 507), (''LoopDetected'', 508),
     (''NotExtended'', 510), (''NetworkAuthenticationRequired'', 511)]"

definition OK :: http_response_status where
  "OK = 200"

definition BadRequest :: http_response_status where
  "BadRequest = 400"

definition Forbidden :: http_response_status where
  "Forbidden = 403"

definition NotFound :: http_response_status where
  "NotFound = 404"

definition MethodNotAllowed :: http_response_status where
  "MethodNotAllowed = 405"

definition InternalServerError :: http_response_status where
  "InternalServerError = 500"

definition NotImplemented :: http_response_status where
  "NotImplemented = 501"

definition http_response_status_text :: "(http_response_status \<times> string) list" where
  "http_response_status_text = [
     (100, ''Continue''),
     (101, ''Switching Protocols''),
     (102, ''Processing''),
     (103, ''Early Hints''),
     (200, ''OK''),
     (201, ''Created''),
     (202, ''Accepted''),
     (203, ''Non-Authoritative Information''),
     (204, ''No Content''),
     (205, ''Reset Content''),
     (206, ''Partial Content''),
     (207, ''Multi-Status''),
     (208, ''Already Reported''),
     (226, ''IM Used''),
     (300, ''Multiple Choices''),
     (301, ''Moved Permanently''),
     (302, ''Found''),
     (303, ''See Other''),
     (304, ''Not Modified''),
     (305, ''Use Proxy''),
     (307, ''Temporary Redirect''),
     (308, ''Permanent Redirect''),
     (400, ''Bad Request''),
     (401, ''Unauthorized''),
     (402, ''Payment Required''),
     (403, ''Forbidden''),
     (404, ''Not Found''),
     (405, ''Method Not Allowed''),
     (406, ''Not Acceptable''),
     (407, ''Proxy Authentication Required''),
     (408, ''Request Timeout''),
     (409, ''Conflict''),
     (410, ''Gone''),
     (411, ''Length Required''),
     (412, ''Precondition Failed''),
     (413, ''Request Entity Too Large''),
     (414, ''Request URI Too Long''),
     (415, ''Unsupported Media Type''),
     (416, ''Requested Range Not Satisfiable''),
     (417, ''Expectation Failed''),
     (418, ''I'' @ [CHR 0x27] @ ''m a teapot''),
     (421, ''Misdirected Request''),
     (422, ''Unprocessable Entity''),
     (423, ''Locked''),
     (424, ''Failed Dependency''),
     (425, ''Too Early''),
     (426, ''Upgrade Required''),
     (428, ''Precondition Required''),
     (429, ''Too Many Requests''),
     (431, ''Request Header Fields Too Large''),
     (451, ''Unavailable For Legal Reasons''),
     (500, ''Internal Server Error''),
     (501, ''Not Implemented''),
     (502, ''Bad Gateway''),
     (503, ''Service Unavailable''),
     (504, ''Gateway Timeout''),
     (505, ''HTTP Version Not Supported''),
     (506, ''Variant Also Negotiates''),
     (507, ''Insufficient Storage''),
     (508, ''Loop Detected''),
     (510, ''Not Extended''),
     (511, ''Network Authentication Required'')]"

definition get_http_response_status_text :: "http_response_status \<Rightarrow> std_exn + string" where
  "get_http_response_status_text status =
     (case map_of http_response_status_text status of
        None \<Rightarrow> Inl Out_of_range | Some t \<Rightarrow> Inr t)"

section \<open>Texts of versions and methods\<close>

definition http_method_text :: "(http_method \<times> string) list" where
  "http_method_text = [(GET, ''GET''), (HEAD, ''HEAD''), (POST, ''POST''), (PUT, ''PUT''),
     (DELETE, ''DELETE''), (CONNECT, ''CONNECT''), (OPTIONS, ''OPTIONS''), (TRACE, ''TRACE'')]"

definition http_method_code :: "(string \<times> http_method) list" where
  "http_method_code = [(''GET'', GET), (''HEAD'', HEAD), (''POST'', POST), (''PUT'', PUT),
     (''DELETE'', DELETE), (''CONNECT'', CONNECT), (''OPTIONS'', OPTIONS), (''TRACE'', TRACE)]"

fun get_http_version_text :: "http_version \<Rightarrow> string" where
  "get_http_version_text V1_1 = ''1.1''"
| "get_http_version_text V1_0 = ''1.0''"
| "get_http_version_text V0_9 = ''0.9''"
| "get_http_version_text Version_unsupported = []"

definition get_http_version_code :: "string \<Rightarrow> http_version" where
  "get_http_version_code version_text =
     (if version_text = ''1.1'' then V1_1
      else if version_text = ''1.0'' then V1_0
      else if version_text = ''0.9'' then V0_9
      else Version_unsupported)"

definition get_http_method_text :: "http_method \<Rightarrow> std_exn + string" where
  "get_http_method_text m =
     (case map_of http_method_text m of None \<Rightarrow> Inl Out_of_range | Some t \<Rightarrow> Inr t)"

definition get_http_method_code :: "string \<Rightarrow> http_method" where
  "get_http_method_code method_text =
     (case map_of http_method_code method_text of None \<Rightarrow> Method_unsupported | Some m \<Rightarrow> m)"

section \<open>Facts about the tables\<close>

lemma get_http_method_text_simps [simp, http_simps]:
  "get_http_method_text Method_unsupported = Inl Out_of_range"
  "get_http_method_text GET = Inr ''GET''" "get_http_method_text HEAD = Inr ''HEAD''"
  "get_http_method_text POST = Inr ''POST''" "get_http_method_text PUT = Inr ''PUT''"
  "get_http_method_text DELETE = Inr ''DELETE''" "get_http_method_text CONNECT = Inr ''CONNECT''"
  "get_http_method_text OPTIONS = Inr ''OPTIONS''" "get_http_method_text TRACE = Inr ''TRACE''"
  by (simp_all add: get_http_method_text_def http_method_text_def)

text \<open>The two method tables are inverse to each other.\<close>

lemma method_code_text: "get_http_method_text m = Inr t \<Longrightarrow> get_http_method_code t = m"
  by (cases m) (auto simp: get_http_method_code_def http_method_code_def)

lemma method_text_code:
  "get_http_method_code t \<noteq> Method_unsupported \<Longrightarrow> get_http_method_text (get_http_method_code t) = Inr t"
  by (auto simp: get_http_method_code_def http_method_code_def split: if_splits)

lemma version_code_text:
  "v \<noteq> Version_unsupported \<Longrightarrow> get_http_version_code (get_http_version_text v) = v"
  by (cases v) (auto simp: get_http_version_code_def)

lemma version_text_code:
  "get_http_version_code t \<noteq> Version_unsupported \<Longrightarrow> get_http_version_text (get_http_version_code t) = t"
  by (auto simp: get_http_version_code_def split: if_splits)

text \<open>The text of a method holds no byte the request line gives a meaning to.\<close>

lemma method_text_plain:
  "get_http_method_text m = Inr t \<Longrightarrow> c \<in> set t \<Longrightarrow> c \<notin> {CHR '' '', CHR 0x0D, CHR 0x0A, CHR ''/''}"
  by (cases m) auto

lemma version_text_plain:
  "c \<in> set (get_http_version_text v) \<Longrightarrow> c \<notin> {CHR '' '', CHR 0x0D, CHR 0x0A, CHR ''/''}"
  by (cases v) auto

text \<open>The text table has one entry for every enumerator, in the enum's order.\<close>

lemma status_table_keys: "map fst http_response_status_text = map snd http_response_status_enum"
  by (simp add: http_response_status_text_def http_response_status_enum_def)

lemma status_table_increasing: "sorted_wrt (<) (map snd http_response_status_enum)"
  unfolding http_response_status_enum_def list.map snd_conv
  by (simp add: sorted_wrt2 [OF transp_on_less] sorted_wrt1 del: sorted_wrt.simps(2))

lemma status_texts_nonempty: "list_all (\<lambda>t. t \<noteq> []) (map snd http_response_status_text)"
  by (simp only: http_response_status_text_def list.map snd_conv list.pred_inject list.distinct
      append.simps simp_thms)

lemma status_values_three_digits:
  "list_all (\<lambda>n. 100 \<le> n \<and> n \<le> 511) (map snd http_response_status_enum)"
  by (simp add: http_response_status_enum_def)

lemma get_status_text_dom:
  "(\<exists>t. get_http_response_status_text n = Inr t) \<longleftrightarrow> n \<in> set (map snd http_response_status_enum)"
proof -
  have "(\<exists>t. get_http_response_status_text n = Inr t) \<longleftrightarrow> map_of http_response_status_text n \<noteq> None"
    by (auto simp: get_http_response_status_text_def split: option.splits)
  also have "\<dots> \<longleftrightarrow> n \<in> set (map fst http_response_status_text)"
    by (simp add: map_of_eq_None_iff)
  finally show ?thesis by (simp only: status_table_keys)
qed

lemma distinct_status_values: "distinct (map snd http_response_status_enum)"
  using status_table_increasing strict_sorted_iff by blast

lemma get_status_text_entry:
  "(n, t) \<in> set http_response_status_text \<Longrightarrow> get_http_response_status_text n = Inr t"
  using distinct_status_values
  by (simp only: get_http_response_status_text_def status_table_keys [symmetric] map_of_is_SomeI option.case)

lemma status_constants [http_simps]:
  "get_http_response_status_text OK = Inr ''OK''"
  "get_http_response_status_text BadRequest = Inr ''Bad Request''"
  "get_http_response_status_text Forbidden = Inr ''Forbidden''"
  "get_http_response_status_text NotFound = Inr ''Not Found''"
  "get_http_response_status_text MethodNotAllowed = Inr ''Method Not Allowed''"
  "get_http_response_status_text InternalServerError = Inr ''Internal Server Error''"
  by (rule get_status_text_entry;
      simp only: http_response_status_text_def OK_def BadRequest_def Forbidden_def NotFound_def
        MethodNotAllowed_def InternalServerError_def list.set insert_iff simp_thms)+

end
