(* ===== verification/HttpErrors.thy ===== *)
theory HttpErrors imports CppStd begin

text \<open>
  \<open>tinyhttp/errors.h\<close>: the exception classes of the server and their inheritance. An exception is
  its most derived class, its message and the \<open>errno\<close> it captured; a handler for a class catches
  the classes derived from it.
\<close>

datatype exn_class =
    Std_exception | Std std_exn
  | E_RuntimeError
  | HttpBaseError | HttpSyntaxError | HttpInvalidHeaders | HttpInvalidQueryString
  | HttpInvalidRequestLine | HttpVersionInvalid | HttpMethodInvalid
  | HttpStandardError | HttpNotImplemented
  | IoError | ClosedEndpointError | WriteError | ReadError | EofError | TcpError
  | ConnectionError | IoServiceError | TimeoutSetError
  | ConnOpenError | ConnCloseError | InvalidAddressError
  | ServerError | BindError | ListenError | AcceptError | ServerCloseError
  | EpollError | EpollCreateError | EpollWaitError
  | EpollCtlError | EpollAddError | EpollModError | EpollDelError

text \<open>The base class each class names; \<open>std::exception\<close> has none.\<close>

fun base_class :: "exn_class \<Rightarrow> exn_class option" where
  "base_class Std_exception = None"
| "base_class (Std Out_of_range) = Some (Std Logic_error)"
| "base_class (Std Invalid_argument) = Some (Std Logic_error)"
| "base_class (Std s) = Some Std_exception"
| "base_class E_RuntimeError = Some (Std Runtime_error)"
| "base_class HttpBaseError = Some Std_exception"
| "base_class HttpSyntaxError = Some HttpBaseError"
| "base_class HttpInvalidHeaders = Some HttpSyntaxError"
| "base_class HttpInvalidQueryString = Some HttpSyntaxError"
| "base_class HttpInvalidRequestLine = Some HttpSyntaxError"
| "base_class HttpVersionInvalid = Some HttpSyntaxError"
| "base_class HttpMethodInvalid = Some HttpSyntaxError"
| "base_class HttpStandardError = Some HttpBaseError"
| "base_class HttpNotImplemented = Some HttpStandardError"
| "base_class IoError = Some E_RuntimeError"
| "base_class ClosedEndpointError = Some IoError"
| "base_class WriteError = Some IoError"
| "base_class ReadError = Some IoError"
| "base_class EofError = Some ReadError"
| "base_class TcpError = Some IoError"
| "base_class ConnectionError = Some E_RuntimeError"
| "base_class IoServiceError = Some ConnectionError"
| "base_class TimeoutSetError = Some IoServiceError"
| "base_class ConnOpenError = Some ConnectionError"
| "base_class ConnCloseError = Some ConnectionError"
| "base_class InvalidAddressError = Some ConnOpenError"
| "base_class ServerError = Some E_RuntimeError"
| "base_class BindError = Some ServerError"
| "base_class ListenError = Some ServerError"
| "base_class AcceptError = Some ServerError"
| "base_class ServerCloseError = Some ServerError"
| "base_class EpollError = Some ServerError"
| "base_class EpollCreateError = Some EpollError"
| "base_class EpollWaitError = Some EpollError"
| "base_class EpollCtlError = Some EpollError"
| "base_class EpollAddError = Some EpollCtlError"
| "base_class EpollModError = Some EpollCtlError"
| "base_class EpollDelError = Some EpollCtlError"

text \<open>The inheritance is at most six classes deep, so five steps up reach every base.\<close>

fun derived_within :: "nat \<Rightarrow> exn_class \<Rightarrow> exn_class \<Rightarrow> bool" where
  "derived_within 0 c d = (c = d)"
| "derived_within (Suc n) c d =
     (c = d \<or> (case base_class c of None \<Rightarrow> False | Some b \<Rightarrow> derived_within n b d))"

definition is_a :: "exn_class \<Rightarrow> exn_class \<Rightarrow> bool" where
  "is_a c d = derived_within 6 c d"

record exn =
  exn_cls :: exn_class
  exn_what :: string
  exn_errno :: int

text \<open>
  \<open>catch (const C &)\<close> takes an exception whose class is derived from \<open>C\<close>. The constructors of
  \<open>RuntimeError\<close> and its derived classes capture the value \<open>errno\<close> has at the throw.
\<close>

definition catches :: "exn_class \<Rightarrow> exn \<Rightarrow> bool" where
  "catches d e = is_a (exn_cls e) d"

definition plain_exn :: "exn_class \<Rightarrow> exn" where
  "plain_exn c = \<lparr>exn_cls = c, exn_what = ''std::exception'', exn_errno = 0\<rparr>"

definition io_exn :: "exn_class \<Rightarrow> string \<Rightarrow> int \<Rightarrow> exn" where
  "io_exn c msg err = \<lparr>exn_cls = c, exn_what = msg, exn_errno = err\<rparr>"

definition std_exn :: "std_exn \<Rightarrow> exn" where
  "std_exn c = plain_exn (Std c)"

text \<open>Every class reaches \<open>std::exception\<close> within the bound.\<close>

lemma is_a_refl [simp]: "is_a c c"
  by (simp add: is_a_def numeral_eq_Suc)

lemma is_a_exception: "is_a c Std_exception"
proof (cases c)
  case (Std s)
  then show ?thesis by (cases s) (simp_all add: is_a_def numeral_eq_Suc)
qed (simp_all add: is_a_def numeral_eq_Suc)

lemma is_a_step: "base_class c = Some b \<Longrightarrow> is_a b d \<Longrightarrow> d \<noteq> Std_exception \<Longrightarrow> is_a c d"
proof (cases c)
  case (Std s)
  then show "base_class c = Some b \<Longrightarrow> is_a b d \<Longrightarrow> d \<noteq> Std_exception \<Longrightarrow> ?thesis"
    by (cases s) (auto simp: is_a_def numeral_eq_Suc)
qed (auto simp: is_a_def numeral_eq_Suc)

text \<open>What the handlers of the event loop catch, and what they let through.\<close>

lemma is_a_IoError:
  "is_a c IoError \<longleftrightarrow>
     c \<in> {IoError, ClosedEndpointError, WriteError, ReadError, EofError, TcpError}"
proof (cases c)
  case (Std s)
  then show ?thesis by (cases s) (simp_all add: is_a_def numeral_eq_Suc)
qed (simp_all add: is_a_def numeral_eq_Suc)

lemma is_a_EofError: "is_a c EofError \<longleftrightarrow> c = EofError"
proof (cases c)
  case (Std s)
  then show ?thesis by (cases s) (simp_all add: is_a_def numeral_eq_Suc)
qed (simp_all add: is_a_def numeral_eq_Suc)

lemma is_a_EpollError:
  "is_a c EpollError \<longleftrightarrow> c \<in> {EpollError, EpollCreateError, EpollWaitError, EpollCtlError,
     EpollAddError, EpollModError, EpollDelError}"
proof (cases c)
  case (Std s)
  then show ?thesis by (cases s) (simp_all add: is_a_def numeral_eq_Suc)
qed (simp_all add: is_a_def numeral_eq_Suc)

lemma is_a_HttpSyntaxError:
  "is_a c HttpSyntaxError \<longleftrightarrow> c \<in> {HttpSyntaxError, HttpInvalidHeaders, HttpInvalidQueryString,
     HttpInvalidRequestLine, HttpVersionInvalid, HttpMethodInvalid}"
proof (cases c)
  case (Std s)
  then show ?thesis by (cases s) (simp_all add: is_a_def numeral_eq_Suc)
qed (simp_all add: is_a_def numeral_eq_Suc)

lemma exn_simps [simp]:
  "exn_cls (plain_exn c) = c" "exn_cls (io_exn c m e) = c" "exn_cls (std_exn s) = Std s"
  "exn_what (io_exn c m e) = m" "exn_errno (io_exn c m e) = e"
  by (simp_all add: plain_exn_def io_exn_def std_exn_def)

end
