(* ===== verification/HttpQuery.thy ===== *)
theory HttpQuery imports HttpConstants HttpErrors begin

text \<open>
  \<open>tinyhttp/http_query_parameters\<close>: the query string of a request target, \<open>key=value\<close> pairs
  joined by ampersands, in an unordered map with case-sensitive keys.
\<close>

type_synonym query_params = "string umap"

section \<open>Operations\<close>

definition query_emplace :: "string \<Rightarrow> string \<Rightarrow> query_params \<Rightarrow> query_params" where
  "query_emplace key v q = umap_emplace key v q"

text \<open>The loop of the constructor: it runs once more after every ampersand it finds.\<close>

function parse_query :: "string \<Rightarrow> query_params \<Rightarrow> exn + query_params" where
  "parse_query query_string q =
     (let nx = sv_find ''&'' query_string; param = substr0 query_string nx in
      case sv_find ''='' param of
        None \<Rightarrow> Inl (plain_exn HttpInvalidQueryString)
      | Some sep_pos \<Rightarrow>
          let key = take sep_pos query_string;
              v = (if sep_pos + 1 < length param then drop (sep_pos + 1) param else []);
              q' = umap_emplace key v q
          in (case nx of None \<Rightarrow> Inr q' | Some n \<Rightarrow> parse_query (drop (n + 1) query_string) q'))"
  by pat_completeness auto
termination
  by (relation "measure (\<lambda>(view, q). length view)") (auto dest!: sv_find_bound [OF sym])

declare parse_query.simps [simp del]

definition HttpQueryParameters :: "string \<Rightarrow> exn + query_params" where
  "HttpQueryParameters query_string = (if query_string = [] then Inr [] else parse_query query_string [])"

definition query_at :: "query_params \<Rightarrow> string \<Rightarrow> std_exn + string" where
  "query_at q key = umap_at q key"

definition query_insert_or_assign :: "string \<Rightarrow> string \<Rightarrow> query_params \<Rightarrow> query_params" where
  "query_insert_or_assign key v q = umap_assign key v q"

definition query_erase :: "string \<Rightarrow> query_params \<Rightarrow> nat \<times> query_params" where
  "query_erase key q = umap_erase key q"

definition query_contains :: "query_params \<Rightarrow> string \<Rightarrow> bool" where
  "query_contains q key \<longleftrightarrow> map_of q key \<noteq> None"

definition query_clear :: "query_params \<Rightarrow> query_params" where
  "query_clear q = []"

definition query_size :: "query_params \<Rightarrow> nat" where
  "query_size q = length q"

definition query_empty :: "query_params \<Rightarrow> bool" where
  "query_empty q \<longleftrightarrow> q = []"

definition query_pair :: "string \<times> string \<Rightarrow> string" where
  "query_pair kv = fst kv @ ''='' @ snd kv @ ''&''"

definition query_to_string :: "(query_params \<Rightarrow> query_params) \<Rightarrow> query_params \<Rightarrow> string" where
  "query_to_string ord q = (let buf = concat (map query_pair (ord q)) in
     if buf \<noteq> [] then take (length buf - 1) buf else buf)"

interpretation qry: dict_store "\<lambda>k. k" "map_of :: query_params \<Rightarrow> string \<Rightarrow> string option" query_emplace
  query_insert_or_assign "\<lambda>k q. snd (query_erase k q)" "[] :: query_params"
  by unfold_locales
    (auto simp: query_emplace_def query_insert_or_assign_def query_erase_def
      lookup_umap_emplace lookup_umap_assign lookup_umap_erase)

section \<open>One pair\<close>

definition split_pair :: "string \<Rightarrow> string \<times> string" where
  "split_pair p = (takeWhile (\<lambda>c. c \<noteq> CHR ''='') p, drop 1 (dropWhile (\<lambda>c. c \<noteq> CHR ''='') p))"

lemma sv_find_char:
  "sv_find [d] l = (if d \<in> set l then Some (length (takeWhile (\<lambda>c. c \<noteq> d) l)) else None)"
  by (induction l) auto

lemma split_pair_eq:
  assumes "sv_find ''='' p = Some n"
  shows "split_pair p = (take n p, drop (n + 1) p)"
proof -
  have n: "n = length (takeWhile (\<lambda>c. c \<noteq> CHR ''='') p)"
    using assms by (simp add: sv_find_char split: if_splits)
  have "p = takeWhile (\<lambda>c. c \<noteq> CHR ''='') p @ dropWhile (\<lambda>c. c \<noteq> CHR ''='') p" by simp
  then have "take n p = takeWhile (\<lambda>c. c \<noteq> CHR ''='') p" "drop n p = dropWhile (\<lambda>c. c \<noteq> CHR ''='') p"
    unfolding n by (metis append_eq_conv_conj)+
  moreover have "drop (n + 1) p = drop 1 (drop n p)" by simp
  ultimately show ?thesis by (simp only: split_pair_def)
qed

lemma parse_query_last:
  assumes "CHR ''&'' \<notin> set p"
  shows "parse_query p q = (if CHR ''='' \<in> set p
    then Inr (query_emplace (fst (split_pair p)) (snd (split_pair p)) q)
    else Inl (plain_exn HttpInvalidQueryString))"
proof -
  have n: "sv_find ''&'' p = None" using assms by (simp add: sv_find_char)
  show ?thesis
  proof (cases "sv_find ''='' p")
    case None
    with n show ?thesis by (subst parse_query.simps) (simp add: sv_find_char split: if_splits)
  next
    case (Some k)
    moreover from Some have "CHR ''='' \<in> set p" by (simp add: sv_find_char split: if_splits)
    ultimately show ?thesis using n
      by (subst parse_query.simps) (simp add: split_pair_eq query_emplace_def Let_def)
  qed
qed

lemma parse_query_more:
  assumes "CHR ''&'' \<notin> set p"
  shows "parse_query (p @ ''&'' @ rest) q = (if CHR ''='' \<in> set p
    then parse_query rest (query_emplace (fst (split_pair p)) (snd (split_pair p)) q)
    else Inl (plain_exn HttpInvalidQueryString))"
proof -
  have n: "sv_find ''&'' (p @ ''&'' @ rest) = Some (length p)"
    using sv_find_char_append [OF assms] by simp
  show ?thesis
  proof (cases "sv_find ''='' p")
    case None
    with n show ?thesis by (subst parse_query.simps) (simp add: sv_find_char split: if_splits)
  next
    case (Some k)
    moreover from Some have "CHR ''='' \<in> set p" by (simp add: sv_find_char split: if_splits)
    moreover have "k \<le> length p" using sv_find_bound [OF Some] by simp
    ultimately show ?thesis using n
      by (subst parse_query.simps) (simp add: split_pair_eq query_emplace_def Let_def)
  qed
qed

text \<open>A query string of several pairs, the ampersands between them.\<close>

fun join_pairs :: "string list \<Rightarrow> string" where
  "join_pairs [] = []"
| "join_pairs [p] = p"
| "join_pairs (p # ps) = p @ ''&'' @ join_pairs ps"

lemma parse_query_pairs:
  "ps \<noteq> [] \<Longrightarrow> \<forall>p \<in> set ps. CHR ''&'' \<notin> set p \<Longrightarrow>
   parse_query (join_pairs ps) q = (if \<forall>p \<in> set ps. CHR ''='' \<in> set p
     then Inr (fold (\<lambda>(k, v). query_emplace k v) (map split_pair ps) q)
     else Inl (plain_exn HttpInvalidQueryString))"
proof (induction ps arbitrary: q rule: join_pairs.induct)
  case (2 p)
  then show ?case by (simp add: parse_query_last split_beta)
next
  case (3 p p' ps)
  then have p: "CHR ''&'' \<notin> set p" by simp
  have "parse_query (join_pairs (p # p' # ps)) q = parse_query (p @ ''&'' @ join_pairs (p' # ps)) q"
    by simp
  also have "\<dots> = (if CHR ''='' \<in> set p
      then parse_query (join_pairs (p' # ps)) (query_emplace (fst (split_pair p)) (snd (split_pair p)) q)
      else Inl (plain_exn HttpInvalidQueryString))"
    by (rule parse_query_more [OF p])
  finally show ?case using "3.IH" "3.prems" by (simp add: split_beta)
qed simp

section \<open>Printing\<close>

definition pair_printable :: "string \<times> string \<Rightarrow> bool" where
  "pair_printable kv \<longleftrightarrow> CHR ''='' \<notin> set (fst kv) \<and> CHR ''&'' \<notin> set (fst kv) \<and> CHR ''&'' \<notin> set (snd kv)"

lemma join_pairs_print:
  "kvs \<noteq> [] \<Longrightarrow> concat (map query_pair kvs) = join_pairs (map (\<lambda>(k, v). k @ ''='' @ v) kvs) @ ''&''"
  by (induction kvs rule: induct_list012) (auto simp: query_pair_def)

lemma query_to_string_join:
  "query_to_string ord q = join_pairs (map (\<lambda>(k, v). k @ ''='' @ v) (ord q))"
  by (cases "ord q = []") (simp_all add: query_to_string_def join_pairs_print)

lemma split_pair_print: "CHR ''='' \<notin> set k \<Longrightarrow> split_pair (k @ ''='' @ v) = (k, v)"
proof -
  assume k: "CHR ''='' \<notin> set k"
  then have "takeWhile (\<lambda>c. c \<noteq> CHR ''='') (k @ CHR ''='' # v) = k"
    "dropWhile (\<lambda>c. c \<noteq> CHR ''='') (k @ CHR ''='' # v) = CHR ''='' # v"
    by (induction k) auto
  then show ?thesis by (simp add: split_pair_def)
qed

lemma fold_query_emplace_distinct:
  "umap_wf (acc @ kvs) \<Longrightarrow> fold (\<lambda>(k, v). query_emplace k v) kvs acc = acc @ kvs"
proof (induction kvs arbitrary: acc)
  case (Cons kv kvs)
  obtain k v where kv: "kv = (k, v)" by (cases kv)
  have "k \<notin> fst ` set acc" using Cons.prems by (auto simp: umap_wf_def kv)
  then have "query_emplace k v acc = acc @ [(k, v)]"
    by (simp add: query_emplace_def umap_emplace_def map_of_eq_None_iff)
  with Cons show ?case by (simp add: kv)
qed simp

lemma join_pairs_neq_Nil: "ps \<noteq> [] \<Longrightarrow> \<forall>p \<in> set ps. p \<noteq> [] \<Longrightarrow> join_pairs ps \<noteq> []"
  by (induction ps rule: join_pairs.induct) auto

lemma HttpQueryParameters_printed:
  assumes "umap_wf kvs" "\<forall>kv \<in> set kvs. pair_printable kv"
  shows "HttpQueryParameters (join_pairs (map (\<lambda>(k, v). k @ ''='' @ v) kvs)) = Inr kvs"
proof (cases "kvs = []")
  case False
  let ?ps = "map (\<lambda>(k, v). k @ ''='' @ v) kvs"
  have ps: "?ps \<noteq> []" "\<forall>p \<in> set ?ps. CHR ''&'' \<notin> set p" "\<forall>p \<in> set ?ps. CHR ''='' \<in> set p"
    using False assms(2) by (auto simp: pair_printable_def)
  have "split_pair (fst kv @ ''='' @ snd kv) = kv" if "kv \<in> set kvs" for kv
    using assms(2) that split_pair_print [of "fst kv" "snd kv"] by (simp add: pair_printable_def)
  then have "map split_pair ?ps = kvs" by (simp add: comp_def map_idI split_beta)
  moreover have "join_pairs ?ps \<noteq> []" by (rule join_pairs_neq_Nil [OF ps(1)]) auto
  ultimately show ?thesis
    using parse_query_pairs [OF ps(1,2), of "[]"] ps(3) fold_query_emplace_distinct [of "[]" kvs] assms(1)
    by (simp add: HttpQueryParameters_def)
qed (simp add: HttpQueryParameters_def)

section \<open>Properties\<close>

text \<open>
  C13: Parsing a printed parameter map gives a map with the same answers, whatever order it was
  iterated in, when no key holds an equals sign or ampersand and no value an ampersand.
\<close>

theorem query_print_parse:
  assumes "iteration ord" "umap_wf q" "\<forall>kv \<in> set q. pair_printable kv"
  shows "\<exists>q'. HttpQueryParameters (query_to_string ord q) = Inr q' \<and> query_size q' = query_size q
    \<and> (\<forall>k. query_at q' k = query_at q k)"
proof -
  have "\<forall>kv \<in> set (ord q). pair_printable kv" using assms(3) by (simp only: iteration_set [OF assms(1)])
  then have "HttpQueryParameters (query_to_string ord q) = Inr (ord q)"
    unfolding query_to_string_join
    by (rule HttpQueryParameters_printed [OF iteration_wf [OF assms(1,2)]])
  moreover have "map_of (ord q) = map_of q" by (rule iteration_map_of [OF assms(1,2)])
  ultimately show ?thesis
    using iteration_length [OF assms(1), of q] by (simp add: query_at_def umap_at_def query_size_def)
qed

theorem query_print_parse_witness:
  "\<exists>q'. HttpQueryParameters (query_to_string rev [(''a'', ''1=2''), ([], []), (''b'', [])]) = Inr q'
    \<and> query_size q' = query_size [(''a'', ''1=2''), ([], []), (''b'', [])]
    \<and> (\<forall>k. query_at q' k = query_at [(''a'', ''1=2''), ([], []), (''b'', [])] k)"
proof (rule query_print_parse)
  show "iteration rev" by (simp add: iteration_def)
qed (simp_all add: umap_wf_def pair_printable_def)

text \<open>
  The constructor on pairs joined by ampersands throws \<open>HttpInvalidQueryString\<close> exactly when
  some piece has no equals sign (an empty piece, after a trailing ampersand, included); otherwise
  a lookup gives the value of the first piece with that key.
\<close>

theorem query_parse_pairs:
  assumes "ps \<noteq> []" "ps \<noteq> [[]]" "\<forall>p \<in> set ps. CHR ''&'' \<notin> set p"
  shows "case HttpQueryParameters (join_pairs ps) of
      Inl e \<Rightarrow> exn_cls e = HttpInvalidQueryString \<and> (\<exists>p \<in> set ps. CHR ''='' \<notin> set p)
    | Inr q \<Rightarrow> (\<forall>p \<in> set ps. CHR ''='' \<in> set p) \<and> (\<forall>k. query_at q k =
        (case map_of (map split_pair ps) k of None \<Rightarrow> Inl Out_of_range | Some v \<Rightarrow> Inr v))"
proof -
  have "join_pairs ps \<noteq> []" using assms(1,2) by (cases ps rule: join_pairs.cases) auto
  then show ?thesis
    using parse_query_pairs [OF assms(1,3), of "[]"] qry.lookup_emplace_all [of "map split_pair ps" "[]"]
    by (auto simp: HttpQueryParameters_def query_at_def umap_at_def)
qed

theorem query_parse_pairs_witness:
  "case HttpQueryParameters (join_pairs [''a=1'', ''a=2'', []]) of
      Inl e \<Rightarrow> exn_cls e = HttpInvalidQueryString \<and> (\<exists>p \<in> set [''a=1'', ''a=2'', []]. CHR ''='' \<notin> set p)
    | Inr q \<Rightarrow> (\<forall>p \<in> set [''a=1'', ''a=2'', []]. CHR ''='' \<in> set p) \<and> (\<forall>k. query_at q k =
        (case map_of (map split_pair [''a=1'', ''a=2'', []]) k of None \<Rightarrow> Inl Out_of_range | Some v \<Rightarrow> Inr v))"
  by (rule query_parse_pairs) simp_all

end
