(* ===== verification/HttpUtils.thy ===== *)
theory HttpUtils imports CppStd begin

text \<open>
  \<open>tinyhttp/utils.cpp\<close>: \<open>to_lower\<close>, by which header names compare without case, and
  \<open>decode_url\<close>, the percent-decoding of a request target. The loop of \<open>decode_url\<close> consumes its
  view from the front and returns the empty string when an escape is cut off.
\<close>

section \<open>\<open>to_lower\<close>\<close>

definition to_lower :: "string \<Rightarrow> string" where
  "to_lower view = map tolower_c view"

lemma tolower_c_value:
  "of_char (tolower_c c) = (if 65 \<le> (of_char c :: nat) \<and> (of_char c :: nat) \<le> 90
     then of_char c + 32 else (of_char c :: nat))"
  by (simp add: tolower_c_def Let_def take_bit_eq_mod)

lemma tolower_c_idem [simp]: "tolower_c (tolower_c c) = tolower_c c"
proof -
  have "(of_char (tolower_c (tolower_c c)) :: nat) = of_char (tolower_c c)"
    by (simp add: tolower_c_value)
  then show ?thesis by simp
qed

lemma to_lower_idem [simp]: "to_lower (to_lower s) = to_lower s"
  by (simp add: to_lower_def)

lemma length_to_lower [simp]: "length (to_lower s) = length s"
  by (simp add: to_lower_def)

lemma to_lower_append: "to_lower (a @ b) = to_lower a @ to_lower b"
  by (simp add: to_lower_def)

lemma tolower_c_eq_iff:
  assumes "\<not> (65 \<le> (of_char d :: nat) \<and> (of_char d :: nat) \<le> 90)"
    and "\<not> (97 \<le> (of_char d :: nat) \<and> (of_char d :: nat) \<le> 122)"
  shows "tolower_c c = d \<longleftrightarrow> c = d"
proof -
  have "tolower_c c = d \<longleftrightarrow> (of_char (tolower_c c) :: nat) = of_char d" by simp
  also have "\<dots> \<longleftrightarrow> (of_char c :: nat) = of_char d" using assms by (auto simp: tolower_c_value)
  finally show ?thesis by simp
qed

lemma tolower_c_special [simp]:
  "tolower_c c = CHR '':'' \<longleftrightarrow> c = CHR '':''" "tolower_c c = CHR 0x0D \<longleftrightarrow> c = CHR 0x0D"
  by (rule tolower_c_eq_iff; simp)+

lemma in_set_map_fixed:
  assumes "\<And>c. f c = d \<longleftrightarrow> c = d"
  shows "d \<in> set (map f s) \<longleftrightarrow> d \<in> set s"
proof -
  have "d \<in> set (map f s) \<longleftrightarrow> (\<exists>c \<in> set s. f c = d)" by auto
  then show ?thesis by (simp add: assms)
qed

lemma in_set_to_lower:
  "CHR '':'' \<in> set (to_lower s) \<longleftrightarrow> CHR '':'' \<in> set s"
  "CHR 0x0D \<in> set (to_lower s) \<longleftrightarrow> CHR 0x0D \<in> set s"
  unfolding to_lower_def by (rule in_set_map_fixed; simp)+

section \<open>\<open>decode_url\<close>\<close>

fun decode_url_loop :: "string \<Rightarrow> string \<Rightarrow> string" where
  "decode_url_loop decoded_url [] = decoded_url"
| "decode_url_loop decoded_url (c # cs) =
     (if c = CHR ''%'' then
        (case cs of
           a # b # rest \<Rightarrow>
             decode_url_loop (decoded_url @ [char_of (unat (strtoul16 [a, b]))]) rest
         | _ \<Rightarrow> [])
      else if c = CHR ''+'' then decode_url_loop (decoded_url @ [CHR '' '']) cs
      else decode_url_loop (decoded_url @ [c]) cs)"

definition decode_url :: "string \<Rightarrow> string" where
  "decode_url url_view = decode_url_loop [] url_view"

text \<open>The specification: an encoder that escapes every byte a predicate does not let through.\<close>

definition encode_byte :: "(char \<Rightarrow> bool) \<Rightarrow> char \<Rightarrow> string" where
  "encode_byte plain c = (if plain c then [c]
     else [CHR ''%'', digit_char (of_char c div 16), digit_char (of_char c mod 16)])"

definition encode_url :: "(char \<Rightarrow> bool) \<Rightarrow> string \<Rightarrow> string" where
  "encode_url plain s = concat (map (encode_byte plain) s)"

lemma of_char_less: "(of_char c :: nat) < 256"
  by (rule nat_of_char_less_256)

lemma encode_url_simps [simp]:
  "encode_url plain [] = []" "encode_url plain (c # s) = encode_byte plain c @ encode_url plain s"
  by (simp_all add: encode_url_def)

lemma decode_escape:
  "char_of (unat (strtoul16 [digit_char (of_char c div 16), digit_char (of_char c mod 16)])) = c"
proof -
  let ?n = "of_char c :: nat"
  have "?n div 16 < 16" using of_char_less [of c] by (simp add: less_mult_imp_div_less)
  moreover have "?n mod 16 < 16" by simp
  ultimately have "strtoul16 [digit_char (?n div 16), digit_char (?n mod 16)] = of_nat ?n"
    by (simp add: strtoul16_digits)
  moreover have "unat (of_nat ?n :: 64 word) = ?n"
    using of_char_less [of c] by (simp add: unat_of_nat less_trans [OF of_char_less])
  ultimately show ?thesis by simp
qed

lemma decode_url_loop_encoded:
  assumes "\<not> plain CHR ''%''" "\<not> plain CHR ''+''"
  shows "decode_url_loop acc (encode_url plain s @ rest) = decode_url_loop (acc @ s) rest"
proof (induction s arbitrary: acc)
  case Nil
  show ?case by simp
next
  case (Cons c s)
  have "decode_url_loop acc (encode_byte plain c @ encode_url plain s @ rest) =
      decode_url_loop (acc @ [c]) (encode_url plain s @ rest)"
    using assms by (auto simp: encode_byte_def decode_escape)
  then show ?case by (simp add: Cons.IH)
qed

lemma decode_url_loop_plain:
  "CHR ''%'' \<notin> set s \<Longrightarrow> CHR ''+'' \<notin> set s \<Longrightarrow> decode_url_loop acc (s @ rest) = decode_url_loop (acc @ s) rest"
  by (induction s arbitrary: acc) auto

lemma decode_url_plain: "CHR ''%'' \<notin> set s \<Longrightarrow> CHR ''+'' \<notin> set s \<Longrightarrow> decode_url s = s"
  using decode_url_loop_plain [of s "[]" "[]"] by (simp add: decode_url_def)

lemma length_decode_url_loop: "length (decode_url_loop acc s) \<le> length acc + length s"
proof (induction acc s rule: decode_url_loop.induct)
  case (2 acc c cs)
  show ?case
  proof (cases "c = CHR ''%''")
    case True
    show ?thesis
    proof (cases "\<exists>a b rest. cs = a # b # rest")
      case True
      then obtain a b rest where "cs = a # b # rest" by blast
      with "2.IH"(1) [OF \<open>c = CHR ''%''\<close> this refl] \<open>c = CHR ''%''\<close> show ?thesis by simp
    qed (use True in \<open>auto split: list.splits\<close>)
  qed (use 2 in auto)
qed simp

end
