(* ===== verification/HttpRequestLineT.thy ===== *)
theory HttpRequestLineT imports HttpQuery HttpUtils begin

text \<open>
  \<open>tinyhttp/http_request_line\<close>: the first line of a request. The constructor cuts it at its line
  end, takes the method up to the first space, the target up to the second, decodes the target,
  splits the decoded text at its first question mark, and reads the version after a slash.
\<close>

record http_request_line =
  rl_version :: http_version
  rl_method :: http_method
  rl_url :: string
  rl_query :: query_params

section \<open>Parsing\<close>

text \<open>The decoded target: its path, and the parameters when text follows the question mark.\<close>

definition parse_target :: "string \<Rightarrow> exn + string \<times> query_params" where
  "parse_target url =
     (case sv_find ''?'' url of
        None \<Rightarrow> Inr (url, [])
      | Some question_pos \<Rightarrow>
          if question_pos + 1 < length url then
            (case HttpQueryParameters (drop (question_pos + 1) url) of
               Inl e \<Rightarrow> Inl e
             | Inr q \<Rightarrow> Inr (take question_pos url, q))
          else Inr (url, []))"

definition parse_version :: "string \<Rightarrow> exn + http_version" where
  "parse_version line =
     (case sv_find ''/'' line of
        None \<Rightarrow> Inl (plain_exn HttpInvalidRequestLine)
      | Some slash_pos \<Rightarrow>
          if slash_pos + 1 = length line then Inl (plain_exn HttpInvalidRequestLine)
          else let version = get_http_version_code (drop (slash_pos + 1) line) in
            if version = Version_unsupported then Inl (plain_exn HttpVersionInvalid)
            else Inr version)"

text \<open>A word up to the next space; something must follow the space.\<close>

definition next_word :: "string \<Rightarrow> exn + string \<times> string" where
  "next_word line =
     (case sv_find '' '' line of
        None \<Rightarrow> Inl (plain_exn HttpInvalidRequestLine)
      | Some space_pos \<Rightarrow>
          if space_pos + 1 = length line then Inl (plain_exn HttpInvalidRequestLine)
          else Inr (take space_pos line, drop (space_pos + 1) line))"

definition HttpRequestLine :: "string \<Rightarrow> exn + http_request_line" where
  "HttpRequestLine request_line =
     (let line = substr0 request_line (sv_find newline request_line) in
      case next_word line of Inl e \<Rightarrow> Inl e
      | Inr (http_method_str, line) \<Rightarrow>
          let m = get_http_method_code http_method_str in
          if m = Method_unsupported then Inl (plain_exn HttpMethodInvalid)
          else (case next_word line of Inl e \<Rightarrow> Inl e
            | Inr (target, line) \<Rightarrow>
               (case parse_target (decode_url target) of Inl e \<Rightarrow> Inl e
                | Inr (url, q) \<Rightarrow>
                    (case parse_version line of Inl e \<Rightarrow> Inl e
                     | Inr v \<Rightarrow> Inr \<lparr>rl_version = v, rl_method = m, rl_url = url, rl_query = q\<rparr>))))"

section \<open>Printing\<close>

definition request_line_to_string ::
  "(query_params \<Rightarrow> query_params) \<Rightarrow> http_request_line \<Rightarrow> std_exn + string" where
  "request_line_to_string ord r =
     (case get_http_method_text (rl_method r) of Inl e \<Rightarrow> Inl e
      | Inr m \<Rightarrow> Inr (m @ '' '' @ rl_url r
          @ (if \<not> query_empty (rl_query r) then ''?'' @ query_to_string ord (rl_query r) else [])
          @ '' '' @ ''HTTP'' @ ''/'' @ get_http_version_text (rl_version r)))"

section \<open>Lemmas\<close>

lemma next_word_append:
  "CHR '' '' \<notin> set w \<Longrightarrow> r \<noteq> [] \<Longrightarrow> next_word (w @ CHR '' '' # r) = Inr (w, r)"
  by (simp add: next_word_def sv_simps)

lemma next_word_errors:
  "CHR '' '' \<notin> set w \<Longrightarrow> next_word w = Inl (plain_exn HttpInvalidRequestLine)"
  "CHR '' '' \<notin> set w \<Longrightarrow> next_word (w @ '' '') = Inl (plain_exn HttpInvalidRequestLine)"
  using sv_find_char_append [of "CHR '' ''" w "[]"]
  by (simp_all add: next_word_def sv_find_char [of "CHR '' ''" w])

lemma request_line_cut:
  "CHR 0x0D \<notin> set l \<Longrightarrow> HttpRequestLine (l @ newline @ rest) = HttpRequestLine l"
  using sv_find_newline_append [of l rest] by (simp add: HttpRequestLine_def sv_simps)

lemma request_line_parts:
  assumes "CHR '' '' \<notin> set m" "CHR '' '' \<notin> set u" "CHR 0x0D \<notin> set (m @ u @ v)" "v \<noteq> []"
  shows "HttpRequestLine (m @ '' '' @ u @ '' '' @ v) =
    (if get_http_method_code m = Method_unsupported then Inl (plain_exn HttpMethodInvalid)
     else case parse_target (decode_url u) of Inl e \<Rightarrow> Inl e
       | Inr (url, q) \<Rightarrow> (case parse_version v of Inl e \<Rightarrow> Inl e
          | Inr ver \<Rightarrow> Inr \<lparr>rl_version = ver, rl_method = get_http_method_code m, rl_url = url, rl_query = q\<rparr>))"
proof -
  have n: "sv_find newline (m @ '' '' @ u @ '' '' @ v) = None"
    using assms(3) by (intro sv_find_newline_None) auto
  have "next_word (m @ '' '' @ u @ '' '' @ v) = Inr (m, u @ '' '' @ v)"
    using next_word_append [OF assms(1), of "u @ '' '' @ v"] by simp
  moreover have "next_word (u @ '' '' @ v) = Inr (u, v)"
    using next_word_append [OF assms(2,4)] by simp
  ultimately show ?thesis unfolding HttpRequestLine_def n by (simp add: Let_def)
qed

lemma parse_version_printed:
  "v \<noteq> Version_unsupported \<Longrightarrow> parse_version (''HTTP'' @ ''/'' @ get_http_version_text v) = Inr v"
  by (cases v) (auto simp: parse_version_def get_http_version_code_def)

lemma parse_target_plain: "CHR ''?'' \<notin> set u \<Longrightarrow> parse_target u = Inr (u, [])"
  by (simp add: parse_target_def sv_find_char)

lemma parse_target_query:
  "CHR ''?'' \<notin> set u \<Longrightarrow> q \<noteq> [] \<Longrightarrow> parse_target (u @ ''?'' @ q) =
     (case HttpQueryParameters q of Inl e \<Rightarrow> Inl e | Inr p \<Rightarrow> Inr (u, p))"
  by (simp add: parse_target_def sv_simps split: sum.split)

lemma parse_version_supported: "parse_version l = Inr v \<Longrightarrow> v \<noteq> Version_unsupported"
  by (auto simp: parse_version_def Let_def split: option.splits if_splits)

text \<open>Bytes a printed request line can hold in its target without their meaning changing.\<close>

definition target_plain :: "char \<Rightarrow> bool" where
  "target_plain c \<longleftrightarrow> c \<notin> {CHR '' '', CHR ''%'', CHR ''+'', CHR 0x0D}"

definition request_line_printable :: "http_request_line \<Rightarrow> bool" where
  "request_line_printable r \<longleftrightarrow> rl_version r \<noteq> Version_unsupported \<and> rl_method r \<noteq> Method_unsupported
     \<and> list_all target_plain (rl_url r) \<and> CHR ''?'' \<notin> set (rl_url r) \<and> umap_wf (rl_query r)
     \<and> (\<forall>kv \<in> set (rl_query r). pair_printable kv \<and> list_all target_plain (fst kv)
          \<and> list_all target_plain (snd kv))"

lemma join_pairs_plain:
  "(\<forall>kv \<in> set kvs. list_all target_plain (fst kv) \<and> list_all target_plain (snd kv)) \<Longrightarrow>
   list_all target_plain (join_pairs (map (\<lambda>(k, v). k @ ''='' @ v) kvs))"
  by (induction kvs rule: induct_list012) (auto simp: target_plain_def)

lemma plain_not_in:
  "list_all target_plain s \<Longrightarrow> CHR '' '' \<notin> set s \<and> CHR ''%'' \<notin> set s \<and> CHR ''+'' \<notin> set s \<and> CHR 0x0D \<notin> set s"
  by (auto simp: target_plain_def list_all_iff)

lemma request_line_print_parse_eq:
  assumes ord: "iteration ord" and r: "request_line_printable r"
  shows "\<exists>t. request_line_to_string ord r = Inr t \<and> CHR 0x0D \<notin> set t
    \<and> HttpRequestLine t = Inr (r\<lparr>rl_query := ord (rl_query r)\<rparr>)"
proof -
  let ?q = "rl_query r"
  let ?u = "rl_url r @ (if ?q \<noteq> [] then ''?'' @ query_to_string ord ?q else [])"
  let ?v = "''HTTP'' @ ''/'' @ get_http_version_text (rl_version r)"
  obtain m where m: "get_http_method_text (rl_method r) = Inr m"
    using r by (cases "rl_method r") (auto simp: request_line_printable_def)
  have pq: "\<forall>kv \<in> set (ord ?q). pair_printable kv"
    and pl: "list_all target_plain (query_to_string ord ?q)"
    using r iteration_set [OF ord, of ?q]
    by (auto simp: request_line_printable_def query_to_string_join intro!: join_pairs_plain [simplified])
  have u: "list_all target_plain ?u" using r pl by (auto simp: request_line_printable_def target_plain_def)
  have target: "parse_target (decode_url ?u) = Inr (rl_url r, ord ?q)"
  proof -
    have dec: "decode_url ?u = ?u" using plain_not_in [OF u] by (intro decode_url_plain) simp_all
    have "query_to_string ord ?q \<noteq> []" if "?q \<noteq> []"
      unfolding query_to_string_join using that iteration_length [OF ord, of ?q]
      by (intro join_pairs_neq_Nil) auto
    moreover have "HttpQueryParameters (query_to_string ord ?q) = Inr (ord ?q)"
      unfolding query_to_string_join
      by (rule HttpQueryParameters_printed [OF iteration_wf [OF ord] pq])
        (use r in \<open>simp add: request_line_printable_def\<close>)
    moreover have "ord [] = []" using iteration_length [OF ord, of "[]"] by simp
    ultimately show ?thesis unfolding dec
      using r parse_target_query [of "rl_url r" "query_to_string ord ?q"]
      by (simp add: request_line_printable_def parse_target_plain)
  qed
  have "CHR 0x0D \<notin> set (m @ ?u @ ?v)" and sp: "CHR '' '' \<notin> set m" "CHR '' '' \<notin> set ?u"
    using plain_not_in [OF u] method_text_plain [OF m] version_text_plain [of "CHR 0x0D" "rl_version r"]
    by auto
  from request_line_parts [OF sp this(1)] target r
  have "HttpRequestLine (m @ '' '' @ ?u @ '' '' @ ?v) = Inr (r\<lparr>rl_query := ord ?q\<rparr>)"
    by (simp add: method_code_text [OF m] parse_version_printed [simplified] request_line_printable_def)
  moreover have "request_line_to_string ord r = Inr (m @ '' '' @ ?u @ '' '' @ ?v)"
    by (simp add: request_line_to_string_def m query_empty_def)
  moreover have "CHR 0x0D \<notin> set (m @ '' '' @ ?u @ '' '' @ ?v)"
    using \<open>CHR 0x0D \<notin> set (m @ ?u @ ?v)\<close> by auto
  ultimately show ?thesis by blast
qed

lemma parse_query_error:
  "parse_query s p = Inl e \<Longrightarrow> is_a (exn_cls e) HttpSyntaxError"
proof (induction s p rule: parse_query.induct)
  case (1 s p)
  then show ?case
    by (subst (asm) (2) parse_query.simps) (auto simp: Let_def is_a_HttpSyntaxError split: option.splits if_splits)
qed

lemma request_line_part_errors:
  "next_word l = Inl e \<Longrightarrow> is_a (exn_cls e) HttpSyntaxError"
  "parse_target u = Inl e \<Longrightarrow> is_a (exn_cls e) HttpSyntaxError"
  "parse_version l = Inl e \<Longrightarrow> is_a (exn_cls e) HttpSyntaxError"
  by (auto simp: next_word_def parse_target_def parse_version_def HttpQueryParameters_def Let_def
      is_a_HttpSyntaxError dest: parse_query_error split: option.splits if_splits sum.splits)

lemma HttpRequestLine_error:
  "HttpRequestLine t = Inl e \<Longrightarrow> is_a (exn_cls e) HttpSyntaxError"
proof -
  have "is_a HttpMethodInvalid HttpSyntaxError" by (simp add: is_a_HttpSyntaxError)
  then show "HttpRequestLine t = Inl e \<Longrightarrow> ?thesis"
    unfolding HttpRequestLine_def Let_def
    by (auto split: if_splits sum.splits) (rule request_line_part_errors; assumption)+
qed

lemma HttpRequestLine_accepts:
  "HttpRequestLine t = Inr r \<Longrightarrow> rl_method r \<noteq> Method_unsupported \<and> rl_version r \<noteq> Version_unsupported"
  by (auto simp: HttpRequestLine_def Let_def parse_version_supported split: if_splits sum.splits)

lemma request_line_prints:
  "rl_method r \<noteq> Method_unsupported \<Longrightarrow> \<exists>t. request_line_to_string ord r = Inr t"
  by (cases "rl_method r") (simp_all add: request_line_to_string_def)

section \<open>Properties\<close>

text \<open>
  C12: A request line with a known method and version that was printed parses back to the same method, version, path and
  parameters, whatever order the parameters were iterated in, as long as path and parameters
  hold no byte with a meaning of its own in a target (space, percent, plus, CR, and the
  separators).
\<close>

theorem request_line_print_parse:
  assumes "iteration ord" "request_line_printable r"
  shows "\<exists>t r'. request_line_to_string ord r = Inr t \<and> HttpRequestLine t = Inr r'
    \<and> rl_method r' = rl_method r \<and> rl_version r' = rl_version r \<and> rl_url r' = rl_url r
    \<and> (\<forall>k. query_at (rl_query r') k = query_at (rl_query r) k)"
proof -
  have "map_of (ord (rl_query r)) = map_of (rl_query r)"
    using assms by (intro iteration_map_of) (simp_all add: request_line_printable_def)
  with request_line_print_parse_eq [OF assms] show ?thesis
    by (auto simp: query_at_def umap_at_def)
qed

theorem request_line_print_parse_witness:
  "\<exists>t r'. request_line_to_string rev \<lparr>rl_version = V1_0, rl_method = POST, rl_url = ''/a/b'',
        rl_query = [(''k'', ''v=1''), (''z'', [])]\<rparr> = Inr t \<and> HttpRequestLine t = Inr r'
    \<and> rl_method r' = POST \<and> rl_version r' = V1_0 \<and> rl_url r' = ''/a/b''
    \<and> (\<forall>k. query_at (rl_query r') k = query_at [(''k'', ''v=1''), (''z'', [])] k)"
proof -
  have "iteration rev" by (simp add: iteration_def)
  from request_line_print_parse [OF this, of "\<lparr>rl_version = V1_0, rl_method = POST, rl_url = ''/a/b'',
        rl_query = [(''k'', ''v=1''), (''z'', [])]\<rparr>"]
  show ?thesis by (simp add: request_line_printable_def target_plain_def umap_wf_def pair_printable_def)
qed

text \<open>
  Any path without a question mark, of arbitrary bytes, is received as it was sent once it is
  percent-encoded: the constructor decodes the encoded path back to it and finds no parameters,
  whichever bytes the encoder left as they are besides percent, plus, space and CR.
\<close>

theorem request_line_encoded_path:
  assumes "\<forall>c. plain c \<longrightarrow> target_plain c" "CHR ''?'' \<notin> set path" "v \<noteq> Version_unsupported"
    and "get_http_method_text m = Inr t"
  shows "HttpRequestLine (t @ '' '' @ encode_url plain path @ '' '' @ ''HTTP/'' @ get_http_version_text v)
    = Inr \<lparr>rl_version = v, rl_method = m, rl_url = path, rl_query = []\<rparr>"
proof -
  have pl: "\<not> plain CHR ''%''" "\<not> plain CHR ''+''" using assms(1) by (auto simp: target_plain_def)
  have dec: "decode_url (encode_url plain path) = path"
    using decode_url_loop_encoded [of plain "[]" path "[]"] pl by (simp add: decode_url_def)
  have "CHR '' '' \<notin> set (encode_byte plain c) \<and> CHR 0x0D \<notin> set (encode_byte plain c)" for c
    using assms(1) digit_char_plain [of "of_char c div 16"] digit_char_plain [of "of_char c mod 16"]
      of_char_less [of c]
    by (auto simp: encode_byte_def target_plain_def less_mult_imp_div_less)
  then have enc: "CHR '' '' \<notin> set (encode_url plain path)" "CHR 0x0D \<notin> set (encode_url plain path)"
    by (auto simp: encode_url_def)
  have ver: "parse_version (''HTTP/'' @ get_http_version_text v) = Inr v"
    using parse_version_printed [OF assms(3)] by simp
  have "CHR 0x0D \<notin> set (t @ encode_url plain path @ ''HTTP/'' @ get_http_version_text v)"
    using enc method_text_plain [OF assms(4)] version_text_plain [of "CHR 0x0D" v] by auto
  moreover have "CHR '' '' \<notin> set t" using method_text_plain [OF assms(4)] by auto
  ultimately show ?thesis
    using request_line_parts [of t "encode_url plain path" "''HTTP/'' @ get_http_version_text v"]
      enc(1) ver method_code_text [OF assms(4)] assms(4)
    by (cases m) (simp_all add: dec parse_target_plain [OF assms(2)])
qed

theorem request_line_encoded_path_witness:
  "HttpRequestLine (''GET'' @ '' '' @ encode_url (\<lambda>c. c = CHR ''/'' \<or> c = CHR ''a'') ''/a b%'' @ '' '' @ ''HTTP/''
      @ get_http_version_text V1_1)
    = Inr \<lparr>rl_version = V1_1, rl_method = GET, rl_url = ''/a b%'', rl_query = []\<rparr>"
  by (rule request_line_encoded_path) (auto simp: target_plain_def)

text \<open>
  The target is decoded before it is split at the question mark, so an escaped question mark
  in the path starts the parameters: the path \<open>/a?b=1\<close>, encoded, is not received as that path.
\<close>

theorem request_line_decodes_before_split:
  "HttpRequestLine ''GET /a%3Fb=1 HTTP/1.1'' =
     Inr \<lparr>rl_version = V1_1, rl_method = GET, rl_url = ''/a'', rl_query = [(''b'', ''1'')]\<rparr>"
proof -
  have d: "decode_url ''/a%3Fb=1'' = ''/a?b=1''"
    using decode_escape [of "CHR ''?''"] by (simp add: decode_url_def digit_char_def)
  have "HttpQueryParameters ''b=1'' = Inr [(''b'', ''1'')]"
    using HttpQueryParameters_printed [of "[(''b'', ''1'')]"] by (simp add: umap_wf_def pair_printable_def)
  then have "parse_target ''/a?b=1'' = Inr (''/a'', [(''b'', ''1'')])"
    using parse_target_query [of "''/a''" "''b=1''"] by simp
  then show ?thesis
    using request_line_parts [of "''GET''" "''/a%3Fb=1''" "''HTTP/1.1''"] parse_version_printed [of V1_1]
    by (simp add: d get_http_method_code_def http_method_code_def)
qed

text \<open>
  An accepted request line has one of the eight methods and one of the three versions, so
  printing it does not throw; every refusal is one of the syntax errors of \<open>errors.h\<close>.
\<close>

theorem request_line_outcomes:
  "case HttpRequestLine text of
     Inl e \<Rightarrow> is_a (exn_cls e) HttpSyntaxError
   | Inr r \<Rightarrow> rl_method r \<noteq> Method_unsupported \<and> rl_version r \<noteq> Version_unsupported
       \<and> (\<exists>t. request_line_to_string ord r = Inr t)"
  using HttpRequestLine_error HttpRequestLine_accepts request_line_prints
  by (cases "HttpRequestLine text") auto

end
