(* ===== verification/HttpHeadersT.thy ===== *)
theory HttpHeadersT imports HttpConstants HttpErrors HttpUtils begin

text \<open>
  \<open>tinyhttp/http_headers\<close>: the header section of a message. The class wraps an unordered map
  whose keys are lower-case, so names compare without case; its constructor parses the text
  between the first line of a message and the blank line. The theory provides the dictionary
  contract of \<open>CppStd\<close> for it and shows parsing and printing to be inverse.
\<close>

type_synonym http_headers = "string umap"

section \<open>Operations\<close>

definition headers_emplace :: "string \<Rightarrow> string \<Rightarrow> http_headers \<Rightarrow> http_headers" where
  "headers_emplace header v h = umap_emplace (to_lower header) v h"

text \<open>The loop of the constructor; the view shrinks by a line and its line end in every round.\<close>

function parse_headers :: "string \<Rightarrow> http_headers \<Rightarrow> exn + http_headers" where
  "parse_headers view h =
     (case sv_find newline view of
        None \<Rightarrow> Inr h
      | Some nx \<Rightarrow>
          let header_value = take nx view in
          if header_value = [] then Inr h
          else (case sv_find '':'' header_value of
                  None \<Rightarrow> Inl (plain_exn HttpInvalidHeaders)
                | Some colon_pos \<Rightarrow>
                    let header = take colon_pos header_value;
                        v = (if colon_pos + 1 < length header_value
                             then skip_char CHR '' '' (drop (colon_pos + 1) header_value)
                             else [])
                    in parse_headers (drop (nx + 2) view) (umap_emplace (to_lower header) v h)))"
  by pat_completeness auto
termination
  by (relation "measure (\<lambda>(view, h). length view)") (auto dest!: sv_find_bound)

declare parse_headers.simps [simp del]

definition HttpHeaders :: "string \<Rightarrow> exn + http_headers" where
  "HttpHeaders headers_values_view = parse_headers headers_values_view []"

definition headers_at :: "http_headers \<Rightarrow> string \<Rightarrow> std_exn + string" where
  "headers_at h header = umap_at h (to_lower header)"

definition headers_insert_or_assign :: "string \<Rightarrow> string \<Rightarrow> http_headers \<Rightarrow> http_headers" where
  "headers_insert_or_assign header v h = umap_assign (to_lower header) v h"

definition headers_erase :: "string \<Rightarrow> http_headers \<Rightarrow> nat \<times> http_headers" where
  "headers_erase header h = umap_erase (to_lower header) h"

definition headers_contains :: "http_headers \<Rightarrow> string \<Rightarrow> bool" where
  "headers_contains h header \<longleftrightarrow> map_of h (to_lower header) \<noteq> None"

definition headers_clear :: "http_headers \<Rightarrow> http_headers" where
  "headers_clear h = []"

definition headers_size :: "http_headers \<Rightarrow> nat" where
  "headers_size h = length h"

definition headers_empty :: "http_headers \<Rightarrow> bool" where
  "headers_empty h \<longleftrightarrow> h = []"

text \<open>\<open>to_string\<close> iterates over the container: \<open>ord\<close> is the order it does so in.\<close>

definition header_line :: "string \<times> string \<Rightarrow> string" where
  "header_line kv = fst kv @ '':'' @ '' '' @ snd kv @ newline"

definition headers_to_string :: "(http_headers \<Rightarrow> http_headers) \<Rightarrow> http_headers \<Rightarrow> string" where
  "headers_to_string ord h =
     (if h \<noteq> [] then let buf = concat (map header_line (ord h)) in take (length buf - 2) buf
      else [])"

section \<open>The dictionary contract\<close>

interpretation hdr: dict_store to_lower "\<lambda>h k. map_of h (to_lower k)" headers_emplace
  headers_insert_or_assign "\<lambda>k h. snd (headers_erase k h)" "[] :: http_headers"
  by unfold_locales
    (auto simp: headers_emplace_def headers_insert_or_assign_def headers_erase_def
      lookup_umap_emplace lookup_umap_assign lookup_umap_erase)

lemma headers_at_lookup:
  "headers_at h k = (case map_of h (to_lower k) of None \<Rightarrow> Inl Out_of_range | Some v \<Rightarrow> Inr v)"
  by (simp add: headers_at_def umap_at_def)

text \<open>The class invariant: distinct lower-case keys.\<close>

definition headers_wf :: "http_headers \<Rightarrow> bool" where
  "headers_wf h \<longleftrightarrow> umap_wf h \<and> (\<forall>k \<in> set (map fst h). to_lower k = k)"

lemma headers_wf_Nil [simp]: "headers_wf []"
  by (simp add: headers_wf_def)

lemma headers_wf_emplace: "headers_wf h \<Longrightarrow> headers_wf (headers_emplace k v h)"
  using umap_wf_emplace [of h "to_lower k" v]
  by (auto simp: headers_wf_def headers_emplace_def umap_emplace_def)

lemma headers_wf_assign: "headers_wf h \<Longrightarrow> headers_wf (headers_insert_or_assign k v h)"
  using umap_wf_assign [of h "to_lower k" v]
  unfolding headers_wf_def headers_insert_or_assign_def umap_assign_def update_keys by auto

lemma headers_wf_erase: "headers_wf h \<Longrightarrow> headers_wf (snd (headers_erase k h))"
  using umap_wf_erase [of h "to_lower k"]
  by (auto simp: headers_wf_def headers_erase_def umap_erase_def delete_keys)

lemma parse_headers_wf: "parse_headers view h = Inr h' \<Longrightarrow> headers_wf h \<Longrightarrow> headers_wf h'"
proof (induction view h rule: parse_headers.induct)
  case (1 view h)
  show ?case
  proof (cases "sv_find newline view")
    case None
    with "1.prems" show ?thesis by (simp add: parse_headers.simps [of view h])
  next
    case (Some nx)
    show ?thesis
    proof (cases "take nx view = [] \<or> sv_find '':'' (take nx view) = None")
      case True
      with "1.prems" Some show ?thesis
        by (auto simp: parse_headers.simps [of view h] Let_def split: if_splits)
    next
      case False
      then obtain p where p: "sv_find '':'' (take nx view) = Some p" by blast
      from "1.IH" [OF Some refl _ p refl refl] "1.prems" Some p False show ?thesis
        using headers_wf_emplace by (auto simp: parse_headers.simps [of view h] Let_def headers_emplace_def)
    qed
  qed
qed

section \<open>Parsing lines\<close>

text \<open>What one line of the header section says: the name up to the colon, and the value.\<close>

definition split_line :: "string \<Rightarrow> string \<times> string" where
  "split_line l = (takeWhile (\<lambda>c. c \<noteq> CHR '':'') l,
     skip_char CHR '' '' (drop 1 (dropWhile (\<lambda>c. c \<noteq> CHR '':'') l)))"

lemma sv_find_colon:
  "sv_find '':'' l = (if CHR '':'' \<in> set l then Some (length (takeWhile (\<lambda>c. c \<noteq> CHR '':'') l)) else None)"
  by (induction l) auto

lemma take_length_takeWhile: "take (length (takeWhile P l)) l = takeWhile P l"
  by (metis append_eq_conv_conj takeWhile_dropWhile_id)

lemma drop_length_takeWhile: "drop (length (takeWhile P l)) l = dropWhile P l"
  by (metis append_eq_conv_conj takeWhile_dropWhile_id)

lemma split_line_eq:
  assumes "sv_find '':'' l = Some p"
  shows "split_line l = (take p l, if p + 1 < length l then skip_char CHR '' '' (drop (p + 1) l) else [])"
proof -
  have p: "p = length (takeWhile (\<lambda>c. c \<noteq> CHR '':'') l)"
    using assms by (simp add: sv_find_colon split: if_splits)
  have "drop (p + 1) l = drop 1 (dropWhile (\<lambda>c. c \<noteq> CHR '':'') l)"
    unfolding p by (simp only: drop_length_takeWhile [symmetric] drop_drop add.commute)
  then show ?thesis by (auto simp: split_line_def p take_length_takeWhile skip_char_def)
qed

lemma parse_headers_line:
  assumes "l \<noteq> []" "CHR 0x0D \<notin> set l"
  shows "parse_headers (l @ newline @ rest) h =
    (if CHR '':'' \<in> set l
     then parse_headers rest (headers_emplace (fst (split_line l)) (snd (split_line l)) h)
     else Inl (plain_exn HttpInvalidHeaders))"
proof -
  have n: "sv_find newline (l @ newline @ rest) = Some (length l)"
    using sv_find_newline_append [OF assms(2)] by simp
  show ?thesis
  proof (cases "sv_find '':'' l")
    case None
    with n assms(1) show ?thesis
      by (subst parse_headers.simps) (simp add: sv_find_colon split: if_splits)
  next
    case (Some p)
    then have "CHR '':'' \<in> set l" by (simp add: sv_find_colon split: if_splits)
    with Some n assms(1) show ?thesis
      by (subst parse_headers.simps) (simp add: split_line_eq headers_emplace_def Let_def)
  qed
qed

lemma parse_headers_stop:
  "parse_headers [] h = Inr h" "parse_headers (newline @ rest) h = Inr h"
  by (subst parse_headers.simps; simp)+

lemma parse_headers_lines:
  assumes "\<forall>l \<in> set ls. l \<noteq> [] \<and> CHR 0x0D \<notin> set l"
  shows "parse_headers (concat (map (\<lambda>l. l @ newline) ls) @ rest) h =
    (if \<forall>l \<in> set ls. CHR '':'' \<in> set l
     then parse_headers rest (fold (\<lambda>(k, v). headers_emplace k v) (map split_line ls) h)
     else Inl (plain_exn HttpInvalidHeaders))"
  using assms
proof (induction ls arbitrary: h)
  case (Cons l ls)
  then have l: "l \<noteq> []" "CHR 0x0D \<notin> set l" by simp_all
  have ls: "\<forall>l \<in> set ls. l \<noteq> [] \<and> CHR 0x0D \<notin> set l" using Cons.prems by simp
  have "concat (map (\<lambda>l. l @ newline) (l # ls)) @ rest =
      l @ newline @ concat (map (\<lambda>l. l @ newline) ls) @ rest"
    by simp
  then show ?case
    by (simp only: parse_headers_line [OF l] Cons.IH [OF ls]) (simp add: split_beta)
qed simp

section \<open>Printing and parsing back\<close>

definition header_printable :: "string \<times> string \<Rightarrow> bool" where
  "header_printable kv \<longleftrightarrow> to_lower (fst kv) = fst kv \<and> CHR '':'' \<notin> set (fst kv)
     \<and> CHR 0x0D \<notin> set (fst kv) \<and> CHR 0x0D \<notin> set (snd kv) \<and> (snd kv = [] \<or> hd (snd kv) \<noteq> CHR '' '')"

lemma split_line_header:
  assumes "header_printable (k, v)"
  shows "split_line (k @ '':'' @ '' '' @ v) = (k, v)"
proof -
  have a: "takeWhile (\<lambda>c. c \<noteq> CHR '':'') (k @ CHR '':'' # r) = k"
    and b: "dropWhile (\<lambda>c. c \<noteq> CHR '':'') (k @ CHR '':'' # r) = CHR '':'' # r" for r
    using assms by (induction k) (auto simp: header_printable_def to_lower_def)
  have "skip_char CHR '' '' v = v"
    using assms by (cases v) (auto simp: header_printable_def skip_char_def)
  then show ?thesis by (simp add: split_line_def a b skip_char_def)
qed

lemma headers_to_string_newline:
  assumes "iteration ord" "h \<noteq> []"
  shows "headers_to_string ord h @ newline = concat (map header_line (ord h))"
proof -
  have "ord h \<noteq> []" using iteration_length [OF assms(1), of h] assms(2) by (metis length_0_conv)
  then obtain ys kv where "ord h = ys @ [kv]" by (metis rev_exhaust)
  then show ?thesis using assms(2) by (simp add: headers_to_string_def header_line_def)
qed

lemma fold_emplace_distinct:
  "umap_wf (acc @ kvs) \<Longrightarrow> \<forall>kv \<in> set kvs. to_lower (fst kv) = fst kv \<Longrightarrow>
   fold (\<lambda>(k, v). headers_emplace k v) kvs acc = acc @ kvs"
proof (induction kvs arbitrary: acc)
  case (Cons kv kvs)
  obtain k v where kv: "kv = (k, v)" by (cases kv)
  have "k \<notin> fst ` set acc" using Cons.prems(1) by (auto simp: umap_wf_def kv)
  then have "headers_emplace k v acc = acc @ [(k, v)]"
    using Cons.prems(2) by (simp add: kv headers_emplace_def umap_emplace_def map_of_eq_None_iff)
  with Cons show ?case by (simp add: kv)
qed simp

lemma parse_headers_printed:
  assumes "umap_wf kvs" "\<forall>kv \<in> set kvs. header_printable kv"
  shows "parse_headers (concat (map header_line kvs) @ rest) [] = parse_headers rest kvs"
proof -
  let ?ls = "map (\<lambda>kv. fst kv @ '':'' @ '' '' @ snd kv) kvs"
  have lines: "concat (map header_line kvs) = concat (map (\<lambda>l. l @ newline) ?ls)"
    by (simp add: header_line_def [abs_def] comp_def)
  have ls: "\<forall>l \<in> set ?ls. l \<noteq> [] \<and> CHR 0x0D \<notin> set l"
    using assms(2) by (auto simp: header_printable_def)
  have "split_line (fst kv @ '':'' @ '' '' @ snd kv) = kv" if "kv \<in> set kvs" for kv
    using split_line_header [of "fst kv" "snd kv"] assms(2) that by simp
  then have "map split_line ?ls = kvs" by (simp add: comp_def map_idI)
  moreover have "fold (\<lambda>(k, v). headers_emplace k v) kvs [] = kvs"
    using fold_emplace_distinct [of "[]" kvs] assms by (auto simp: header_printable_def)
  ultimately show ?thesis
    unfolding lines parse_headers_lines [OF ls] by auto
qed

text \<open>Without the final line end, the last header is not read.\<close>

lemma headers_unended:
  assumes "iteration ord" "headers_wf h" "\<forall>kv \<in> set h. header_printable kv"
  shows "HttpHeaders (headers_to_string ord h) = Inr (butlast (ord h))"
proof (cases "h = []")
  case True
  then have "ord h = []" using iteration_length [OF assms(1), of h] by simp
  with True show ?thesis using parse_headers_stop(1) by (simp add: HttpHeaders_def headers_to_string_def)
next
  case False
  then have "ord h \<noteq> []" using iteration_length [OF assms(1), of h] by (metis length_0_conv)
  then obtain ys k v where o: "ord h = ys @ [(k, v)]" by (metis rev_exhaust surj_pair)
  have set: "set (ord h) = set h" by (rule iteration_set [OF assms(1)])
  then have pr: "header_printable (k, v)" "\<forall>kv \<in> set ys. header_printable kv" using assms(3) by (auto simp: o)
  have "umap_wf (ys @ [(k, v)])" using assms(1,2) by (simp add: o [symmetric] headers_wf_def iteration_wf)
  then have wf: "umap_wf ys" by (simp add: umap_wf_def)
  have "headers_to_string ord h = concat (map header_line ys) @ k @ '':'' @ '' '' @ v"
    using False by (simp add: headers_to_string_def o header_line_def)
  moreover have "sv_find newline (k @ '':'' @ '' '' @ v) = None"
    using pr(1) by (intro sv_find_newline_None) (simp add: header_printable_def)
  then have "parse_headers (k @ '':'' @ '' '' @ v) ys = Inr ys" by (subst parse_headers.simps) simp
  ultimately show ?thesis
    by (simp only: HttpHeaders_def parse_headers_printed [OF wf pr(2)] o butlast_snoc)
qed

section \<open>Properties\<close>

text \<open>
  C11: Printing headers, of names and values that a header line can hold (lower-case names without colon, no CR, no
  leading space in a value), and parsing the text followed by the line end that a message puts after it gives headers
  that answer every lookup the same, whatever order the container was iterated in. Parsing the text alone, as
  \<open>to_string\<close> returns it, loses the last header it holds, whose line has no end.
\<close>

theorem headers_print_parse:
  assumes "iteration ord" "headers_wf h" "\<forall>kv \<in> set h. header_printable kv"
  shows "(\<exists>h'. HttpHeaders (headers_to_string ord h @ newline) = Inr h' \<and> headers_wf h'
      \<and> headers_size h' = headers_size h \<and> (\<forall>k. headers_at h' k = headers_at h k))
    \<and> HttpHeaders (headers_to_string ord h) = Inr (butlast (ord h))"
proof -
  have wf: "umap_wf (ord h)" and set: "set (ord h) = set h"
    using assms(1,2) by (simp_all add: headers_wf_def iteration_wf iteration_set)
  have "HttpHeaders (headers_to_string ord h @ newline) = Inr (ord h)"
  proof (cases "h = []")
    case True
    then have "ord h = []" using iteration_length [OF assms(1), of h] by simp
    with True show ?thesis
      using parse_headers_stop(2) [of "[]" "[]"] by (simp add: HttpHeaders_def headers_to_string_def)
  next
    case False
    have "HttpHeaders (headers_to_string ord h @ newline) = parse_headers (concat (map header_line (ord h)) @ []) []"
      by (simp add: HttpHeaders_def headers_to_string_newline [OF assms(1) False])
    also have "\<dots> = Inr (ord h)"
      using parse_headers_printed [OF wf, of "[]"] assms(3) by (simp only: set parse_headers_stop)
    finally show ?thesis .
  qed
  moreover have "map_of (ord h) = map_of h"
    using assms(1,2) by (simp add: headers_wf_def iteration_map_of)
  moreover have "headers_wf (ord h)" using wf set assms(2) by (auto simp: headers_wf_def)
  ultimately show ?thesis
    using iteration_length [OF assms(1)] headers_unended [OF assms] by (auto simp: headers_at_lookup headers_size_def)
qed

theorem headers_print_parse_witness:
  "(\<exists>h'. HttpHeaders (headers_to_string rev [(''host'', ''a''), (''x-id'', ''4: 2'')] @ newline) = Inr h'
    \<and> headers_wf h' \<and> headers_size h' = headers_size [(''host'', ''a''), (''x-id'', ''4: 2'')]
    \<and> (\<forall>k. headers_at h' k = headers_at [(''host'', ''a''), (''x-id'', ''4: 2'')] k))
   \<and> HttpHeaders (headers_to_string rev [(''host'', ''a''), (''x-id'', ''4: 2'')]) = Inr (butlast (rev [(''host'', ''a''), (''x-id'', ''4: 2'')]))"
proof (rule headers_print_parse)
  show "iteration rev" by (simp add: iteration_def)
qed (simp_all add: headers_wf_def umap_wf_def header_printable_def to_lower_def tolower_c_def)

text \<open>
  The constructor on a header section: it throws \<open>HttpInvalidHeaders\<close> exactly when a line has
  no colon; otherwise a lookup, in any case of the name, gives the value of the first line with
  that name, its leading spaces removed, and \<open>out_of_range\<close> for a name no line has. What follows
  the blank line is not read.
\<close>

theorem headers_parse_lines:
  assumes "\<forall>l \<in> set ls. l \<noteq> [] \<and> CHR 0x0D \<notin> set l"
  shows "case HttpHeaders (concat (map (\<lambda>l. l @ newline) ls) @ newline @ rest) of
      Inl e \<Rightarrow> exn_cls e = HttpInvalidHeaders \<and> (\<exists>l \<in> set ls. CHR '':'' \<notin> set l)
    | Inr h \<Rightarrow> (\<forall>l \<in> set ls. CHR '':'' \<in> set l) \<and> (\<forall>k. headers_at h k =
        (case map_of (map (\<lambda>(k, v). (to_lower k, v)) (map split_line ls)) (to_lower k) of
           None \<Rightarrow> Inl Out_of_range | Some v \<Rightarrow> Inr v))"
proof (cases "\<forall>l \<in> set ls. CHR '':'' \<in> set l")
  case True
  then have "HttpHeaders (concat (map (\<lambda>l. l @ newline) ls) @ newline @ rest) =
      Inr (fold (\<lambda>(k, v). headers_emplace k v) (map split_line ls) [])"
    by (simp only: HttpHeaders_def parse_headers_lines [OF assms] parse_headers_stop) simp
  with True show ?thesis by (simp add: headers_at_lookup hdr.lookup_emplace_all)
next
  case False
  then have "HttpHeaders (concat (map (\<lambda>l. l @ newline) ls) @ newline @ rest) =
      Inl (plain_exn HttpInvalidHeaders)"
    by (simp only: HttpHeaders_def parse_headers_lines [OF assms]) simp
  with False show ?thesis by auto
qed

theorem headers_parse_lines_witness:
  "case HttpHeaders (concat (map (\<lambda>l. l @ newline) [''Host:  a'', ''HOST: b'']) @ newline @ ''body'') of
      Inl e \<Rightarrow> exn_cls e = HttpInvalidHeaders \<and> (\<exists>l \<in> set [''Host:  a'', ''HOST: b'']. CHR '':'' \<notin> set l)
    | Inr h \<Rightarrow> (\<forall>l \<in> set [''Host:  a'', ''HOST: b'']. CHR '':'' \<in> set l) \<and> (\<forall>k. headers_at h k =
        (case map_of (map (\<lambda>(k, v). (to_lower k, v)) (map split_line [''Host:  a'', ''HOST: b''])) (to_lower k) of
           None \<Rightarrow> Inl Out_of_range | Some v \<Rightarrow> Inr v))"
  by (rule headers_parse_lines) simp

text \<open>
  C35: Every operation keeps the class invariant that the stored names are lower-case and
  distinct, and headers the constructor returns have it, whatever the text.
\<close>

theorem headers_invariant:
  "(HttpHeaders view = Inr h \<longrightarrow> headers_wf h) \<and>
   (headers_wf g \<longrightarrow> headers_wf (headers_emplace k v g) \<and> headers_wf (headers_insert_or_assign k v g)
      \<and> headers_wf (snd (headers_erase k g)) \<and> headers_wf (headers_clear g))"
  using parse_headers_wf [of view "[]" h] headers_wf_emplace headers_wf_assign headers_wf_erase
  by (simp add: HttpHeaders_def headers_clear_def)

theorem headers_invariant_witness:
  "headers_wf (headers_insert_or_assign ''Host'' ''b'' (headers_emplace ''HOST'' ''a'' []))"
  using headers_invariant [of "[]" "[]" "headers_emplace ''HOST'' ''a'' []" "''Host''" "''b''"]
    headers_invariant [of "[]" "[]" "[]" "''HOST''" "''a''"] by simp

end
