(* ===== verification/HttpMessages.thy ===== *)
theory HttpMessages imports HttpRequestLineT HttpHeadersT begin

text \<open>
  The two messages: \<open>tinyhttp/http_request\<close>, \<open>http_response_line\<close> and \<open>http_response\<close>. A
  message is its first line, its headers and its body; \<open>to_string\<close> is what goes on the wire. A
  response keeps the \<open>Content-Length\<close> header in step with its body and may hold a sender, a
  function that sends what follows it.
\<close>

section \<open>Requests\<close>

record http_request =
  rq_line :: http_request_line
  rq_headers :: http_headers
  rq_body :: string

definition HttpRequest :: "http_request_line \<Rightarrow> http_headers \<Rightarrow> http_request" where
  "HttpRequest l h = \<lparr>rq_line = l, rq_headers = h, rq_body = []\<rparr>"

definition HttpRequest_body :: "http_request_line \<Rightarrow> http_headers \<Rightarrow> string \<Rightarrow> http_request" where
  "HttpRequest_body l h body = \<lparr>rq_line = l, rq_headers = h, rq_body = body\<rparr>"

definition request_set_body :: "string \<Rightarrow> http_request \<Rightarrow> http_request" where
  "request_set_body body r = r\<lparr>rq_body := body\<rparr>"

definition get_content_length :: "http_request \<Rightarrow> nat" where
  "get_content_length r = length (rq_body r)"

definition request_to_string ::
  "(query_params \<Rightarrow> query_params) \<Rightarrow> (http_headers \<Rightarrow> http_headers) \<Rightarrow> http_request \<Rightarrow> std_exn + string" where
  "request_to_string qord hord r =
     (case request_line_to_string qord (rq_line r) of Inl e \<Rightarrow> Inl e
      | Inr l \<Rightarrow> Inr (l @ newline @ headers_to_string hord (rq_headers r) @ headers_end @ rq_body r))"

section \<open>Response lines\<close>

record http_response_line =
  sl_version :: http_version
  sl_status :: http_response_status

definition HttpResponseLine_default :: http_response_line where
  "HttpResponseLine_default = \<lparr>sl_version = V1_1, sl_status = OK\<rparr>"

definition HttpResponseLine :: "http_response_status \<Rightarrow> http_version \<Rightarrow> http_response_line" where
  "HttpResponseLine s v = \<lparr>sl_version = v, sl_status = s\<rparr>"

text \<open>
  \<open>to_string\<close> throws for a version without a text; the status text comes from a table by
  \<open>at()\<close>, which throws for a status the table lacks.
\<close>

definition response_line_to_string :: "http_response_line \<Rightarrow> exn + string" where
  "response_line_to_string l =
     (let version_text = get_http_version_text (sl_version l) in
      if version_text = [] then Inl (plain_exn HttpVersionInvalid)
      else case get_http_response_status_text (sl_status l) of
             Inl e \<Rightarrow> Inl (std_exn e)
           | Inr t \<Rightarrow> Inr (''HTTP'' @ ''/'' @ version_text @ '' '' @ to_dec (sl_status l) @ '' '' @ t))"

section \<open>Responses\<close>

text \<open>The sender is a function of the connection; its type is left open here.\<close>

record 's http_response =
  rs_line :: http_response_line
  rs_headers :: http_headers
  rs_body :: string
  rs_sender :: "'s option"

definition set_basic_headers :: "string \<Rightarrow> 's http_response \<Rightarrow> 's http_response" where
  "set_basic_headers date r =
     (let r = r\<lparr>rs_headers := headers_emplace hdr_server server_name (rs_headers r)\<rparr>;
          r = r\<lparr>rs_headers := headers_emplace hdr_date date (rs_headers r)\<rparr>
      in if sl_version (rs_line r) > V0_9
         then r\<lparr>rs_headers := headers_emplace hdr_connection ''closed'' (rs_headers r)\<rparr> else r)"

text \<open>\<open>date\<close> is the text \<open>utils::get_date_http_str\<close> returns at the time of the call.\<close>

definition HttpResponse_default :: "string \<Rightarrow> 's http_response" where
  "HttpResponse_default date = set_basic_headers date
     \<lparr>rs_line = HttpResponseLine_default, rs_headers = [], rs_body = [], rs_sender = None\<rparr>"

definition HttpResponse :: "string \<Rightarrow> http_response_status \<Rightarrow> http_version \<Rightarrow> 's http_response" where
  "HttpResponse date s v = set_basic_headers date
     \<lparr>rs_line = HttpResponseLine s v, rs_headers = [], rs_body = [], rs_sender = None\<rparr>"

definition set_response_line :: "http_response_line \<Rightarrow> 's http_response \<Rightarrow> 's http_response" where
  "set_response_line l r = r\<lparr>rs_line := l\<rparr>"

definition reset_headers :: "string \<Rightarrow> 's http_response \<Rightarrow> 's http_response" where
  "reset_headers date r = set_basic_headers date (r\<lparr>rs_headers := headers_clear (rs_headers r)\<rparr>)"

definition set_headers :: "http_headers \<Rightarrow> 's http_response \<Rightarrow> 's http_response" where
  "set_headers h r = r\<lparr>rs_headers := h\<rparr>"

definition append_to_body :: "string \<Rightarrow> 's http_response \<Rightarrow> 's http_response" where
  "append_to_body part r =
     (let r = r\<lparr>rs_body := rs_body r @ part\<rparr>
      in r\<lparr>rs_headers := headers_insert_or_assign hdr_content_length (to_dec (length (rs_body r))) (rs_headers r)\<rparr>)"

definition response_set_body :: "string \<Rightarrow> 's http_response \<Rightarrow> 's http_response" where
  "response_set_body body r = append_to_body body (r\<lparr>rs_body := []\<rparr>)"

definition set_sender :: "'s \<Rightarrow> 's http_response \<Rightarrow> 's http_response" where
  "set_sender s r = r\<lparr>rs_sender := Some s\<rparr>"

definition response_to_string :: "(http_headers \<Rightarrow> http_headers) \<Rightarrow> 's http_response \<Rightarrow> exn + string" where
  "response_to_string hord r =
     (case response_line_to_string (rs_line r) of Inl e \<Rightarrow> Inl e
      | Inr l \<Rightarrow> Inr (l @ newline @ headers_to_string hord (rs_headers r) @ headers_end @ rs_body r))"

section \<open>Header names\<close>

lemma to_lower_names [http_simps]:
  "to_lower hdr_server = ''server''" "to_lower hdr_date = ''date''"
  "to_lower hdr_connection = ''connection''" "to_lower hdr_content_type = ''content-type''"
  "to_lower hdr_content_length = ''content-length''"
  by code_simp+

section \<open>The layout of a message\<close>

text \<open>A first line, header lines, a blank line, a body; where the two line-end searches stop.\<close>

definition lines_text :: "string list \<Rightarrow> string" where
  "lines_text ls = concat (map (\<lambda>l. l @ newline) ls)"

definition text_line :: "string \<Rightarrow> bool" where
  "text_line l \<longleftrightarrow> l \<noteq> [] \<and> CHR 0x0D \<notin> set l"

lemma lines_text_simps [simp]:
  "lines_text [] = []" "lines_text (l # ls) = l @ newline @ lines_text ls"
  by (simp_all add: lines_text_def)

lemma sv_find_headers_end_line:
  assumes "CHR 0x0D \<notin> set l"
  shows "sv_find headers_end (l @ newline @ rest) =
    (if prefix newline rest then Some (length l)
     else map_option ((+) (length l + 2)) (sv_find headers_end rest))"
  using assms
proof (induction l)
  case Nil
  show ?case by (auto simp: option.map_comp comp_def)
next
  case (Cons c l)
  then have "sv_find headers_end (l @ newline @ rest) = (if prefix newline rest then Some (length l)
     else map_option ((+) (length l + 2)) (sv_find headers_end rest))" by simp
  moreover have "c \<noteq> CHR 0x0D" using Cons.prems by auto
  ultimately show ?case by (auto simp: option.map_comp comp_def)
qed

lemma text_line_not_prefix: "text_line l \<Longrightarrow> \<not> prefix newline (l @ rest)"
  by (cases l) (auto simp: text_line_def)

lemma sv_find_headers_end:
  assumes "CHR 0x0D \<notin> set l" "\<forall>l \<in> set ls. text_line l"
  shows "sv_find headers_end (l @ newline @ lines_text ls @ newline @ body) =
    Some (length l + length (lines_text ls))"
  using assms
proof (induction ls arbitrary: l)
  case Nil
  then show ?case using sv_find_headers_end_line [of l "newline @ body"] by simp
next
  case (Cons h ls)
  then have h: "CHR 0x0D \<notin> set h" "text_line h" by (simp_all add: text_line_def)
  have "sv_find headers_end (h @ newline @ lines_text ls @ newline @ body) =
      Some (length h + length (lines_text ls))"
    using Cons.IH [OF h(1)] Cons.prems(2) by simp
  then show ?case
    using sv_find_headers_end_line [OF Cons.prems(1), of "h @ newline @ lines_text ls @ newline @ body"]
      text_line_not_prefix [OF h(2)] by simp
qed

lemma occurs_within:
  assumes "sv_find p s = Some n" "occurs_at p s i" shows "n \<le> i"
  using assms by (metis not_le sv_find_Some_iff)

text \<open>A printed header section, as lines.\<close>

definition header_text :: "string \<times> string \<Rightarrow> string" where
  "header_text kv = fst kv @ '':'' @ '' '' @ snd kv"

lemma header_text_line: "header_printable kv \<Longrightarrow> text_line (header_text kv)"
  by (auto simp: header_printable_def header_text_def text_line_def)

lemma headers_to_string_lines:
  "iteration ord \<Longrightarrow> h \<noteq> [] \<Longrightarrow> headers_to_string ord h @ newline = lines_text (map header_text (ord h))"
  by (simp add: headers_to_string_newline lines_text_def header_line_def [abs_def] header_text_def [abs_def] comp_def)

lemma HttpHeaders_lines:
  assumes "umap_wf kvs" "\<forall>kv \<in> set kvs. header_printable kv"
  shows "HttpHeaders (lines_text (map header_text kvs)) = Inr kvs"
proof -
  have "lines_text (map header_text kvs) = concat (map header_line kvs)"
    by (simp add: lines_text_def header_line_def [abs_def] header_text_def [abs_def] comp_def)
  then show ?thesis
    using parse_headers_printed [OF assms, of "[]"] parse_headers_stop(1) [of kvs]
    by (simp add: HttpHeaders_def)
qed

section \<open>The \<open>Content-Length\<close> of a response\<close>

text \<open>What a handler may do to a response's body, and the sequences of it.\<close>

datatype body_change = Append string | Set_body string

primrec body_op :: "body_change \<Rightarrow> 's http_response \<Rightarrow> 's http_response" where
  "body_op (Append s) = append_to_body s"
| "body_op (Set_body s) = response_set_body s"

primrec body_after :: "body_change \<Rightarrow> string \<Rightarrow> string" where
  "body_after (Append s) b = b @ s"
| "body_after (Set_body s) b = s"

lemma body_op_body: "rs_body (body_op p r) = body_after p (rs_body r)"
  by (cases p) (simp_all add: append_to_body_def response_set_body_def Let_def)

lemma body_op_headers:
  "rs_headers (body_op p r) = headers_insert_or_assign hdr_content_length
     (to_dec (length (rs_body (body_op p r)))) (rs_headers r)"
  by (cases p) (simp_all add: append_to_body_def response_set_body_def Let_def)

lemma body_op_others: "rs_line (body_op p r) = rs_line r" "rs_sender (body_op p r) = rs_sender r"
  by (cases p; simp add: append_to_body_def response_set_body_def Let_def)+

lemma fold_body_op_body: "rs_body (fold body_op ps r) = fold body_after ps (rs_body r)"
  by (induction ps arbitrary: r) (simp_all add: body_op_body)

lemma body_op_lookup:
  "map_of (rs_headers (body_op p r)) (to_lower k) =
     (if to_lower k = to_lower hdr_content_length then Some (to_dec (length (rs_body (body_op p r))))
      else map_of (rs_headers r) (to_lower k))"
  by (simp add: body_op_headers hdr.lookup_assign)

lemma fold_body_op_lookup:
  "to_lower k \<noteq> to_lower hdr_content_length \<Longrightarrow>
   map_of (rs_headers (fold body_op ps r)) (to_lower k) = map_of (rs_headers r) (to_lower k)"
  by (induction ps arbitrary: r) (simp_all add: body_op_lookup)

section \<open>Properties\<close>

text \<open>
  After any sequence of body changes that is not empty, the body is what the changes made of
  it, the \<open>Content-Length\<close> header says its length in decimal (and reads back as that number), the
  other headers, the first line and the sender are untouched.
\<close>

theorem response_content_length:
  assumes "ps \<noteq> []" "length (fold body_after ps (rs_body r)) < 2 ^ 63"
  shows "let r' = fold body_op ps r; b = fold body_after ps (rs_body r) in
    rs_body r' = b \<and> headers_at (rs_headers r') hdr_content_length = Inr (to_dec (length b))
    \<and> stoll (to_dec (length b)) = Inr (int (length b))
    \<and> (\<forall>k. to_lower k \<noteq> to_lower hdr_content_length \<longrightarrow> headers_at (rs_headers r') k = headers_at (rs_headers r) k)
    \<and> rs_line r' = rs_line r \<and> rs_sender r' = rs_sender r"
proof -
  obtain qs q where ps: "ps = qs @ [q]" using assms(1) by (metis rev_exhaust)
  let ?r = "fold body_op ps r"
  have "headers_at (rs_headers ?r) hdr_content_length = Inr (to_dec (length (rs_body ?r)))"
    by (simp add: ps headers_at_lookup body_op_lookup)
  moreover have "rs_line ?r = rs_line r \<and> rs_sender ?r = rs_sender r"
    by (induction ps arbitrary: r) (simp_all add: body_op_others)
  ultimately show ?thesis
    using assms(2) by (simp add: fold_body_op_body headers_at_lookup fold_body_op_lookup stoll_to_dec Let_def)
qed

theorem response_content_length_witness:
  "headers_at (rs_headers (fold body_op [Append ''ab'', Set_body ''c'', Append ''de'']
     (HttpResponse ''now'' OK V1_0 :: nat http_response))) hdr_content_length = Inr (to_dec 3)"
  using response_content_length [of "[Append ''ab'', Set_body ''c'', Append ''de'']"
      "HttpResponse ''now'' OK V1_0 :: nat http_response"]
  by (simp add: Let_def numeral_3_eq_3)

text \<open>
  Printing a response throws exactly when the version has no text (the syntax error
  \<open>HttpVersionInvalid\<close>) or, with a version, the status is not in the table
  (\<open>std::out_of_range\<close>, which no handler of the server catches); otherwise the text is a status
  line without a line end, a header section that parses back to headers with the same answers, a
  blank line and the body as it is.
\<close>

theorem response_printed:
  assumes "iteration ord" "headers_wf (rs_headers r)" "\<forall>kv \<in> set (rs_headers r). header_printable kv"
    and "rs_headers r \<noteq> []"
  shows "case response_to_string ord r of
      Inl e \<Rightarrow> exn_cls e = (if sl_version (rs_line r) = Version_unsupported then HttpVersionInvalid else Std Out_of_range)
        \<and> (sl_version (rs_line r) = Version_unsupported \<or> map_of http_response_status_text (sl_status (rs_line r)) = None)
    | Inr text \<Rightarrow> \<exists>line hs h. text = line @ newline @ hs @ newline @ rs_body r
        \<and> response_line_to_string (rs_line r) = Inr line
        \<and> HttpHeaders hs = Inr h \<and> (\<forall>k. headers_at h k = headers_at (rs_headers r) k)"
proof (cases "response_line_to_string (rs_line r)")
  case (Inl e)
  then show ?thesis
    by (cases "sl_version (rs_line r)")
      (auto simp: response_to_string_def response_line_to_string_def get_http_response_status_text_def Let_def
        split: option.splits)
next
  case (Inr line)
  let ?o = "ord (rs_headers r)"
  have "headers_to_string ord (rs_headers r) @ headers_end @ rs_body r =
      (headers_to_string ord (rs_headers r) @ newline) @ newline @ rs_body r" by simp
  then have msg: "response_to_string ord r =
      Inr (line @ newline @ lines_text (map header_text ?o) @ newline @ rs_body r)"
    using headers_to_string_lines [OF assms(1,4)] by (simp add: response_to_string_def Inr)
  have "HttpHeaders (lines_text (map header_text ?o)) = Inr ?o"
    using assms by (intro HttpHeaders_lines) (simp_all add: headers_wf_def iteration_wf iteration_set)
  moreover have "headers_at ?o k = headers_at (rs_headers r) k" for k
    using iteration_map_of [OF assms(1)] assms(2) by (simp add: headers_wf_def headers_at_lookup)
  ultimately show ?thesis unfolding msg using Inr by auto
qed

theorem response_printed_witness:
  "case response_to_string rev (append_to_body ''hi'' (HttpResponse ''now'' 600 V1_0 :: nat http_response)) of
      Inl e \<Rightarrow> exn_cls e = Std Out_of_range | Inr text \<Rightarrow> False"
proof -
  let ?r = "append_to_body ''hi'' (HttpResponse ''now'' 600 V1_0 :: nat http_response)"
  have c: "get_http_response_status_text 600 = Inl Out_of_range"
    by (simp add: get_http_response_status_text_def http_response_status_text_def)
  have l: "sl_version (rs_line ?r) = V1_0" "sl_status (rs_line ?r) = 600"
    by (simp_all add: append_to_body_def HttpResponse_def HttpResponseLine_def set_basic_headers_def Let_def)
  have h: "rs_headers ?r = [(''server'', ''tinyhttp V0.0.1''), (''date'', ''now''),
      (''connection'', ''closed''), (''content-length'', to_dec 2)]"
    by (simp add: append_to_body_def HttpResponse_def HttpResponseLine_def set_basic_headers_def Let_def
        headers_emplace_def headers_insert_or_assign_def umap_emplace_def umap_assign_def http_simps
        server_name_def less_http_version_def numeral_2_eq_2)
  have "iteration rev" by (simp add: iteration_def)
  moreover have "headers_wf (rs_headers ?r)" "\<forall>kv \<in> set (rs_headers ?r). header_printable kv"
    unfolding h using to_dec_no_cr [of _ 2] to_dec_no_cr [of "hd (to_dec 2)" 2]
    by (auto simp: headers_wf_def umap_wf_def header_printable_def to_lower_def tolower_c_def)
  ultimately have "case response_to_string rev ?r of
      Inl e \<Rightarrow> exn_cls e = (if sl_version (rs_line ?r) = Version_unsupported then HttpVersionInvalid else Std Out_of_range)
        \<and> (sl_version (rs_line ?r) = Version_unsupported \<or> map_of http_response_status_text (sl_status (rs_line ?r)) = None)
    | Inr text \<Rightarrow> \<exists>line hs h. text = line @ newline @ hs @ newline @ rs_body ?r
        \<and> response_line_to_string (rs_line ?r) = Inr line
        \<and> HttpHeaders hs = Inr h \<and> (\<forall>k. headers_at h k = headers_at (rs_headers ?r) k)"
    by (rule response_printed) (simp add: h)
  then show ?thesis
    by (auto simp: l c response_line_to_string_def Let_def split: sum.splits)
qed

end
