(* ===== verification/NetIO.thy ===== *)
theory NetIO imports CppStd begin

text \<open>
  What the socket calls may answer, shared by the connection classes: \<open>recv\<close> delivers bytes (none
  at the end of the stream) or fails with an \<open>errno\<close>; \<open>send\<close> takes a number of the bytes offered
  or fails. The locale \<open>buffered_socket\<close> is the contract of a connection's input buffer that its
  clients build on; \<open>HttpConnection\<close> and \<open>TcpAsync\<close> provide it.
\<close>

definition EINTR :: int where
  "EINTR = 4"

definition EAGAIN :: int where
  "EAGAIN = 11"

definition EWOULDBLOCK :: int where
  "EWOULDBLOCK = 11"

definition EINPROGRESS :: int where
  "EINPROGRESS = 115"

datatype recv_answer = Received string | Recv_error int

datatype send_answer = Taken nat | Send_error int

definition would_block :: "int \<Rightarrow> bool" where
  "would_block err \<longleftrightarrow> err = EAGAIN \<or> err = EWOULDBLOCK"

text \<open>Of \<open>len\<close> bytes offered, \<open>send\<close> takes at most all.\<close>

definition taken :: "nat \<Rightarrow> nat \<Rightarrow> nat" where
  "taken len n = min len n"

fun recv_bytes :: "recv_answer \<Rightarrow> string" where
  "recv_bytes (Received bs) = bs"
| "recv_bytes (Recv_error e) = []"

text \<open>An answer that neither ends the stream nor fails for good.\<close>

fun recv_goes_on :: "recv_answer \<Rightarrow> bool" where
  "recv_goes_on (Received bs) = (bs \<noteq> [])"
| "recv_goes_on (Recv_error e) = would_block e"

definition recv_data :: "recv_answer list \<Rightarrow> string" where
  "recv_data as = concat (map recv_bytes as)"

lemma recv_data_simps [simp]:
  "recv_data [] = []" "recv_data (a # as) = recv_bytes a @ recv_data as"
  "recv_data (as @ bs) = recv_data as @ recv_data bs"
  by (simp_all add: recv_data_def)

text \<open>
  The contract: what one read does to the buffer, by the kernel's answer. \<open>read a c\<close> is \<open>None\<close>
  when the read throws, otherwise the value returned and the connection after it.
\<close>

locale buffered_socket =
  fixes buffer :: "'c \<Rightarrow> string"
    and usable :: "'c \<Rightarrow> bool"
    and read_some :: "recv_answer \<Rightarrow> 'c \<Rightarrow> (int \<times> 'c) option"
  assumes read_received: "usable c \<Longrightarrow> bs \<noteq> [] \<Longrightarrow>
      \<exists>c'. read_some (Received bs) c = Some (int (length bs), c') \<and> buffer c' = buffer c @ bs \<and> usable c'"
    and read_would_block: "usable c \<Longrightarrow> would_block e \<Longrightarrow>
      \<exists>c'. read_some (Recv_error e) c = Some (-1, c') \<and> buffer c' = buffer c \<and> usable c'"
    and read_eof: "usable c \<Longrightarrow> \<exists>c'. read_some (Received []) c = Some (0, c') \<and> buffer c' = buffer c"
    and read_fails: "usable c \<Longrightarrow> \<not> would_block e \<Longrightarrow> read_some (Recv_error e) c = None"
begin

fun read_many :: "recv_answer list \<Rightarrow> 'c \<Rightarrow> 'c option" where
  "read_many [] c = Some c"
| "read_many (a # as) c = (case read_some a c of None \<Rightarrow> None | Some (n, c') \<Rightarrow> read_many as c')"

text \<open>One answer that goes on adds its bytes, and many add all of theirs in order.\<close>

lemma read_goes_on:
  assumes "usable c" "recv_goes_on a"
  shows "\<exists>n c'. read_some a c = Some (n, c') \<and> n \<noteq> 0 \<and> (n > 0 \<longleftrightarrow> recv_bytes a \<noteq> [])
    \<and> (n > 0 \<longrightarrow> n = int (length (recv_bytes a))) \<and> buffer c' = buffer c @ recv_bytes a \<and> usable c'"
proof (cases a)
  case (Received bs)
  with assms read_received [of c bs] show ?thesis by auto
next
  case (Recv_error e)
  with assms read_would_block [of c e] show ?thesis by auto
qed

lemma read_many_data:
  "usable c \<Longrightarrow> list_all recv_goes_on as \<Longrightarrow>
   \<exists>c'. read_many as c = Some c' \<and> buffer c' = buffer c @ recv_data as \<and> usable c'"
proof (induction as arbitrary: c)
  case (Cons a as)
  then obtain n c' where "read_some a c = Some (n, c')" "buffer c' = buffer c @ recv_bytes a" "usable c'"
    using read_goes_on [of c a] by auto
  with Cons.IH [of c'] Cons.prems show ?case by auto
qed simp

end

end
