(* ===== verification/UnixPrim.thy ===== *)
theory UnixPrim imports CppStd begin

text \<open>
  \<open>lib/unixprimwrap\<close>: \<open>Descriptor\<close>, the owner of a file descriptor, \<open>Pipe\<close>, two of them, and
  \<open>Fork\<close>, the owner of a child process. An operation takes the answers of the system calls it
  makes and returns, beside its result, the calls it made in their order. The second half states
  ownership over a program of many \<open>Descriptor\<close> objects: what a kernel may answer is a premise of
  the step relation.
\<close>

section \<open>System calls\<close>

datatype sys_call = Close int | Dup int | Dup2 int int | Kill int int | Waitpid int

datatype unix_error = PipeCreationError string | DupError string

definition SIGTERM :: int where
  "SIGTERM = 15"

section \<open>\<open>Descriptor\<close>\<close>

record descriptor =
  d_fd :: int

definition Descriptor :: descriptor where
  "Descriptor = \<lparr>d_fd = -1\<rparr>"

definition is_valid :: "descriptor \<Rightarrow> bool" where
  "is_valid d \<longleftrightarrow> d_fd d > -1"

text \<open>Construction from an \<open>int\<close> takes the value over: the variable is \<open>-1\<close> afterwards.\<close>

definition Descriptor_int :: "int \<Rightarrow> descriptor \<times> int" where
  "Descriptor_int fd = (\<lparr>d_fd = fd\<rparr>, -1)"

definition descriptor_swap :: "descriptor \<Rightarrow> descriptor \<Rightarrow> descriptor \<times> descriptor" where
  "descriptor_swap a b = (b, a)"

definition descriptor_close :: "int \<Rightarrow> descriptor \<Rightarrow> int \<times> descriptor \<times> sys_call list" where
  "descriptor_close answer d =
     (if is_valid d then (answer, d\<lparr>d_fd := -1\<rparr>, [Close (d_fd d)]) else (-1, d, []))"

text \<open>The destructor closes; its answer is dropped.\<close>

definition descriptor_destroy :: "descriptor \<Rightarrow> sys_call list" where
  "descriptor_destroy d = snd (snd (descriptor_close 0 d))"

text \<open>The copy constructor duplicates; \<open>answer\<close> is what \<open>dup\<close> returns.\<close>

definition descriptor_copy :: "int \<Rightarrow> descriptor \<Rightarrow> (unix_error + descriptor) \<times> sys_call list" where
  "descriptor_copy answer other =
     (if is_valid other
      then (if is_valid \<lparr>d_fd = answer\<rparr> then Inr \<lparr>d_fd = answer\<rparr>
            else Inl (DupError (''cannot dup descriptor with value '' @ to_dec (nat (d_fd other)))),
            [Dup (d_fd other)])
      else (Inr \<lparr>d_fd = d_fd other\<rparr>, []))"

text \<open>Copy assignment between two objects: copy, swap, and the temporary dies with the old value.\<close>

definition descriptor_copy_assign ::
  "int \<Rightarrow> descriptor \<Rightarrow> descriptor \<Rightarrow> (unix_error + descriptor) \<times> sys_call list" where
  "descriptor_copy_assign answer this other =
     (case descriptor_copy answer other of
        (Inl e, calls) \<Rightarrow> (Inl e, calls)
      | (Inr tmp, calls) \<Rightarrow>
          let (tmp, this) = descriptor_swap tmp this in (Inr this, calls @ descriptor_destroy tmp))"

text \<open>The move constructor swaps with a fresh object: the new object and what the source holds.\<close>

definition descriptor_move :: "descriptor \<Rightarrow> descriptor \<times> descriptor" where
  "descriptor_move other = descriptor_swap Descriptor other"

definition descriptor_move_assign ::
  "descriptor \<Rightarrow> descriptor \<Rightarrow> descriptor \<times> descriptor \<times> sys_call list" where
  "descriptor_move_assign this other =
     (let (tmp, this) = descriptor_swap Descriptor this;
          calls = descriptor_destroy tmp;
          (this, other) = descriptor_swap this other
      in (this, other, calls))"

definition descriptor_extract :: "descriptor \<Rightarrow> int \<times> descriptor" where
  "descriptor_extract d = (d_fd d, d\<lparr>d_fd := -1\<rparr>)"

definition descriptor_dup2 :: "int \<Rightarrow> int \<Rightarrow> descriptor \<Rightarrow> int \<times> sys_call list" where
  "descriptor_dup2 answer fd d = (answer, [Dup2 (d_fd d) fd])"

section \<open>\<open>Pipe\<close>\<close>

record pipe =
  p_read_end :: descriptor
  p_write_end :: descriptor

text \<open>\<open>answer\<close> is what \<open>pipe(2)\<close> stores, when it succeeds.\<close>

definition Pipe :: "(int \<times> int) option \<Rightarrow> unix_error + pipe" where
  "Pipe answer =
     (case answer of
        None \<Rightarrow> Inl (PipeCreationError ''cannot create pipe'')
      | Some (r, w) \<Rightarrow> Inr \<lparr>p_read_end = fst (Descriptor_int r), p_write_end = fst (Descriptor_int w)\<rparr>)"

section \<open>\<open>Fork\<close>\<close>

record fork_proc =
  f_pid :: int
  f_is_child :: bool

text \<open>A default-initialised object, and the constructor: \<open>answer\<close> is what \<open>fork(2)\<close> returns.\<close>

definition Fork_empty :: fork_proc where
  "Fork_empty = \<lparr>f_pid = -1, f_is_child = False\<rparr>"

definition Fork :: "int \<Rightarrow> fork_proc" where
  "Fork answer = \<lparr>f_pid = answer, f_is_child = (answer = 0)\<rparr>"

definition fork_is_valid :: "fork_proc \<Rightarrow> bool" where
  "fork_is_valid f \<longleftrightarrow> f_pid f \<ge> 0"

definition fork_swap :: "fork_proc \<Rightarrow> fork_proc \<Rightarrow> fork_proc \<times> fork_proc" where
  "fork_swap a b = (b, a)"

definition fork_extract :: "fork_proc \<Rightarrow> int \<times> fork_proc" where
  "fork_extract f = (f_pid f, f\<lparr>f_pid := -1, f_is_child := False\<rparr>)"

definition fork_kill :: "int \<Rightarrow> int \<Rightarrow> fork_proc \<Rightarrow> int \<times> sys_call list" where
  "fork_kill answer sig f =
     (if fork_is_valid f \<and> \<not> f_is_child f then (answer, [Kill (f_pid f) sig]) else (-1, []))"

definition fork_wait :: "int \<Rightarrow> fork_proc \<Rightarrow> int \<times> fork_proc \<times> sys_call list" where
  "fork_wait answer f =
     (if fork_is_valid f \<and> \<not> f_is_child f
      then (answer, if answer > 0 then f\<lparr>f_pid := -1, f_is_child := False\<rparr> else f, [Waitpid (f_pid f)])
      else (-1, f, []))"

text \<open>The destructor and the move assignment end the child they own first.\<close>

definition fork_destroy :: "int \<Rightarrow> int \<Rightarrow> fork_proc \<Rightarrow> sys_call list" where
  "fork_destroy kill_answer wait_answer f =
     (if fork_is_valid f \<and> \<not> f_is_child f
      then snd (fork_kill kill_answer SIGTERM f) @ snd (snd (fork_wait wait_answer f)) else [])"

definition fork_move :: "fork_proc \<Rightarrow> fork_proc \<times> fork_proc" where
  "fork_move other = fork_swap Fork_empty other"

definition fork_move_assign ::
  "int \<Rightarrow> int \<Rightarrow> fork_proc \<Rightarrow> fork_proc \<Rightarrow> fork_proc \<times> fork_proc \<times> sys_call list" where
  "fork_move_assign kill_answer wait_answer this other =
     (let (_, calls1) = fork_kill kill_answer SIGTERM this;
          (_, this, calls2) = fork_wait wait_answer this;
          (this, other) = fork_swap this other
      in (this, other, calls1 @ calls2))"

lemmas descriptor_defs [fd_simps] = Descriptor_def is_valid_def Descriptor_int_def descriptor_swap_def
  descriptor_close_def descriptor_destroy_def descriptor_move_def descriptor_move_assign_def
  descriptor_extract_def

lemmas fork_defs = Fork_empty_def Fork_def fork_is_valid_def fork_swap_def fork_extract_def
  fork_kill_def fork_wait_def fork_destroy_def fork_move_def fork_move_assign_def

section \<open>Who owns a descriptor\<close>

text \<open>
  A program of \<open>Descriptor\<close> objects: the live objects, the descriptors the process has open, and
  those it holds as plain integers (returned by \<open>open\<close> or \<open>socket\<close>, or extracted). The effect
  of a call on the open descriptors is the kernel's; \<open>dup\<close> and \<open>open\<close> return a negative value
  or a descriptor that is not open.
\<close>

record fd_system =
  objs :: "nat \<Rightarrow> descriptor option"
  opens :: "int set"
  raws :: "int set"

fun kernel :: "int \<Rightarrow> sys_call \<Rightarrow> int set \<Rightarrow> int set" where
  "kernel answer (Close x) os = os - {x}"
| "kernel answer (Dup x) os = (if answer \<ge> 0 then insert answer os else os)"
| "kernel answer _ os = os"

abbreviation kernel_run :: "int \<Rightarrow> sys_call list \<Rightarrow> int set \<Rightarrow> int set" where
  "kernel_run answer calls os \<equiv> fold (kernel answer) calls os"

inductive fd_step :: "fd_system \<Rightarrow> sys_call list \<Rightarrow> fd_system \<Rightarrow> bool" where
  s_open_fd: "x \<ge> 0 \<Longrightarrow> x \<notin> opens s \<Longrightarrow>
     fd_step s [] (s\<lparr>opens := insert x (opens s), raws := insert x (raws s)\<rparr>)"
| s_adopt: "objs s i = None \<Longrightarrow> x \<in> raws s \<or> x < 0 \<Longrightarrow> Descriptor_int x = (d, y) \<Longrightarrow>
     fd_step s [] (s\<lparr>objs := (objs s)(i \<mapsto> d), raws := raws s - {x}\<rparr>)"
| s_default_obj: "objs s i = None \<Longrightarrow> fd_step s [] (s\<lparr>objs := (objs s)(i \<mapsto> Descriptor)\<rparr>)"
| s_copy: "objs s i = Some d \<Longrightarrow> objs s j = None \<Longrightarrow> answer \<notin> opens s \<Longrightarrow>
     descriptor_copy answer d = (Inr d', calls) \<Longrightarrow>
     fd_step s calls (s\<lparr>objs := (objs s)(j \<mapsto> d'), opens := kernel_run answer calls (opens s)\<rparr>)"
| s_copy_fails: "objs s i = Some d \<Longrightarrow> answer \<notin> opens s \<Longrightarrow> descriptor_copy answer d = (Inl e, calls) \<Longrightarrow>
     fd_step s calls (s\<lparr>opens := kernel_run answer calls (opens s)\<rparr>)"
| s_copy_assign: "objs s i = Some d \<Longrightarrow> objs s j = Some e \<Longrightarrow> i \<noteq> j \<Longrightarrow> answer \<notin> opens s \<Longrightarrow>
     descriptor_copy_assign answer e d = (Inr e', calls) \<Longrightarrow>
     fd_step s calls (s\<lparr>objs := (objs s)(j \<mapsto> e'), opens := kernel_run answer calls (opens s)\<rparr>)"
| s_move: "objs s i = Some d \<Longrightarrow> objs s j = None \<Longrightarrow> descriptor_move d = (d', d0) \<Longrightarrow>
     fd_step s [] (s\<lparr>objs := (objs s)(j \<mapsto> d', i \<mapsto> d0)\<rparr>)"
| s_move_assign: "objs s i = Some d \<Longrightarrow> objs s j = Some e \<Longrightarrow> i \<noteq> j \<Longrightarrow>
     descriptor_move_assign e d = (e', d', calls) \<Longrightarrow>
     fd_step s calls (s\<lparr>objs := (objs s)(j \<mapsto> e', i \<mapsto> d'), opens := kernel_run 0 calls (opens s)\<rparr>)"
| s_swap: "objs s i = Some d \<Longrightarrow> objs s j = Some e \<Longrightarrow> i \<noteq> j \<Longrightarrow> descriptor_swap d e = (d', e') \<Longrightarrow>
     fd_step s [] (s\<lparr>objs := (objs s)(i \<mapsto> d', j \<mapsto> e')\<rparr>)"
| s_extract: "objs s i = Some d \<Longrightarrow> descriptor_extract d = (x, d') \<Longrightarrow>
     fd_step s [] (s\<lparr>objs := (objs s)(i \<mapsto> d'), raws := (if x \<ge> 0 then insert x (raws s) else raws s)\<rparr>)"
| s_close: "objs s i = Some d \<Longrightarrow> descriptor_close answer d = (status, d', calls) \<Longrightarrow>
     fd_step s calls (s\<lparr>objs := (objs s)(i \<mapsto> d'), opens := kernel_run answer calls (opens s)\<rparr>)"
| s_destroy: "objs s i = Some d \<Longrightarrow> descriptor_destroy d = calls \<Longrightarrow>
     fd_step s calls (s\<lparr>objs := (objs s)(i := None), opens := kernel_run 0 calls (opens s)\<rparr>)"

inductive fd_reachable :: "fd_system \<Rightarrow> bool" where
  init: "fd_reachable \<lparr>objs = (\<lambda>_. None), opens = {}, raws = {}\<rparr>"
| step: "fd_reachable s \<Longrightarrow> fd_step s calls s' \<Longrightarrow> fd_reachable s'"

text \<open>
  For every descriptor: an open one is held either as a plain integer or by exactly one object, one
  that is not open by nobody.
\<close>

definition holds :: "descriptor option \<Rightarrow> int \<Rightarrow> bool" where
  "holds v x \<longleftrightarrow> (\<exists>d. v = Some d \<and> d_fd d = x) \<and> x \<ge> 0"

definition holders :: "fd_system \<Rightarrow> int \<Rightarrow> nat set" where
  "holders s x = {i. holds (objs s i) x}"

definition held_once :: "fd_system \<Rightarrow> int \<Rightarrow> bool" where
  "held_once s x \<longleftrightarrow> (if x \<in> opens s
     then x \<ge> 0 \<and> (if x \<in> raws s then holders s x = {} else (\<exists>i. holders s x = {i}))
     else x \<notin> raws s \<and> holders s x = {})"

definition fd_inv :: "fd_system \<Rightarrow> bool" where
  "fd_inv s \<longleftrightarrow> (\<forall>x. held_once s x)"

lemma holders_update [simp]:
  "holders (s\<lparr>objs := f(i := v)\<rparr>) x =
     (if holds v x then insert i (holders (s\<lparr>objs := f\<rparr>) x) else holders (s\<lparr>objs := f\<rparr>) x - {i})"
  "holders (s\<lparr>objs := objs s\<rparr>) x = holders s x"
  "holders (s\<lparr>objs := f, opens := X, raws := Y\<rparr>) x = holders (s\<lparr>objs := f\<rparr>) x"
  "holders (s\<lparr>objs := f, opens := X\<rparr>) x = holders (s\<lparr>objs := f\<rparr>) x"
  "holders (s\<lparr>objs := f, raws := Y\<rparr>) x = holders (s\<lparr>objs := f\<rparr>) x"
  "holders (s\<lparr>opens := X, raws := Y\<rparr>) x = holders s x"
  "holders (s\<lparr>opens := X\<rparr>) x = holders s x"
  by (auto simp: holders_def)

lemma holds_simps [simp]:
  "\<not> holds None x" "holds (Some d) x \<longleftrightarrow> d_fd d = x \<and> x \<ge> 0"
  by (auto simp: holds_def)

lemma in_holders: "objs s i = v \<Longrightarrow> i \<in> holders s x \<longleftrightarrow> holds v x"
  by (simp add: holders_def)

text \<open>How a step changes the holder of a descriptor; the objects it touches are \<open>i\<close> and \<open>j\<close>.\<close>

lemma held_once_holder:
  assumes "held_once s x" "objs s i = v"
  shows "if holds v x then holders s x = {i} \<and> x \<in> opens s \<and> x \<notin> raws s \<and> x \<ge> 0
    else holders s x - {i} = holders s x"
  using assms(1) in_holders [OF assms(2), of x] by (auto simp: held_once_def split: if_splits)

lemma held_once_holder2:
  assumes "held_once s x" "objs s i = v" "objs s j = w" "i \<noteq> j"
  obtains "holds v x" "\<not> holds w x" "holders s x = {i}" "x \<in> opens s" "x \<notin> raws s" "x \<ge> 0" |
    "\<not> holds v x" "holds w x" "holders s x = {j}" "x \<in> opens s" "x \<notin> raws s" "x \<ge> 0" |
    "\<not> holds v x" "\<not> holds w x" "i \<notin> holders s x" "j \<notin> holders s x"
  using held_once_holder [OF assms(1,2)] held_once_holder [OF assms(1,3)] assms(4)
    in_holders [OF assms(2), of x] in_holders [OF assms(3), of x]
  by (cases "holds v x"; cases "holds w x") auto

lemma kernel_destroy:
  "kernel_run 0 (descriptor_destroy d) os = (if d_fd d > -1 then os - {d_fd d} else os)"
  by (simp add: fd_simps)

lemmas two_simps = fd_simps descriptor_copy_def descriptor_copy_assign_def

lemmas step_simps = fd_simps descriptor_copy_def descriptor_copy_assign_def held_once_def

lemma held_once_step: "fd_step s calls s' \<Longrightarrow> held_once s z \<Longrightarrow> held_once s' z"
proof (induction rule: fd_step.induct)
  case (s_open_fd x s)
  then show ?case by (auto simp: step_simps)
next
  case (s_adopt s i x d y)
  then show ?case using held_once_holder [OF s_adopt(4,1)]
    by (clarsimp simp: step_simps split: if_split_asm)
next
  case (s_default_obj s i)
  then show ?case using held_once_holder [OF s_default_obj(2,1)]
    by (clarsimp simp: step_simps split: if_split_asm)
next
  case (s_copy s i d j answer d' calls)
  then show ?case using held_once_holder [OF s_copy(5,1)] held_once_holder [OF s_copy(5,2)]
    by (clarsimp simp: step_simps split: if_split_asm)
next
  case (s_copy_fails s i d answer e calls)
  then show ?case by (auto simp: step_simps split: if_splits)
next
  case (s_copy_assign s i d j e answer e' calls)
  from held_once_holder2 [OF s_copy_assign(6,1,2,3)] show ?case
    by cases (use s_copy_assign in \<open>clarsimp simp: step_simps split: if_split_asm\<close>)+
next
  case (s_move s i d j d' d0)
  have "i \<noteq> j" using s_move(1,2) by auto
  moreover have "d' = d" "d0 = Descriptor" using s_move(3) by (simp_all add: fd_simps)
  ultimately have eq: "d' = d" "d0 = Descriptor" and ij: "i \<noteq> j" by simp_all
  from held_once_holder2 [OF s_move(4,1,2) ij] show ?case unfolding eq
    by cases (use ij s_move(4) in \<open>auto simp: held_once_def Descriptor_def split: if_split_asm\<close>)
next
  case (s_move_assign s i d j e e' d' calls)
  have eq: "e' = d" "d' = Descriptor" "calls = descriptor_destroy e"
    using s_move_assign(4) by (auto simp: descriptor_move_assign_def descriptor_swap_def Let_def)
  from held_once_holder2 [OF s_move_assign(5,1,2,3)] show ?case unfolding eq
    by cases (use s_move_assign(3,5) in \<open>auto simp: held_once_def Descriptor_def kernel_destroy split: if_split_asm\<close>)
next
  case (s_swap s i d j e d' e')
  from held_once_holder2 [OF s_swap(5,1,2,3)] show ?case
    by cases (use s_swap in \<open>simp_all add: two_simps\<close>, simp_all add: held_once_def, auto)
next
  case (s_extract s i d x d')
  then show ?case using held_once_holder [OF s_extract(3,1)]
    by (clarsimp simp: step_simps split: if_split_asm)
next
  case (s_close s i d answer status d' calls)
  then show ?case using held_once_holder [OF s_close(3,1)]
    by (clarsimp simp: step_simps split: if_split_asm)
next
  case (s_destroy s i d calls)
  then show ?case using held_once_holder [OF s_destroy(3,1)]
    by (clarsimp simp: step_simps split: if_split_asm)
qed

text \<open>Only descriptors an object holds are closed.\<close>

lemma fd_step_closes: "fd_step s calls s' \<Longrightarrow> Close x \<in> set calls \<Longrightarrow> \<exists>i. holds (objs s i) x"
proof (induction rule: fd_step.induct)
  case (s_copy_assign s i d j e answer e' calls)
  then have "holds (objs s j) x" by (auto simp: step_simps split: if_split_asm sum.splits)
  then show ?case ..
next
  case (s_move_assign s i d j e e' d' calls)
  then have "holds (objs s j) x" by (auto simp: step_simps split: if_split_asm)
  then show ?case ..
next
  case (s_close s i d answer status d' calls)
  then have "holds (objs s i) x" by (auto simp: step_simps split: if_split_asm)
  then show ?case ..
next
  case (s_destroy s i d calls)
  then have "holds (objs s i) x" by (auto simp: step_simps split: if_split_asm)
  then show ?case ..
qed (auto simp: descriptor_copy_def split: if_split_asm)

lemma fd_reachable_held_once: "fd_reachable s \<Longrightarrow> held_once s x"
  by (induction rule: fd_reachable.induct) (auto simp: held_once_step, auto simp: held_once_def holders_def)

section \<open>The life of a child process\<close>

text \<open>
  A \<open>Fork\<close> object and its requests, with the answers of the kernel. Once a wait succeeded the
  process number may belong to another process: no call may name it any more.
\<close>

datatype fork_req = Req_kill int int | Req_wait int | Req_destroy int int

fun fork_run :: "fork_req list \<Rightarrow> fork_proc \<Rightarrow> (sys_call \<times> int) list" where
  "fork_run [] f = []"
| "fork_run (Req_kill answer sig # rs) f = map (\<lambda>c. (c, answer)) (snd (fork_kill answer sig f)) @ fork_run rs f"
| "fork_run (Req_wait answer # rs) f =
     (let (_, f', calls) = fork_wait answer f in map (\<lambda>c. (c, answer)) calls @ fork_run rs f')"
| "fork_run (Req_destroy k w # rs) f = zip (fork_destroy k w f) [k, w]"

fun reaped_untouched :: "(sys_call \<times> int) list \<Rightarrow> bool" where
  "reaped_untouched [] = True"
| "reaped_untouched ((Waitpid p, answer) # cs) =
     ((answer > 0 \<longrightarrow> (\<forall>c \<in> set cs. \<forall>sig. fst c \<noteq> Kill p sig \<and> fst c \<noteq> Waitpid p)) \<and> reaped_untouched cs)"
| "reaped_untouched (_ # cs) = reaped_untouched cs"

lemma fork_run_invalid: "\<not> fork_is_valid f \<Longrightarrow> fork_run rs f = []"
  by (induction rs f rule: fork_run.induct) (auto simp: fork_kill_def fork_wait_def fork_destroy_def)

lemma fork_run_child: "f_is_child f \<Longrightarrow> fork_run rs f = []"
  by (induction rs f rule: fork_run.induct) (auto simp: fork_kill_def fork_wait_def fork_destroy_def)

section \<open>Properties\<close>

text \<open>
  C20: In every reachable state of a program of \<open>Descriptor\<close> objects, each open descriptor is held
  exactly once, by one object or as a plain integer, and no object holds one that is not open; so
  every \<open>close\<close> the objects issue is on a descriptor that is open and theirs: no descriptor leaks
  and none is closed twice, through copies, moves, swaps, assignments and destruction.
\<close>

theorem descriptor_ownership:
  assumes "fd_reachable s"
  shows "(x \<in> opens s \<longrightarrow> (x \<in> raws s \<and> (\<forall>i. \<not> holds (objs s i) x)) \<or> (x \<notin> raws s \<and> (\<exists>!i. holds (objs s i) x)))
    \<and> (x \<notin> opens s \<longrightarrow> (\<forall>i. \<not> holds (objs s i) x))
    \<and> (\<forall>calls s'. fd_step s calls s' \<longrightarrow> Close x \<in> set calls \<longrightarrow> x \<in> opens s \<and> x \<notin> raws s)"
proof -
  have inv: "held_once s x" by (rule fd_reachable_held_once [OF assms])
  have ex1: "\<exists>!i. holds (objs s i) x" if "holders s x = {i}" for i
    using that unfolding holders_def set_eq_iff by (metis mem_Collect_eq singleton_iff)
  have "x \<in> opens s \<and> x \<notin> raws s" if "holds (objs s i) x" for i
    using inv that by (auto simp: held_once_def holders_def split: if_split_asm)
  then show ?thesis
    using inv ex1 fd_step_closes [of s _ _ x] by (auto simp: held_once_def holders_def split: if_split_asm)
qed

theorem descriptor_ownership_witness:
  "\<exists>!i. holds (objs \<lparr>objs = (\<lambda>_. None)(0 \<mapsto> \<lparr>d_fd = 3\<rparr>), opens = {3}, raws = {}\<rparr> i) 3"
proof -
  let ?s0 = "\<lparr>objs = (\<lambda>_. None), opens = {}, raws = {}\<rparr> :: fd_system"
  let ?s1 = "?s0\<lparr>opens := insert 3 (opens ?s0), raws := insert 3 (raws ?s0)\<rparr>"
  let ?s2 = "?s1\<lparr>objs := (objs ?s1)(0 \<mapsto> \<lparr>d_fd = 3\<rparr>), raws := raws ?s1 - {3}\<rparr>"
  have "fd_reachable ?s1" by (rule fd_reachable.step [OF fd_reachable.init s_open_fd]) simp_all
  moreover have "fd_step ?s1 [] ?s2" by (rule s_adopt) (simp_all add: Descriptor_int_def)
  ultimately have "fd_reachable ?s2" by (rule fd_reachable.step)
  from descriptor_ownership [OF this, of 3] show ?thesis by simp
qed

text \<open>
  Whatever a \<open>Fork\<close> object is asked to do, a child process that was waited for is not named
  by a later \<open>kill\<close> or \<open>waitpid\<close>, and the object of the child itself makes no call.
\<close>

theorem fork_reaped_untouched:
  "reaped_untouched (fork_run rs f) \<and> (f_is_child f \<longrightarrow> fork_run rs f = [])"
proof
  show "reaped_untouched (fork_run rs f)"
  proof (induction rs f rule: fork_run.induct)
    case (3 answer rs f)
    then show ?case by (auto simp: fork_wait_def fork_run_invalid fork_is_valid_def)
  qed (auto simp: fork_kill_def fork_wait_def fork_destroy_def)
qed (simp add: fork_run_child)

theorem fork_reaped_untouched_witness:
  "fork_run [Req_kill 0 9, Req_wait 5, Req_destroy 0 0] (Fork 5) = [(Kill 5 9, 0), (Waitpid 5, 5)]
    \<and> fork_run [Req_wait 5] (Fork 0) = []"
  using fork_reaped_untouched [of "[Req_wait 5]" "Fork 0"] by (simp add: fork_defs)

end
