(* ===== verification/HttpConnection.thy ===== *)
theory HttpConnection imports NetIO HttpErrors UnixPrim "HOL-Library.Word" begin

text \<open>
  \<open>tinyhttp/connection\<close>: a TCP connection with an input/output buffer. Reads append to the buffer
  what the kernel delivered; writes send from its front. The answers of the socket calls are
  arguments; what a write put on the wire is part of its result.
\<close>

section \<open>State\<close>

record connection =
  sock_fd :: descriptor
  dst_addr :: string
  src_addr :: string
  dst_port :: "16 word"
  src_port :: "16 word"
  readable :: bool
  io_buffer :: string
  tmp_read_buffer :: string

text \<open>The members before a constructor body runs.\<close>

definition connection_init :: "descriptor \<Rightarrow> connection" where
  "connection_init d = \<lparr>sock_fd = d, dst_addr = [], src_addr = [], dst_port = 0, src_port = 0,
     readable = True, io_buffer = [], tmp_read_buffer = []\<rparr>"

definition is_opened :: "connection \<Rightarrow> bool" where
  "is_opened c \<longleftrightarrow> is_valid (sock_fd c)"

definition fd_text :: "connection \<Rightarrow> string" where
  "fd_text c = (let n = d_fd (sock_fd c) in if n < 0 then ''-'' @ to_dec (nat (- n)) else to_dec (nat n))"

section \<open>Opening and closing\<close>

text \<open>\<open>getsockname\<close> answers an address and a port, or fails with an \<open>errno\<close>.\<close>

definition set_src_endpoint :: "int + string \<times> 16 word \<Rightarrow> connection \<Rightarrow> exn + connection" where
  "set_src_endpoint answer c =
     (case answer of
        Inl err \<Rightarrow> Inl (io_exn IoServiceError (''cannot get info about self endpoint, sock_fd='' @ fd_text c) err)
      | Inr (addr, port) \<Rightarrow> Inr (c\<lparr>src_addr := addr, src_port := port\<rparr>))"

text \<open>
  The client constructor: \<open>socket\<close>, \<open>inet_pton\<close> (does the text name an address), \<open>connect\<close> (its
  \<open>errno\<close> when it fails), \<open>getsockname\<close>.
\<close>

definition Connection_to ::
  "int + int \<Rightarrow> bool \<Rightarrow> int option \<Rightarrow> int + string \<times> 16 word \<Rightarrow> string \<Rightarrow> 16 word \<Rightarrow> exn + connection" where
  "Connection_to socket_answer pton_ok connect_errno name_answer ip port =
     (case socket_answer of
        Inl err \<Rightarrow> Inl (io_exn IoServiceError ''cannot create IPV4 socket'' err)
      | Inr fd \<Rightarrow>
          let c = connection_init (fst (Descriptor_int fd)) in
          if \<not> is_opened c then Inl (io_exn IoServiceError ''cannot create IPV4 socket'' 0)
          else if \<not> pton_ok then Inl (io_exn InvalidAddressError (''invalid ip address, ip='' @ ip) 0)
          else (case connect_errno of
              Some err \<Rightarrow>
                if err \<noteq> EINPROGRESS
                then Inl (io_exn ConnOpenError (''cannot connect to, addr='' @ ip @ '', port='' @ to_dec (unat port)) err)
                else set_src_endpoint name_answer (c\<lparr>dst_addr := ip, dst_port := port\<rparr>)
            | None \<Rightarrow> set_src_endpoint name_answer (c\<lparr>dst_addr := ip, dst_port := port\<rparr>)))"

text \<open>The constructor the server uses for an accepted socket.\<close>

definition Connection_accepted ::
  "int + string \<times> 16 word \<Rightarrow> descriptor \<Rightarrow> string \<Rightarrow> 16 word \<Rightarrow> exn + connection" where
  "Connection_accepted name_answer endpoint addr port =
     set_src_endpoint name_answer ((connection_init endpoint)\<lparr>dst_addr := addr, dst_port := port\<rparr>)"

definition connection_close :: "int \<Rightarrow> int \<Rightarrow> int \<Rightarrow> connection \<Rightarrow> (exn option) \<times> connection \<times> sys_call list" where
  "connection_close shutdown_answer close_answer err c =
     (if is_opened c then
        let status = shutdown_answer;
            (closed, d, calls) = descriptor_close close_answer (sock_fd c);
            status' = (if closed < 0 then -1 else status);
            e = io_exn ConnCloseError (''error while closing socket, sock_fd='' @ fd_text c) err
        in (if status' < 0 then Some e else None, c\<lparr>sock_fd := d\<rparr>, calls)
      else (None, c, []))"

definition connection_destroy :: "connection \<Rightarrow> sys_call list" where
  "connection_destroy c =
     (if is_opened c then snd (snd (descriptor_close 0 (sock_fd c))) else [])"

text \<open>
  \<open>utils::set_nonblock\<close>: the answers of the two \<open>fcntl\<close>; the status, and the flags that the second one
  sets. The value for false is the complement of \<open>O_NONBLOCK\<close>, and it is \<open>OR\<close>ed like the other.
\<close>

definition fcntl_nonblock :: "int + 32 word \<Rightarrow> int + unit \<Rightarrow> bool \<Rightarrow> int \<times> 32 word option" where
  "fcntl_nonblock getfl setfl opt =
     (case getfl of
        Inl err \<Rightarrow> (-1, None)
      | Inr flags \<Rightarrow>
          let nonblock = (if opt then 0x800 else not 0x800)
          in (case setfl of Inl err \<Rightarrow> -1 | Inr _ \<Rightarrow> 0, Some (or flags nonblock)))"

definition connection_set_nonblock :: "int + 32 word \<Rightarrow> int + unit \<Rightarrow> bool \<Rightarrow> connection \<Rightarrow> exn option" where
  "connection_set_nonblock getfl setfl opt c =
     (if \<not> is_opened c then Some (io_exn IoServiceError (''set_nonblock to closed endpoint, sock_fd='' @ fd_text c) 0)
      else if fst (fcntl_nonblock getfl setfl opt) < 0
      then Some (io_exn IoServiceError (''cannot set nonblock for socket, sock_fd='' @ fd_text c)
        (case getfl of Inl err \<Rightarrow> err | Inr _ \<Rightarrow> (case setfl of Inl err \<Rightarrow> err | Inr _ \<Rightarrow> 0)))
      else None)"

text \<open>
  \<open>connect\<close> move-assigns a new connection: the old descriptor is closed, and when the new one cannot be
  made the object stays as it was, and the descriptor of the new one is closed by its member.
\<close>

definition connection_connect ::
  "int + int \<Rightarrow> bool \<Rightarrow> int option \<Rightarrow> int + string \<times> 16 word \<Rightarrow> string \<Rightarrow> 16 word \<Rightarrow> connection
    \<Rightarrow> exn option \<times> connection \<times> sys_call list" where
  "connection_connect socket_answer pton_ok connect_errno name_answer ip port c =
     (case Connection_to socket_answer pton_ok connect_errno name_answer ip port of
        Inl e \<Rightarrow> (Some e, c, case socket_answer of Inl err \<Rightarrow> [] | Inr fd \<Rightarrow> descriptor_destroy (fst (Descriptor_int fd)))
      | Inr new \<Rightarrow>
          let (d, old, calls) = descriptor_move_assign (sock_fd c) (sock_fd new)
          in (None, new\<lparr>sock_fd := d\<rparr>, calls))"

lemma fcntl_nonblock_keeps:
  "fcntl_nonblock getfl setfl opt = (status, Some new) \<Longrightarrow> getfl = Inr flags \<Longrightarrow> bit flags i \<Longrightarrow> bit new i"
  by (auto simp: fcntl_nonblock_def Let_def bit_or_iff)

section \<open>Reading and writing\<close>

text \<open>\<open>read\<close> returns the count and the bytes the kernel stored.\<close>

definition connection_read :: "recv_answer \<Rightarrow> nat \<Rightarrow> connection \<Rightarrow> exn + (int \<times> string \<times> connection)" where
  "connection_read answer len c =
     (if \<not> is_opened c then Inl (io_exn ClosedEndpointError (''write to closed endpoint, sock_fd='' @ fd_text c) 0)
      else if len \<noteq> 0 then
        (case answer of
           Received bs \<Rightarrow>
             Inr (int (length bs), bs, if bs = [] then c\<lparr>readable := False\<rparr> else c)
         | Recv_error err \<Rightarrow>
             if err \<noteq> EAGAIN \<and> err \<noteq> EWOULDBLOCK
             then Inl (io_exn ReadError (''write error occurs while reading from endpoint, sock_fd='' @ fd_text c) err)
             else Inr (-1, [], c))
      else Inr (0, [], c))"

text \<open>\<open>write\<close> returns the count; the bytes on the wire are the first ones of what was offered.\<close>

definition connection_write :: "send_answer \<Rightarrow> string \<Rightarrow> connection \<Rightarrow> exn + int" where
  "connection_write answer buf c =
     (if \<not> is_opened c then Inl (io_exn ClosedEndpointError (''write to closed endpoint, sock_fd='' @ fd_text c) 0)
      else (case answer of
         Taken n \<Rightarrow> Inr (int (taken (length buf) n))
       | Send_error err \<Rightarrow>
           if err \<noteq> EAGAIN \<and> err \<noteq> EWOULDBLOCK
           then Inl (io_exn WriteError (''write error occurs while writing to endpoint, sock_fd='' @ fd_text c) err)
           else Inr (-1)))"

definition read_in_io_buff :: "recv_answer \<Rightarrow> nat \<Rightarrow> connection \<Rightarrow> exn + (int \<times> connection)" where
  "read_in_io_buff answer len c =
     (let c = c\<lparr>tmp_read_buffer := replicate len (CHR 0x00)\<rparr> in
      case connection_read answer len c of
        Inl e \<Rightarrow> Inl e
      | Inr (bytes_read, bs, c) \<Rightarrow>
          if bytes_read \<le> 0 then Inr (bytes_read, c)
          else let c = c\<lparr>tmp_read_buffer := bs\<rparr>
            in Inr (bytes_read, c\<lparr>io_buffer := io_buffer c @ tmp_read_buffer c\<rparr>))"

text \<open>
  The count returned, the bytes sent, and the connection: what is erased from the buffer is the
  length that was offered, not the count that was written.
\<close>

definition write_from_io_buff :: "send_answer \<Rightarrow> nat \<Rightarrow> connection \<Rightarrow> exn + (int \<times> string \<times> connection)" where
  "write_from_io_buff answer len c =
     (let len = (if length (io_buffer c) < len then length (io_buffer c) else len);
          data = take len (io_buffer c)
      in case connection_write answer data c of
           Inl e \<Rightarrow> Inl e
         | Inr bytes_written \<Rightarrow>
             if bytes_written \<le> 0 then Inr (bytes_written, [], c)
             else Inr (bytes_written, take (nat bytes_written) data, c\<lparr>io_buffer := drop len (io_buffer c)\<rparr>))"

definition connection_to_string :: "connection \<Rightarrow> string" where
  "connection_to_string c =
     ''{'' @ [CHR 0x22] @ ''dst_addr'' @ [CHR 0x22] @ ''='' @ [CHR 0x22] @ dst_addr c @ [CHR 0x22]
     @ '','' @ [CHR 0x22] @ ''dst_port'' @ [CHR 0x22] @ ''='' @ to_dec (unat (dst_port c))
     @ '','' @ [CHR 0x22] @ ''src_addr'' @ [CHR 0x22] @ ''='' @ [CHR 0x22] @ src_addr c @ [CHR 0x22]
     @ '','' @ [CHR 0x22] @ ''src_port'' @ [CHR 0x22] @ ''='' @ to_dec (unat (src_port c)) @ ''}''"

text \<open>The timeouts: \<open>answer\<close> is the status of \<open>setsockopt\<close>.\<close>

definition set_timeout :: "string \<Rightarrow> int \<Rightarrow> int \<Rightarrow> int \<Rightarrow> connection \<Rightarrow> exn option" where
  "set_timeout what answer err seconds c =
     (if answer < 0
      then Some (io_exn TimeoutSetError (''cannot set '' @ what @ '' timeout, sock_fd='' @ fd_text c @ '', seconds='' @
        (if seconds < 0 then ''-'' @ to_dec (nat (- seconds)) else to_dec (nat seconds))) err)
      else None)"

section \<open>The buffer contract\<close>

definition sum_option :: "'e + 'a \<Rightarrow> 'a option" where
  "sum_option r = (case r of Inl _ \<Rightarrow> None | Inr v \<Rightarrow> Some v)"

text \<open>What the worker asks for in one call.\<close>

definition MAX_READ_BYTES_PER_CALL :: nat where
  "MAX_READ_BYTES_PER_CALL = 2048"

definition MAX_WRITE_BYTES_PER_CALL :: nat where
  "MAX_WRITE_BYTES_PER_CALL = 2048"

lemma read_in_io_buff_simps:
  "is_opened c \<Longrightarrow> len \<noteq> 0 \<Longrightarrow> bs \<noteq> [] \<Longrightarrow> read_in_io_buff (Received bs) len c =
     Inr (int (length bs), c\<lparr>tmp_read_buffer := bs, io_buffer := io_buffer c @ bs\<rparr>)"
  "is_opened c \<Longrightarrow> len \<noteq> 0 \<Longrightarrow> read_in_io_buff (Received []) len c =
     Inr (0, c\<lparr>tmp_read_buffer := replicate len (CHR 0x00), readable := False\<rparr>)"
  "is_opened c \<Longrightarrow> len \<noteq> 0 \<Longrightarrow> would_block e \<Longrightarrow> read_in_io_buff (Recv_error e) len c =
     Inr (-1, c\<lparr>tmp_read_buffer := replicate len (CHR 0x00)\<rparr>)"
  by (simp_all add: read_in_io_buff_def connection_read_def is_opened_def would_block_def Let_def)

interpretation http_buf: buffered_socket io_buffer is_opened
  "\<lambda>a c. sum_option (read_in_io_buff a MAX_READ_BYTES_PER_CALL c)"
  by unfold_locales
    (auto simp: sum_option_def read_in_io_buff_simps MAX_READ_BYTES_PER_CALL_def is_opened_def,
     auto simp: read_in_io_buff_def connection_read_def is_opened_def would_block_def)

end
