(* ===== verification/HttpReading.thy ===== *)
theory HttpReading imports HttpMessages HttpConnection begin

text \<open>
  The reading half of a client routine of \<open>tinyhttp/epoll_worker\<close>: \<open>read_until_headers_end\<close>,
  \<open>read_body\<close> and \<open>read_http_request\<close>. A routine runs as a coroutine: it yields where the code
  calls \<open>coroutine::yield()\<close>, and goes on when the event loop resumes it. A run is given how often it
  is resumed and what \<open>recv\<close> answers; when no further answer is listed, \<open>recv\<close> would block.
\<close>

section \<open>Runs of a routine\<close>

datatype 'a run =
    Done 'a nat "recv_answer list" connection
  | Threw exn connection
  | Suspended connection

definition next_answer :: "recv_answer list \<Rightarrow> recv_answer \<times> recv_answer list" where
  "next_answer as = (case as of [] \<Rightarrow> (Recv_error EAGAIN, []) | a # as' \<Rightarrow> (a, as'))"

text \<open>The search restarts a terminator's length before the end of what was searched already.\<close>

definition search_pos :: "string \<Rightarrow> nat" where
  "search_pos buf = (if length buf > length headers_end then length buf - length headers_end else 0)"

fun read_until_headers_end :: "nat \<Rightarrow> recv_answer list \<Rightarrow> connection \<Rightarrow> nat run" where
  "read_until_headers_end n as c =
     (let pos = search_pos (io_buffer c); (a, as') = next_answer as in
      case read_in_io_buff a MAX_READ_BYTES_PER_CALL c of
        Inl e \<Rightarrow> Threw e c
      | Inr (bytes, c) \<Rightarrow>
          if bytes \<le> 0 then
            if bytes = 0 then Threw (io_exn EofError ''Connection closed while receiving HEADERS'' 0) c
            else (case n of 0 \<Rightarrow> Suspended c | Suc m \<Rightarrow> read_until_headers_end m as' c)
          else (case sv_find_from headers_end (io_buffer c) pos of
              Some headers_end_pos \<Rightarrow> Done headers_end_pos n as' c
            | None \<Rightarrow> (case n of 0 \<Rightarrow> Suspended c | Suc m \<Rightarrow> read_until_headers_end m as' c)))"

declare read_until_headers_end.simps [simp del]

text \<open>\<open>was_read\<close> and \<open>body_len\<close> are \<open>ssize_t\<close>; the loop yields after every read, the last included.\<close>

fun read_body_loop :: "int \<Rightarrow> int \<Rightarrow> nat \<Rightarrow> recv_answer list \<Rightarrow> connection \<Rightarrow> unit run" where
  "read_body_loop body_len was_read n as c =
     (if was_read < body_len then
        let (a, as') = next_answer as in
        case read_in_io_buff a MAX_READ_BYTES_PER_CALL c of
          Inl e \<Rightarrow> Threw e c
        | Inr (bytes, c) \<Rightarrow>
            if bytes \<le> 0 then
              if bytes = 0 then Threw (io_exn EofError ''Connection closed while receiving BODY'' 0) c
              else (case n of 0 \<Rightarrow> Suspended c | Suc m \<Rightarrow> read_body_loop body_len was_read m as' c)
            else (case n of 0 \<Rightarrow> Suspended c | Suc m \<Rightarrow> read_body_loop body_len (was_read + bytes) m as' c)
      else Done () n as c)"

declare read_body_loop.simps [simp del]

definition read_body :: "nat \<Rightarrow> int \<Rightarrow> nat \<Rightarrow> recv_answer list \<Rightarrow> connection \<Rightarrow> string run" where
  "read_body start_pos body_len n as c =
     (if body_len > 0 then
        (case read_body_loop body_len (int (length (io_buffer c)) - int start_pos) n as c of
           Done _ n as c \<Rightarrow> Done (take (nat body_len) (drop start_pos (io_buffer c))) n as c
         | Threw e c \<Rightarrow> Threw e c
         | Suspended c \<Rightarrow> Suspended c)
      else Done [] n as c)"

text \<open>
  The first line and the header section of what was read. Without a line end the positions wrap
  around, \<open>npos\<close> being the greatest \<open>size_t\<close>; a found terminator excludes it.
\<close>

definition head_parts :: "string \<Rightarrow> nat \<Rightarrow> string \<times> string" where
  "head_parts buff headers_end_pos =
     (let newline_pos = sv_find newline buff;
          (start, len) = (case newline_pos of
             None \<Rightarrow> (1, headers_end_pos + 1)
           | Some p \<Rightarrow> (p + length newline, headers_end_pos - p))
      in (substr0 buff newline_pos, take len (drop start buff)))"

definition clear_buffer :: "connection \<Rightarrow> connection" where
  "clear_buffer c = c\<lparr>io_buffer := []\<rparr>"

text \<open>The body is read when the headers announce its length; a length that does not parse throws.\<close>

definition read_announced_body ::
  "http_headers \<Rightarrow> nat \<Rightarrow> nat \<Rightarrow> recv_answer list \<Rightarrow> connection \<Rightarrow> string run" where
  "read_announced_body headers headers_end_pos n as c =
     (if headers_contains headers hdr_content_length then
        (case headers_at headers hdr_content_length of
           Inl e \<Rightarrow> Threw (std_exn e) c
         | Inr v \<Rightarrow> (case stoll v of
               Inl e \<Rightarrow> Threw (std_exn e) c
             | Inr body_len \<Rightarrow> read_body (headers_end_pos + length headers_end) body_len n as c))
      else Done [] n as c)"

definition read_http_request :: "nat \<Rightarrow> recv_answer list \<Rightarrow> connection \<Rightarrow> http_request run" where
  "read_http_request n as c =
     (case read_until_headers_end n as (clear_buffer c) of
        Threw e c \<Rightarrow> Threw e c
      | Suspended c \<Rightarrow> Suspended c
      | Done headers_end_pos n as c \<Rightarrow>
          let (request_line_str, headers_str) = head_parts (io_buffer c) headers_end_pos in
          (case HttpRequestLine request_line_str of Inl e \<Rightarrow> Threw e c
           | Inr request_line \<Rightarrow>
             (case HttpHeaders headers_str of Inl e \<Rightarrow> Threw e c
              | Inr headers \<Rightarrow>
                (case read_announced_body headers headers_end_pos n as c of
                   Threw e c \<Rightarrow> Threw e c
                 | Suspended c \<Rightarrow> Suspended c
                 | Done body n as c \<Rightarrow>
                     Done (HttpRequest_body request_line headers body) n as (clear_buffer c)))))"

section \<open>Reading the head\<close>

lemma sv_find_append: "sv_find p s = Some i \<Longrightarrow> sv_find p (s @ t) = Some i"
proof -
  assume f: "sv_find p s = Some i"
  then have b: "i + length p \<le> length s" by (rule sv_find_bound)
  then have "occurs_at p (s @ t) j \<longleftrightarrow> occurs_at p s j" if "j \<le> i" for j
    using that by (intro occurs_at_append_left) simp
  with f show ?thesis by (auto simp: sv_find_Some_iff)
qed

text \<open>The restart position loses no occurrence.\<close>

lemma search_pos_eq:
  assumes "sv_find headers_end buf = None"
  shows "sv_find_from headers_end (buf @ bs) (search_pos buf) = sv_find headers_end (buf @ bs)"
proof (rule sv_find_from_eq)
  show "search_pos buf \<le> length (buf @ bs)" by (auto simp: search_pos_def intro: order_trans [OF diff_le_self])
  show "\<not> occurs_at headers_end (buf @ bs) i" if "i < search_pos buf" for i
  proof -
    have "i + length headers_end \<le> length buf" using that by (simp add: search_pos_def split: if_splits)
    then show ?thesis using assms occurs_at_append_left [of i headers_end buf bs]
      by (simp add: sv_find_None_iff)
  qed
qed

lemma next_answer_simps [simp]: "next_answer (a # as) = (a, as)" "next_answer [] = (Recv_error EAGAIN, [])"
  by (simp_all add: next_answer_def)

lemma read_step:
  assumes "is_opened c" "recv_goes_on a"
  obtains bytes c' where "read_in_io_buff a MAX_READ_BYTES_PER_CALL c = Inr (bytes, c')" "bytes \<noteq> 0"
    "bytes > 0 \<longleftrightarrow> recv_bytes a \<noteq> []" "bytes > 0 \<longrightarrow> bytes = int (length (recv_bytes a))"
    "io_buffer c' = io_buffer c @ recv_bytes a" "is_opened c'"
proof -
  obtain v where "sum_option (read_in_io_buff a MAX_READ_BYTES_PER_CALL c) = Some v"
    using http_buf.read_goes_on [OF assms] by auto
  then show thesis using http_buf.read_goes_on [OF assms] that
    by (auto simp: sum_option_def split: sum.splits)
qed

lemma read_until_headers_end_finds:
  assumes "is_opened c" "list_all recv_goes_on as" "sv_find headers_end (io_buffer c) = None"
    "sv_find headers_end (io_buffer c @ recv_data as) = Some p" "length as \<le> Suc n"
  shows "\<exists>as1 as2 c' n'. as = as1 @ as2 \<and> read_until_headers_end n (as @ rest) c = Done p n' (as2 @ rest) c'
    \<and> io_buffer c' = io_buffer c @ recv_data as1 \<and> is_opened c' \<and> n' + length as1 = Suc n
    \<and> sv_find headers_end (io_buffer c') = Some p"
  using assms
proof (induction as arbitrary: n c)
  case Nil
  then show ?case by simp
next
  case (Cons a as)
  obtain bytes c' where r: "read_in_io_buff a MAX_READ_BYTES_PER_CALL c = Inr (bytes, c')" "bytes \<noteq> 0"
    "bytes > 0 \<longleftrightarrow> recv_bytes a \<noteq> []" "bytes > 0 \<longrightarrow> bytes = int (length (recv_bytes a))"
    "io_buffer c' = io_buffer c @ recv_bytes a" "is_opened c'"
    by (rule read_step [of c a]) (use Cons.prems in auto)
  show ?case
  proof (cases "sv_find headers_end (io_buffer c')")
    case (Some q)
    then have "recv_bytes a \<noteq> []" using r(5) Cons.prems(3) by auto
    moreover have "q = p" using sv_find_append [OF Some, of "recv_data as"] r(5) Cons.prems(4) by simp
    ultimately have "read_until_headers_end n ((a # as) @ rest) c = Done p n (as @ rest) c'"
      using r Some search_pos_eq [OF Cons.prems(3), of "recv_bytes a"]
      by (subst read_until_headers_end.simps) simp
    with r Some \<open>q = p\<close> show ?thesis by (intro exI [of _ "[a]"] exI [of _ as]) auto
  next
    case None
    then have "as \<noteq> []" using Cons.prems(4) r(5) by auto
    then obtain m where n: "n = Suc m" using Cons.prems(5) by (cases n) auto
    have "read_until_headers_end n ((a # as) @ rest) c = read_until_headers_end m (as @ rest) c'"
      using r None search_pos_eq [OF Cons.prems(3), of "recv_bytes a"]
      by (subst read_until_headers_end.simps) (simp add: n)
    moreover have "\<exists>as1 as2 d n'. as = as1 @ as2 \<and> read_until_headers_end m (as @ rest) c' = Done p n' (as2 @ rest) d
      \<and> io_buffer d = io_buffer c' @ recv_data as1 \<and> is_opened d \<and> n' + length as1 = Suc m
      \<and> sv_find headers_end (io_buffer d) = Some p"
      by (rule Cons.IH) (use Cons.prems r None n in auto)
    then obtain as1 as2 d n' where "as = as1 @ as2" "read_until_headers_end m (as @ rest) c' = Done p n' (as2 @ rest) d"
      "io_buffer d = io_buffer c' @ recv_data as1" "is_opened d" "n' + length as1 = Suc m"
      "sv_find headers_end (io_buffer d) = Some p" by blast
    ultimately show ?thesis using r(5) n
      by (intro exI [of _ "a # as1"] exI [of _ as2] exI [of _ d] exI [of _ n']) simp
  qed
qed

text \<open>The stream ends before the terminator.\<close>

lemma read_until_headers_end_eof:
  "is_opened c \<Longrightarrow> list_all recv_goes_on as \<Longrightarrow> sv_find headers_end (io_buffer c @ recv_data as) = None \<Longrightarrow>
   length as \<le> n \<Longrightarrow> \<exists>e c'. read_until_headers_end n (as @ Received [] # rest) c = Threw e c' \<and> exn_cls e = EofError"
proof (induction as arbitrary: n c)
  case Nil
  then show ?case
    by (subst read_until_headers_end.simps) (simp add: read_in_io_buff_simps MAX_READ_BYTES_PER_CALL_def)
next
  case (Cons a as)
  obtain bytes c' where r: "read_in_io_buff a MAX_READ_BYTES_PER_CALL c = Inr (bytes, c')" "bytes \<noteq> 0"
    "bytes > 0 \<longleftrightarrow> recv_bytes a \<noteq> []" "bytes > 0 \<longrightarrow> bytes = int (length (recv_bytes a))"
    "io_buffer c' = io_buffer c @ recv_bytes a" "is_opened c'"
    by (rule read_step [of c a]) (use Cons.prems in auto)
  obtain m where n: "n = Suc m" using Cons.prems(4) by (cases n) auto
  have no: "sv_find headers_end (io_buffer c) = None" "sv_find headers_end (io_buffer c') = None"
    using Cons.prems(3) sv_find_append [of headers_end "io_buffer c"] sv_find_append [of headers_end "io_buffer c'"]
    by (auto simp: r(5) not_None_eq [symmetric] simp del: not_None_eq) (metis not_None_eq append_assoc)+
  have "read_until_headers_end n ((a # as) @ Received [] # rest) c = read_until_headers_end m (as @ Received [] # rest) c'"
    using r no search_pos_eq [OF no(1), of "recv_bytes a"]
    by (subst read_until_headers_end.simps) (simp add: n)
  with Cons.IH [of c' m] Cons.prems r n show ?case by simp
qed

section \<open>Reading the body\<close>

lemma read_body_loop_reads:
  assumes "is_opened c" "list_all recv_goes_on as" "w + int (length (recv_data as)) \<ge> len" "length as \<le> n"
  shows "\<exists>as1 as2 c' n'. as = as1 @ as2 \<and> read_body_loop len w n as c = Done () n' as2 c'
    \<and> io_buffer c' = io_buffer c @ recv_data as1 \<and> w + int (length (recv_data as1)) \<ge> len"
  using assms
proof (induction as arbitrary: n c w)
  case Nil
  then have "read_body_loop len w n [] c = Done () n [] c" by (subst read_body_loop.simps) simp
  with Nil show ?case by simp
next
  case (Cons a as)
  show ?case
  proof (cases "w < len")
    case False
    then have "read_body_loop len w n (a # as) c = Done () n (a # as) c" by (subst read_body_loop.simps) simp
    with False show ?thesis by (intro exI [of _ "[]"] exI [of _ "a # as"] exI [of _ c] exI [of _ n]) simp
  next
    case True
    obtain bytes c' where r: "read_in_io_buff a MAX_READ_BYTES_PER_CALL c = Inr (bytes, c')" "bytes \<noteq> 0"
      "bytes > 0 \<longleftrightarrow> recv_bytes a \<noteq> []" "bytes > 0 \<longrightarrow> bytes = int (length (recv_bytes a))"
      "io_buffer c' = io_buffer c @ recv_bytes a" "is_opened c'"
      by (rule read_step [of c a]) (use Cons.prems in auto)
    obtain m where n: "n = Suc m" using Cons.prems(4) by (cases n) auto
    have "read_body_loop len w n (a # as) c = read_body_loop len (w + int (length (recv_bytes a))) m as c'"
      using r True by (subst read_body_loop.simps) (auto simp: n)
    moreover obtain as1 as2 d n' where "as = as1 @ as2"
      "read_body_loop len (w + int (length (recv_bytes a))) m as c' = Done () n' as2 d"
      "io_buffer d = io_buffer c' @ recv_data as1"
      "w + int (length (recv_bytes a)) + int (length (recv_data as1)) \<ge> len"
      using Cons.IH [of c' "w + int (length (recv_bytes a))" m] Cons.prems r n by auto
    ultimately show ?thesis using r(5) by (intro exI [of _ "a # as1"] exI [of _ as2]) auto
  qed
qed

lemma read_body_loop_eof:
  "is_opened c \<Longrightarrow> list_all recv_goes_on as \<Longrightarrow> w + int (length (recv_data as)) < len \<Longrightarrow> length as \<le> n \<Longrightarrow>
   \<exists>e c'. read_body_loop len w n (as @ Received [] # rest) c = Threw e c' \<and> exn_cls e = EofError"
proof (induction as arbitrary: n c w)
  case Nil
  then show ?case
    by (subst read_body_loop.simps) (simp add: read_in_io_buff_simps MAX_READ_BYTES_PER_CALL_def)
next
  case (Cons a as)
  obtain bytes c' where r: "read_in_io_buff a MAX_READ_BYTES_PER_CALL c = Inr (bytes, c')" "bytes \<noteq> 0"
    "bytes > 0 \<longleftrightarrow> recv_bytes a \<noteq> []" "bytes > 0 \<longrightarrow> bytes = int (length (recv_bytes a))"
    "io_buffer c' = io_buffer c @ recv_bytes a" "is_opened c'"
    by (rule read_step [of c a]) (use Cons.prems in auto)
  obtain m where n: "n = Suc m" using Cons.prems(4) by (cases n) auto
  have "w < len" using Cons.prems(3) by simp
  then have "read_body_loop len w n ((a # as) @ Received [] # rest) c =
      read_body_loop len (w + int (length (recv_bytes a))) m (as @ Received [] # rest) c'"
    using r by (subst read_body_loop.simps) (auto simp: n)
  with Cons.IH [of c' "w + int (length (recv_bytes a))" m] Cons.prems r n show ?case by simp
qed

section \<open>A message on the wire\<close>

definition message_text :: "string \<Rightarrow> string list \<Rightarrow> string \<Rightarrow> string" where
  "message_text l ls body = l @ newline @ lines_text ls @ newline @ body"

definition message_lines :: "string \<Rightarrow> string list \<Rightarrow> bool" where
  "message_lines l ls \<longleftrightarrow> CHR 0x0D \<notin> set l \<and> (\<forall>h \<in> set ls. text_line h)"

text \<open>The headers announce the body: its length when they name one, no body otherwise.\<close>

definition announces :: "http_headers \<Rightarrow> string \<Rightarrow> bool" where
  "announces h body \<longleftrightarrow>
     (if headers_contains h hdr_content_length
      then \<exists>v. headers_at h hdr_content_length = Inr v \<and> stoll v = Inr (int (length body))
      else body = [])"

lemma announces_content_length:
  "length body < 2 ^ 63 \<Longrightarrow> map_of h (to_lower hdr_content_length) = Some (to_dec (length body)) \<Longrightarrow> announces h body"
  by (simp add: announces_def headers_contains_def headers_at_lookup stoll_to_dec)

lemma head_parts_message:
  assumes "message_lines l ls"
  shows "head_parts (message_text l ls x) (length l + length (lines_text ls)) = (l, lines_text ls)"
  using assms sv_find_newline_append [of l "lines_text ls @ newline @ x"]
  by (simp add: head_parts_def message_text_def message_lines_def)

lemma message_find: "message_lines l ls \<Longrightarrow>
    sv_find headers_end (message_text l ls body) = Some (length l + length (lines_text ls))"
  using sv_find_headers_end [of l ls body] by (simp add: message_lines_def message_text_def)

lemma append_cut: "length h \<le> length b \<Longrightarrow> b @ r = h @ y \<Longrightarrow> \<exists>x. b = h @ x \<and> x @ r = y"
  by (auto simp: append_eq_append_conv2)

text \<open>What is read when the terminator is first seen: the head, and part of the body.\<close>

lemma message_prefix:
  assumes "message_lines l ls" "b @ rest = message_text l ls body"
    and "sv_find headers_end b = Some (length l + length (lines_text ls))"
  shows "\<exists>x. b = message_text l ls x \<and> x @ rest = body"
proof -
  let ?head = "l @ newline @ lines_text ls @ newline"
  have "length ?head \<le> length b" using sv_find_bound [OF assms(3)] by simp
  moreover have "b @ rest = ?head @ body" using assms(2) by (simp add: message_text_def)
  ultimately obtain x where "b = ?head @ x" "x @ rest = body"
    using append_cut [of ?head b rest body] by blast
  then show ?thesis by (auto simp: message_text_def)
qed

lemma clear_buffer_simps [simp]: "io_buffer (clear_buffer c) = []" "is_opened (clear_buffer c) = is_opened c"
  by (simp_all add: clear_buffer_def is_opened_def)

lemma read_head:
  assumes "is_opened c" "list_all recv_goes_on as" "message_lines l ls"
    and "recv_data as = message_text l ls body" "length as \<le> Suc n"
  obtains as1 as2 c' n' x where "as = as1 @ as2"
    "read_until_headers_end n (as @ rest) (clear_buffer c) = Done (length l + length (lines_text ls)) n' (as2 @ rest) c'"
    "io_buffer c' = message_text l ls x" "x @ recv_data as2 = body" "is_opened c'"
    "n' + length as1 = Suc n" "as1 \<noteq> []"
proof -
  have "\<exists>as1 as2 c' n'. as = as1 @ as2
      \<and> read_until_headers_end n (as @ rest) (clear_buffer c) = Done (length l + length (lines_text ls)) n' (as2 @ rest) c'
      \<and> io_buffer c' = io_buffer (clear_buffer c) @ recv_data as1 \<and> is_opened c' \<and> n' + length as1 = Suc n
      \<and> sv_find headers_end (io_buffer c') = Some (length l + length (lines_text ls))"
    by (rule read_until_headers_end_finds) (use assms message_find [OF assms(3)] in auto)
  then obtain as1 as2 c' n' where r: "as = as1 @ as2" "is_opened c'" "n' + length as1 = Suc n"
    "read_until_headers_end n (as @ rest) (clear_buffer c) = Done (length l + length (lines_text ls)) n' (as2 @ rest) c'"
    "io_buffer c' = recv_data as1" "sv_find headers_end (io_buffer c') = Some (length l + length (lines_text ls))"
    by auto
  moreover have "io_buffer c' @ recv_data as2 = message_text l ls body"
    using r(1,5) assms(4) by simp
  ultimately obtain x where "io_buffer c' = message_text l ls x" "x @ recv_data as2 = body"
    using message_prefix [OF assms(3), of "io_buffer c'" "recv_data as2" body] by blast
  moreover from this(1) r(5) have "as1 \<noteq> []" by (auto simp: message_text_def)
  ultimately show thesis using that r by blast
qed

lemma read_body_announced:
  assumes "is_opened c" "list_all recv_goes_on as" "io_buffer c = message_text l ls x"
    and "x @ recv_data as = body" "announces h body" "length as \<le> n"
  shows "\<exists>n' as' c'. read_announced_body h (length l + length (lines_text ls)) n as c = Done body n' as' c'"
proof (cases "headers_contains h hdr_content_length \<and> body \<noteq> []")
  case False
  with assms(5) show ?thesis by (auto simp: read_announced_body_def announces_def read_body_def split: if_splits)
next
  case True
  let ?start = "length l + length (lines_text ls) + length headers_end"
  obtain v where v: "headers_at h hdr_content_length = Inr v" "stoll v = Inr (int (length body))"
    using assms(5) True by (auto simp: announces_def)
  obtain hd where hd: "hd = l @ newline @ lines_text ls @ newline" by blast
  have buf: "io_buffer c = hd @ x" and start: "?start = length hd"
    using assms(3) by (simp_all add: message_text_def hd)
  have drop: "drop ?start (io_buffer c @ z) = x @ z" "length (io_buffer c) = ?start + length x" for z
    unfolding buf start by simp_all
  have "\<exists>as1 as2 c' n'. as = as1 @ as2
      \<and> read_body_loop (int (length body)) (int (length x)) n as c = Done () n' as2 c'
      \<and> io_buffer c' = io_buffer c @ recv_data as1
      \<and> int (length x) + int (length (recv_data as1)) \<ge> int (length body)"
    by (rule read_body_loop_reads) (use assms(1,2,4,6) in auto)
  then obtain as1 as2 c' n' where r: "as = as1 @ as2" "io_buffer c' = io_buffer c @ recv_data as1"
    "read_body_loop (int (length body)) (int (length x)) n as c = Done () n' as2 c'"
    "int (length x) + int (length (recv_data as1)) \<ge> int (length body)" by blast
  have "take (length body) (x @ recv_data as1) = body" using assms(4) r(1,4) by auto
  then have "read_body ?start (int (length body)) n as c = Done body n' as2 c'"
    using True r(2,3) drop(1) [of "recv_data as1"] drop(2) by (simp add: read_body_def)
  with True v show ?thesis by (auto simp: read_announced_body_def)
qed

section \<open>Properties\<close>

text \<open>
  C5: A request read from the wire. However the kernel cuts its bytes into deliveries, with any
  number of would-block answers between them, a run that is resumed at least once per answer
  returns the request its first line, header section and announced body say; and it throws what
  the parser of the first line, or else of the headers, throws.
\<close>

theorem read_http_request_message:
  assumes "is_opened c" "list_all recv_goes_on as" "message_lines l ls"
    and "recv_data as = message_text l ls body" "length as \<le> n"
    and "\<forall>h. HttpHeaders (lines_text ls) = Inr h \<longrightarrow> announces h body"
  shows "case HttpRequestLine l of
      Inl e \<Rightarrow> \<exists>c'. read_http_request n as c = Threw e c'
    | Inr rl \<Rightarrow> (case HttpHeaders (lines_text ls) of
          Inl e \<Rightarrow> \<exists>c'. read_http_request n as c = Threw e c'
        | Inr h \<Rightarrow> \<exists>n' as' c'. read_http_request n as c =
            Done \<lparr>rq_line = rl, rq_headers = h, rq_body = body\<rparr> n' as' c' \<and> io_buffer c' = [])"
proof -
  obtain as1 as2 c' n' x where r: "as = as1 @ as2"
    "read_until_headers_end n as (clear_buffer c) = Done (length l + length (lines_text ls)) n' as2 c'"
    "io_buffer c' = message_text l ls x" "x @ recv_data as2 = body" "is_opened c'" "n' + length as1 = Suc n"
    "as1 \<noteq> []"
    by (rule read_head [OF assms(1-4), of n "[]"]) (use assms(5) in auto)
  have "length as2 \<le> n'" using r(1,6,7) assms(5) by (cases as1) auto
  then have body: "\<exists>n'' as' c''. read_announced_body h (length l + length (lines_text ls)) n' as2 c' = Done body n'' as' c''"
    if "announces h body" for h
    using read_body_announced [OF r(5) _ r(3,4) that, of n'] assms(2) r(1) by simp
  have parts: "head_parts (io_buffer c') (length l + length (lines_text ls)) = (l, lines_text ls)"
    unfolding r(3) by (rule head_parts_message [OF assms(3)])
  show ?thesis
  proof (cases "HttpRequestLine l")
    case (Inr rl)
    show ?thesis
    proof (cases "HttpHeaders (lines_text ls)")
      case h: (Inr h)
      with assms(6) obtain n'' as' c'' where
        "read_announced_body h (length l + length (lines_text ls)) n' as2 c' = Done body n'' as' c''"
        using body by blast
      with Inr h show ?thesis by (simp add: read_http_request_def r(2) parts HttpRequest_body_def)
    qed (simp add: read_http_request_def r(2) parts Inr)
  qed (simp add: read_http_request_def r(2) parts)
qed

theorem read_http_request_message_witness:
  "\<exists>n' as' c'. read_http_request 4
     [Received ''GET / HT'', Recv_error EAGAIN, Received (''TP/1.0'' @ newline @ newline)]
     (connection_init \<lparr>d_fd = 5\<rparr>) =
     Done \<lparr>rq_line = \<lparr>rl_version = V1_0, rl_method = GET, rl_url = ''/'', rl_query = []\<rparr>,
       rq_headers = [], rq_body = []\<rparr> n' as' c' \<and> io_buffer c' = []"
proof -
  let ?l = "''GET / HTTP/1.0''" and ?c = "connection_init \<lparr>d_fd = 5\<rparr>"
  let ?as = "[Received ''GET / HT'', Recv_error EAGAIN, Received (''TP/1.0'' @ newline @ newline)]"
  have h: "HttpHeaders [] = Inr []" using parse_headers_stop(1) [of "[]"] by (simp add: HttpHeaders_def)
  have dec: "decode_url ''/'' = ''/''" by (intro decode_url_plain) simp_all
  have l: "HttpRequestLine ?l = Inr \<lparr>rl_version = V1_0, rl_method = GET, rl_url = ''/'', rl_query = []\<rparr>"
    using request_line_parts [of "''GET''" "''/''" "''HTTP/1.0''"] parse_version_printed [of V1_0]
      parse_target_plain [of "''/''"]
    by (simp add: dec get_http_method_code_def http_method_code_def)
  have "announces [] []" by (simp add: announces_def headers_contains_def)
  then have a: "\<forall>h. HttpHeaders (lines_text []) = Inr h \<longrightarrow> announces h []" using h by simp
  have "is_opened ?c" "list_all recv_goes_on ?as" "message_lines ?l []"
    by (simp_all add: is_opened_def connection_init_def is_valid_def would_block_def message_lines_def)
  from read_http_request_message [OF this _ _ a, of 4] show ?thesis
    by (simp add: l h message_text_def)
qed

text \<open>
  A peer that closes the connection before the whole message arrived, in the head or in the
  body, makes the routine throw \<open>EofError\<close>: a truncated request is never returned.
\<close>

theorem read_http_request_truncated:
  assumes "is_opened c" "list_all recv_goes_on as" "message_lines l ls"
    and "recv_data as @ missing = message_text l ls body" "missing \<noteq> []" "length as \<le> n"
    and "HttpRequestLine l = Inr rl" "HttpHeaders (lines_text ls) = Inr h" "announces h body"
  shows "\<exists>e c'. read_http_request n (as @ [Received []]) c = Threw e c' \<and> exn_cls e = EofError"
proof (cases "sv_find headers_end (recv_data as)")
  case None
  then have "\<exists>e c'. read_until_headers_end n (as @ [Received []]) (clear_buffer c) = Threw e c' \<and> exn_cls e = EofError"
    by (intro read_until_headers_end_eof) (use assms(1,2,6) in auto)
  then show ?thesis by (auto simp: read_http_request_def)
next
  case (Some p)
  then have "sv_find headers_end (message_text l ls body) = Some p"
    using sv_find_append [OF Some, of missing] assms(4) by simp
  then have p: "p = length l + length (lines_text ls)" using message_find [OF assms(3)] by simp
  obtain y where y: "recv_data as = message_text l ls y" "y @ missing = body"
    using message_prefix [OF assms(3,4)] Some p by auto
  obtain as1 as2 c' n' x where r: "as = as1 @ as2"
    "read_until_headers_end n (as @ [Received []]) (clear_buffer c) =
      Done (length l + length (lines_text ls)) n' (as2 @ [Received []]) c'"
    "io_buffer c' = message_text l ls x" "x @ recv_data as2 = y" "is_opened c'" "n' + length as1 = Suc n"
    "as1 \<noteq> []"
    by (rule read_head [OF assms(1-3) y(1), of n "[Received []]"]) (use assms(6) in auto)
  have parts: "head_parts (io_buffer c') (length l + length (lines_text ls)) = (l, lines_text ls)"
    unfolding r(3) by (rule head_parts_message [OF assms(3)])
  obtain v where v: "headers_contains h hdr_content_length" "headers_at h hdr_content_length = Inr v"
    "stoll v = Inr (int (length body))"
    using assms(5,9) y(2) by (auto simp: announces_def split: if_splits)
  have "length (io_buffer c') = length l + length (lines_text ls) + length headers_end + length x"
    by (simp add: r(3) message_text_def)
  moreover have "\<exists>e d. read_body_loop (int (length body)) (int (length x)) n' (as2 @ [Received []]) c' = Threw e d \<and> exn_cls e = EofError"
    by (rule read_body_loop_eof [OF r(5)]) (use assms(2,5,6) r y(2) in \<open>cases as1; auto\<close>)+
  ultimately obtain e d where "read_announced_body h (length l + length (lines_text ls)) n' (as2 @ [Received []]) c' = Threw e d"
    "exn_cls e = EofError"
    using v assms(5) y(2) by (auto simp: read_announced_body_def read_body_def)
  then show ?thesis by (simp add: read_http_request_def r(2) parts assms(7,8))
qed

theorem read_http_request_truncated_witness:
  "\<exists>e c'. read_http_request 3 ([Received ''GET / HTTP/1.0'', Received [CHR 0x0D]] @ [Received []])
     (connection_init \<lparr>d_fd = 5\<rparr>) = Threw e c' \<and> exn_cls e = EofError"
proof -
  have dec: "decode_url ''/'' = ''/''" by (intro decode_url_plain) simp_all
  have l: "HttpRequestLine ''GET / HTTP/1.0'' = Inr \<lparr>rl_version = V1_0, rl_method = GET, rl_url = ''/'', rl_query = []\<rparr>"
    using request_line_parts [of "''GET''" "''/''" "''HTTP/1.0''"] parse_version_printed [of V1_0]
      parse_target_plain [of "''/''"]
    by (simp add: dec get_http_method_code_def http_method_code_def)
  show ?thesis
    by (rule read_http_request_truncated [of _ _ "''GET / HTTP/1.0''" "[]" "[CHR 0x0A, CHR 0x0D, CHR 0x0A]" "[]" _ _ "[]"])
      (use l parse_headers_stop(1) [of "[]"] in \<open>simp_all add: is_opened_def connection_init_def is_valid_def
        message_lines_def message_text_def HttpHeaders_def announces_def headers_contains_def\<close>)
qed

text \<open>
  A request whose body arrives after its head, in one delivery each: after both deliveries the
  buffer holds the whole message, but the routine has yielded and needs to be resumed once more
  before it returns the request. The worker resumes a reading client only when more input arrives
  or the peer closes.
\<close>

theorem read_http_request_waits_after_body:
  assumes "is_opened c" "message_lines l ls" "HttpRequestLine l = Inr rl"
    and "HttpHeaders (lines_text ls) = Inr h" "announces h body" "body \<noteq> []"
  defines "as \<equiv> [Received (message_text l ls []), Received body]"
  shows "(\<exists>c'. read_http_request 0 as c = Suspended c' \<and> io_buffer c' = message_text l ls body)
    \<and> (\<exists>n' as' c'. read_http_request 1 as c = Done \<lparr>rq_line = rl, rq_headers = h, rq_body = body\<rparr> n' as' c')"
proof -
  let ?head = "message_text l ls []" and ?p = "length l + length (lines_text ls)"
  have head: "?head \<noteq> []" "message_text l ls body = ?head @ body" by (simp_all add: message_text_def)
  define c1 where "c1 = clear_buffer c\<lparr>tmp_read_buffer := ?head, io_buffer := ?head\<rparr>"
  have op: "is_opened (clear_buffer c)" "is_opened c1" using assms(1) by (simp_all add: c1_def is_opened_def clear_buffer_def)
  have rd: "read_in_io_buff (Received ?head) MAX_READ_BYTES_PER_CALL (clear_buffer c) = Inr (int (length ?head), c1)"
    "read_in_io_buff (Received body) MAX_READ_BYTES_PER_CALL c1 =
      Inr (int (length body), c1\<lparr>tmp_read_buffer := body, io_buffer := ?head @ body\<rparr>)"
    using op head(1) assms(6) by (simp_all add: read_in_io_buff_simps MAX_READ_BYTES_PER_CALL_def c1_def clear_buffer_def)
  have until: "read_until_headers_end n as (clear_buffer c) = Done ?p n [Received body] c1" for n
    using rd(1) head(1) message_find [OF assms(2), of "[]"]
    by (subst read_until_headers_end.simps) (simp add: as_def search_pos_def sv_find_from_def c1_def clear_buffer_def option.map_id0)
  have loop: "read_body_loop (int (length body)) 0 n [Received body] c1 = (case n of
      0 \<Rightarrow> Suspended (c1\<lparr>tmp_read_buffer := body, io_buffer := ?head @ body\<rparr>)
    | Suc m \<Rightarrow> Done () m [] (c1\<lparr>tmp_read_buffer := body, io_buffer := ?head @ body\<rparr>))" for n
    using rd(2) assms(6) by (subst read_body_loop.simps, subst read_body_loop.simps) (auto split: nat.splits)
  have parts: "head_parts (io_buffer c1) ?p = (l, lines_text ls)"
    using head_parts_message [OF assms(2), of "[]"] by (simp add: c1_def)
  obtain v where v: "headers_contains h hdr_content_length" "headers_at h hdr_content_length = Inr v"
    "stoll v = Inr (int (length body))"
    using assms(5,6) by (auto simp: announces_def split: if_splits)
  have len: "length ?head = ?p + length headers_end" by (simp add: message_text_def)
  then have drop: "drop (?p + length headers_end) (?head @ body) = body" by (metis append_eq_conv_conj)
  have "read_announced_body h ?p n [Received body] c1 = (case n of
      0 \<Rightarrow> Suspended (c1\<lparr>tmp_read_buffer := body, io_buffer := ?head @ body\<rparr>)
    | Suc m \<Rightarrow> Done body m [] (c1\<lparr>tmp_read_buffer := body, io_buffer := ?head @ body\<rparr>))" for n
    using v assms(6) len loop [of n] drop
    by (auto simp: read_announced_body_def read_body_def c1_def split: nat.splits)
  then show ?thesis
    using parts by (simp add: read_http_request_def until assms(3,4) HttpRequest_body_def head(2))
qed

theorem read_http_request_waits_after_body_witness:
  "\<exists>c'. read_http_request 0 [Received (message_text ''POST / HTTP/1.1'' [''content-length: 2''] []), Received ''hi'']
      (connection_init \<lparr>d_fd = 5\<rparr>) = Suspended c'
    \<and> io_buffer c' = message_text ''POST / HTTP/1.1'' [''content-length: 2''] ''hi''"
proof -
  let ?h = "[(''content-length'', ''2'')]"
  have dec: "decode_url ''/'' = ''/''" by (intro decode_url_plain) simp_all
  have l: "HttpRequestLine ''POST / HTTP/1.1'' = Inr \<lparr>rl_version = V1_1, rl_method = POST, rl_url = ''/'', rl_query = []\<rparr>"
    using request_line_parts [of "''POST''" "''/''" "''HTTP/1.1''"] parse_version_printed [of V1_1]
      parse_target_plain [of "''/''"]
    by (simp add: dec get_http_method_code_def http_method_code_def)
  have "umap_wf ?h" "\<forall>kv \<in> set ?h. header_printable kv"
    by (simp_all add: umap_wf_def header_printable_def to_lower_def tolower_c_def)
  from HttpHeaders_lines [OF this] have h: "HttpHeaders (lines_text [''content-length: 2'']) = Inr ?h"
    by (simp add: header_text_def)
  have "to_dec (Suc (Suc 0)) = ''2''" by (subst to_dec.simps) (simp add: digit_char_def)
  then have "announces ?h ''hi''"
    by (intro announces_content_length) (simp_all add: http_simps)
  moreover have "is_opened (connection_init \<lparr>d_fd = 5\<rparr>)" "message_lines ''POST / HTTP/1.1'' [''content-length: 2'']"
    by (simp_all add: is_opened_def connection_init_def is_valid_def message_lines_def text_line_def)
  ultimately show ?thesis
    using read_http_request_waits_after_body [OF _ _ l h, of "connection_init \<lparr>d_fd = 5\<rparr>" "''hi''"] by simp
qed

text \<open>
  C9: Printing and reading a whole request are inverse for requests that the wire can carry: when the request line
  is printable (no space, percent, plus, CR or separator in path and parameters), there are headers, each of
  them printable, and their \<open>Content-Length\<close> announces the body, which \<open>set_body\<close> does not see to, then the
  request, printed, sent and cut into deliveries in any way, is read, on an open connection by a routine that is resumed
  once per delivery, as one with the same method, version,
  path, parameter and header lookups and body.
\<close>

theorem read_http_request_printed:
  assumes "iteration qord" "iteration hord" "request_line_printable (rq_line r)"
    and "headers_wf (rq_headers r)" "\<forall>kv \<in> set (rq_headers r). header_printable kv"
    and "rq_headers r \<noteq> []" "announces (rq_headers r) (rq_body r)"
    and "request_to_string qord hord r = Inr t"
    and "is_opened c" "list_all recv_goes_on as" "recv_data as = t" "length as \<le> n"
  shows "\<exists>r' n' as' c'. read_http_request n as c = Done r' n' as' c' \<and> rq_body r' = rq_body r
    \<and> (\<forall>k. headers_at (rq_headers r') k = headers_at (rq_headers r) k)
    \<and> rl_method (rq_line r') = rl_method (rq_line r) \<and> rl_version (rq_line r') = rl_version (rq_line r)
    \<and> rl_url (rq_line r') = rl_url (rq_line r)
    \<and> (\<forall>k. query_at (rl_query (rq_line r')) k = query_at (rl_query (rq_line r)) k)"
proof -
  let ?h = "hord (rq_headers r)" and ?ls = "map header_text (hord (rq_headers r))"
  obtain l where l: "request_line_to_string qord (rq_line r) = Inr l" "CHR 0x0D \<notin> set l"
    "HttpRequestLine l = Inr ((rq_line r)\<lparr>rl_query := qord (rl_query (rq_line r))\<rparr>)"
    using request_line_print_parse_eq [OF assms(1,3)] by blast
  have "t = l @ newline @ (headers_to_string hord (rq_headers r) @ newline) @ newline @ rq_body r"
    using assms(8) l(1) by (simp add: request_to_string_def)
  then have t: "t = message_text l ?ls (rq_body r)"
    by (simp only: headers_to_string_lines [OF assms(2,6)] message_text_def)
  have pr: "\<forall>kv \<in> set ?h. header_printable kv" using assms(5) by (simp only: iteration_set [OF assms(2)])
  then have ml: "message_lines l ?ls" using l(2) header_text_line by (auto simp: message_lines_def)
  have same: "map_of ?h = map_of (rq_headers r)"
    using assms(2,4) by (simp add: headers_wf_def iteration_map_of)
  have h: "HttpHeaders (lines_text ?ls) = Inr ?h"
    using assms(2,4) by (intro HttpHeaders_lines [OF _ pr]) (simp add: headers_wf_def iteration_wf)
  have "announces ?h (rq_body r)"
  proof -
    have "headers_at ?h k = headers_at (rq_headers r) k" "headers_contains ?h k = headers_contains (rq_headers r) k" for k
      by (simp_all add: headers_at_lookup headers_contains_def same)
    with assms(7) show ?thesis by (simp add: announces_def)
  qed
  then have a: "\<forall>h. HttpHeaders (lines_text ?ls) = Inr h \<longrightarrow> announces h (rq_body r)" by (simp add: h)
  have q: "map_of (qord (rl_query (rq_line r))) = map_of (rl_query (rq_line r))"
    using assms(1,3) by (intro iteration_map_of) (simp_all add: request_line_printable_def)
  from read_http_request_message [OF assms(9,10) ml _ assms(12) a] assms(11) t
  obtain n' as' c' where "read_http_request n as c =
      Done \<lparr>rq_line = (rq_line r)\<lparr>rl_query := qord (rl_query (rq_line r))\<rparr>, rq_headers = ?h, rq_body = rq_body r\<rparr> n' as' c'"
    by (auto simp: l(3) h)
  then show ?thesis using same q by (simp add: headers_at_lookup query_at_def umap_at_def)
qed

theorem read_http_request_printed_witness:
  "\<exists>r' n' as' c'. read_http_request 2 [Received ''PUT /a HTTP/1.1'',
      Received (newline @ ''host: b'' @ headers_end)] (connection_init \<lparr>d_fd = 5\<rparr>) = Done r' n' as' c'
    \<and> rl_url (rq_line r') = ''/a'' \<and> headers_at (rq_headers r') ''host'' = Inr ''b''"
proof -
  let ?r = "\<lparr>rq_line = \<lparr>rl_version = V1_1, rl_method = PUT, rl_url = ''/a'', rl_query = []\<rparr>,
    rq_headers = [(''host'', ''b'')], rq_body = []\<rparr>"
  have p: "request_to_string id id ?r = Inr (''PUT /a HTTP/1.1'' @ newline @ ''host: b'' @ headers_end)"
    by (simp add: request_to_string_def request_line_to_string_def query_empty_def headers_to_string_def header_line_def)
  have "headers_wf [(''host'', ''b'')]" "\<forall>kv \<in> set [(''host'', ''b'')]. header_printable kv"
    by (simp_all add: headers_wf_def umap_wf_def header_printable_def to_lower_def tolower_c_def)
  moreover have "request_line_printable (rq_line ?r)" by (simp add: request_line_printable_def target_plain_def umap_wf_def)
  moreover have "announces [(''host'', ''b'')] []" by (simp add: announces_def headers_contains_def http_simps)
  moreover have "is_opened (connection_init \<lparr>d_fd = 5\<rparr>)" by (simp add: is_opened_def connection_init_def is_valid_def)
  ultimately have "\<exists>r' n' as' c'. read_http_request 2 [Received ''PUT /a HTTP/1.1'',
      Received (newline @ ''host: b'' @ headers_end)] (connection_init \<lparr>d_fd = 5\<rparr>) = Done r' n' as' c' \<and> rq_body r' = rq_body ?r
    \<and> (\<forall>k. headers_at (rq_headers r') k = headers_at (rq_headers ?r) k)
    \<and> rl_method (rq_line r') = rl_method (rq_line ?r) \<and> rl_version (rq_line r') = rl_version (rq_line ?r)
    \<and> rl_url (rq_line r') = rl_url (rq_line ?r)
    \<and> (\<forall>k. query_at (rl_query (rq_line r')) k = query_at (rl_query (rq_line ?r)) k)"
    by (intro read_http_request_printed [OF iteration_id iteration_id _ _ _ _ _ p]) simp_all
  moreover have "headers_at [(''host'', ''b'')] ''host'' = Inr ''b''"
    by (simp add: headers_at_lookup to_lower_def tolower_c_def)
  ultimately show ?thesis by auto
qed

end
