(* ===== verification/HttpSending.thy ===== *)
theory HttpSending imports HttpReading begin

text \<open>
  The writing half of a client routine: the send loop, which \<open>send_http_response\<close> of
  \<open>tinyhttp/epoll_worker\<close> and the file sender of \<open>tinyhttp/basic_static_server\<close> have in common
  but for the size of a piece. A run is given how often it is resumed and what \<open>send\<close> answers; when
  no further answer is listed, \<open>send\<close> would block. The wire is what the kernel took so far.
\<close>

section \<open>The send loop\<close>

datatype send_run =
    Sent string nat "send_answer list" connection
  | Send_threw exn string connection
  | Send_suspended string connection

definition next_send :: "send_answer list \<Rightarrow> send_answer \<times> send_answer list" where
  "next_send as = (case as of [] \<Rightarrow> (Send_error EAGAIN, []) | a # as' \<Rightarrow> (a, as'))"

fun send_loop :: "nat \<Rightarrow> nat \<Rightarrow> nat \<Rightarrow> string \<Rightarrow> nat \<Rightarrow> send_answer list \<Rightarrow> connection \<Rightarrow> send_run" where
  "send_loop piece write_size written wire n as c =
     (if written < write_size then
        let (a, as') = next_send as in
        case write_from_io_buff a piece c of
          Inl e \<Rightarrow> Send_threw e wire c
        | Inr (bytes, out, c) \<Rightarrow>
            let written = (if bytes < 0 then written else written + nat bytes) in
            (case n of 0 \<Rightarrow> Send_suspended (wire @ out) c
             | Suc m \<Rightarrow> send_loop piece write_size written (wire @ out) m as' c)
      else Sent wire n as c)"

declare send_loop.simps [simp del]

text \<open>Fill the buffer with a text and send it.\<close>

definition send_text :: "nat \<Rightarrow> string \<Rightarrow> nat \<Rightarrow> send_answer list \<Rightarrow> connection \<Rightarrow> send_run" where
  "send_text piece content n as c =
     (let c = clear_buffer c; c = c\<lparr>io_buffer := io_buffer c @ content\<rparr>
      in send_loop piece (length (io_buffer c)) 0 [] n as c)"

definition send_http_response ::
  "(http_headers \<Rightarrow> http_headers) \<Rightarrow> 's http_response \<Rightarrow> nat \<Rightarrow> send_answer list \<Rightarrow> connection \<Rightarrow> send_run" where
  "send_http_response hord response n as c =
     (case response_to_string hord response of
        Inl e \<Rightarrow> Send_threw e [] (clear_buffer c)
      | Inr t \<Rightarrow>
          (case send_text MAX_WRITE_BYTES_PER_CALL t n as c of
             Sent wire n as c \<Rightarrow> Sent wire n as (clear_buffer c)
           | Send_threw e wire c \<Rightarrow> Send_threw e wire c
           | Send_suspended wire c \<Rightarrow> Send_suspended wire c))"

section \<open>Sends that take everything\<close>

fun send_goes_on :: "send_answer \<Rightarrow> bool" where
  "send_goes_on (Taken k) = True"
| "send_goes_on (Send_error e) = would_block e"

text \<open>An answer that takes all that can be offered in one call.\<close>

fun takes_all :: "nat \<Rightarrow> send_answer \<Rightarrow> bool" where
  "takes_all piece (Taken k) = (k \<ge> piece)"
| "takes_all piece (Send_error e) = False"

lemma next_send_simps [simp]: "next_send (a # as) = (a, as)" "next_send [] = (Send_error EAGAIN, [])"
  by (simp_all add: next_send_def)

lemma write_would_block:
  "is_opened c \<Longrightarrow> would_block e \<Longrightarrow> write_from_io_buff (Send_error e) piece c = Inr (-1, [], c)"
  by (auto simp: write_from_io_buff_def connection_write_def would_block_def Let_def)

lemma write_takes:
  assumes "is_opened c" and len: "len = min piece (length (io_buffer c))" and m: "m = min len k"
  shows "write_from_io_buff (Taken k) piece c = (if m = 0 then Inr (0, [], c)
    else Inr (int m, take m (io_buffer c), c\<lparr>io_buffer := drop len (io_buffer c)\<rparr>))"
proof -
  have l: "(if length (io_buffer c) < piece then length (io_buffer c) else piece) = len"
    by (simp add: len min_def)
  have "length (take len (io_buffer c)) = len" by (simp add: len)
  then have "connection_write (Taken k) (take len (io_buffer c)) c = Inr (int m)"
    using assms(1) by (simp add: connection_write_def taken_def m)
  moreover have "take m (take len (io_buffer c)) = take m (io_buffer c)"
    by (simp add: take_take min_def m)
  ultimately show ?thesis unfolding write_from_io_buff_def l Let_def by simp
qed

lemma is_opened_buffer [simp]: "is_opened (c\<lparr>io_buffer := b\<rparr>) = is_opened c"
  by (simp add: is_opened_def)

lemma send_loop_full:
  assumes "is_opened c" "piece > 0" "list_all (\<lambda>a. takes_all piece a \<or> (\<exists>e. a = Send_error e \<and> would_block e)) as"
    and "written + length (io_buffer c) = amount" "length (io_buffer c) \<le> piece * length (filter (takes_all piece) as)"
    and "length as \<le> n"
  shows "\<exists>n' as' c'. send_loop piece amount written wire n as c = Sent (wire @ io_buffer c) n' as' c'
    \<and> n \<le> n' + length as"
  using assms
proof (induction as arbitrary: written wire n c)
  case Nil
  then show ?case by (subst send_loop.simps) simp
next
  case (Cons a as)
  show ?case
  proof (cases "io_buffer c = []")
    case True
    with Cons.prems(4) show ?thesis by (subst send_loop.simps) simp
  next
    case False
    then have w: "written < amount" using Cons.prems(4) by (cases "io_buffer c") auto
    obtain m where n: "n = Suc m" using Cons.prems(6) by (cases n) auto
    show ?thesis
    proof (cases a)
      case (Send_error e)
      then have e: "would_block e" using Cons.prems(3) by auto
      have "send_loop piece amount written wire n (a # as) c = send_loop piece amount written wire m as c"
        using w write_would_block [OF Cons.prems(1) e, of piece]
        by (subst send_loop.simps) (simp add: n Send_error)
      with Cons.IH [of c written m wire] Cons.prems n Send_error show ?thesis by auto
    next
      case (Taken k)
      let ?len = "min piece (length (io_buffer c))"
      have k: "k \<ge> piece" "takes_all piece a" using Cons.prems(3) Taken by auto
      then have len: "min ?len k = ?len" "?len > 0" using False Cons.prems(2) by (auto simp: min_def)
      let ?c = "c\<lparr>io_buffer := drop ?len (io_buffer c)\<rparr>" and ?w = "wire @ take ?len (io_buffer c)"
      have "send_loop piece amount written wire n (a # as) c = send_loop piece amount (written + ?len) ?w m as ?c"
        using w write_takes [OF Cons.prems(1) refl refl, of k piece] len
        by (subst send_loop.simps) (simp add: n Taken Let_def)
      moreover have "\<exists>n' as' c'. send_loop piece amount (written + ?len) ?w m as ?c = Sent (?w @ io_buffer ?c) n' as' c'
        \<and> m \<le> n' + length as"
      proof (rule Cons.IH)
        show "length (io_buffer ?c) \<le> piece * length (filter (takes_all piece) as)"
          using Cons.prems(5) k(2) by (auto simp: min_def)
      qed (use Cons.prems n in auto)
      ultimately show ?thesis using n by auto
    qed
  qed
qed

section \<open>A short send\<close>

text \<open>
  Once less is left in the buffer than the loop waits to write, the loop cannot end: every call
  erases at least what it counts.
\<close>

lemma write_goes_on:
  assumes "is_opened c" "send_goes_on a"
  shows "\<exists>bytes out b. write_from_io_buff a piece c = Inr (bytes, out, c\<lparr>io_buffer := b\<rparr>)
    \<and> nat bytes + length b \<le> length (io_buffer c)"
proof (cases a)
  case (Send_error e)
  then have "write_from_io_buff a piece c = Inr (-1, [], c\<lparr>io_buffer := io_buffer c\<rparr>)"
    using write_would_block [OF assms(1), of e piece] assms(2) by simp
  moreover have "nat (-1) + length (io_buffer c) \<le> length (io_buffer c)" by simp
  ultimately show ?thesis by blast
next
  case (Taken k)
  define len where "len = min piece (length (io_buffer c))"
  define m where "m = min len k"
  define b where "b = drop (if m = 0 then 0 else len) (io_buffer c)"
  have "write_from_io_buff a piece c = Inr (int m, take m (io_buffer c), c\<lparr>io_buffer := b\<rparr>)"
    using write_takes [OF assms(1) len_def m_def] by (simp add: Taken b_def)
  moreover have "nat (int m) + length b \<le> length (io_buffer c)" by (auto simp: b_def m_def len_def)
  ultimately show ?thesis by blast
qed

lemma send_loop_short:
  "written + length (io_buffer c) < amount \<Longrightarrow> is_opened c \<Longrightarrow> list_all send_goes_on as \<Longrightarrow>
   \<exists>wire' c'. send_loop piece amount written wire n as c = Send_suspended wire' c'"
proof (induction n arbitrary: written c as wire)
  case (0 written c as wire)
  obtain a as' where a: "next_send as = (a, as')" "send_goes_on a"
    using 0(3) by (cases as) (auto simp: would_block_def)
  from write_goes_on [OF 0(2) a(2), of piece] 0(1) a(1) show ?case by (subst send_loop.simps) (auto simp: Let_def)
next
  case (Suc n written c as wire)
  obtain a as' where a: "next_send as = (a, as')" "send_goes_on a" "list_all send_goes_on as'"
    using Suc.prems(3) by (cases as) (auto simp: would_block_def)
  obtain bytes out b where w: "write_from_io_buff a piece c = Inr (bytes, out, c\<lparr>io_buffer := b\<rparr>)"
    "nat bytes + length b \<le> length (io_buffer c)"
    using write_goes_on [OF Suc.prems(2) a(2)] by blast
  then have less: "written + nat bytes + length (io_buffer (c\<lparr>io_buffer := b\<rparr>)) < amount" using Suc.prems(1) by simp
  have "send_loop piece amount written wire (Suc n) as c
      = send_loop piece amount (written + nat bytes) (wire @ out) n as' (c\<lparr>io_buffer := b\<rparr>)"
    using Suc.prems(1) a(1) w(1) by (subst send_loop.simps) (simp add: Let_def)
  with Suc.IH [OF less _ a(3)] Suc.prems(2) show ?case by simp
qed

lemma send_text_loop:
  "send_text piece t n as c = send_loop piece (length t) 0 [] n as (c\<lparr>io_buffer := t\<rparr>)"
  by (simp add: send_text_def clear_buffer_def Let_def)

text \<open>
  Answers before the first short send: each takes all it is offered, or nothing. What is left of a text
  after them, and the next send takes some of its piece but not all.
\<close>

fun no_loss :: "nat \<Rightarrow> send_answer \<Rightarrow> bool" where
  "no_loss piece (Taken k) = (k = 0 \<or> k \<ge> piece)"
| "no_loss piece (Send_error e) = would_block e"

definition left_after :: "nat \<Rightarrow> send_answer list \<Rightarrow> nat \<Rightarrow> nat" where
  "left_after piece as amount = amount - piece * length (filter (takes_all piece) as)"

lemma send_loop_one:
  assumes "is_opened c" "written + length (io_buffer c) = amount" "0 < k" "k < min piece (length (io_buffer c))" "list_all send_goes_on as"
  shows "\<exists>wire' c'. send_loop piece amount written wire n (Taken k # as) c = Send_suspended wire' c'"
proof -
  let ?len = "min piece (length (io_buffer c))"
  let ?d = "c\<lparr>io_buffer := drop ?len (io_buffer c)\<rparr>"
  have "write_from_io_buff (Taken k) piece c = Inr (int k, take k (io_buffer c), ?d)"
    using write_takes [of c ?len piece k k] assms(1,3,4) by simp
  then have "send_loop piece amount written wire n (Taken k # as) c = (case n of
      0 \<Rightarrow> Send_suspended (wire @ take k (io_buffer c)) ?d
    | Suc m \<Rightarrow> send_loop piece amount (written + k) (wire @ take k (io_buffer c)) m as ?d)"
    using assms(2,3,4) by (subst send_loop.simps) (simp split: nat.split)
  then show ?thesis
    using send_loop_short [of "written + k" ?d amount as piece] assms by (cases n) auto
qed

lemma send_loop_any_short:
  assumes "piece > 0" "0 < k" "list_all send_goes_on as"
  shows "is_opened c \<Longrightarrow> written + length (io_buffer c) = amount \<Longrightarrow> list_all (no_loss piece) before \<Longrightarrow>
    k < min piece (left_after piece before (length (io_buffer c))) \<Longrightarrow>
    \<exists>wire' c'. send_loop piece amount written wire n (before @ Taken k # as) c = Send_suspended wire' c'"
proof (induction before arbitrary: c written wire n)
  case Nil
  then show ?case using send_loop_one [OF Nil(1,2) assms(2) _ assms(3), of piece wire n] by (simp add: left_after_def)
next
  case (Cons a before)
  have "0 < length (io_buffer c)" using Cons.prems(4) by (cases "io_buffer c") (simp_all add: left_after_def)
  then have w: "written < amount" using Cons.prems(2) by linarith
  obtain bytes out b where wr: "write_from_io_buff a piece c = Inr (bytes, out, c\<lparr>io_buffer := b\<rparr>)"
    "nat bytes + length b = length (io_buffer c)"
    "left_after piece before (length b) = left_after piece (a # before) (length (io_buffer c))"
  proof (cases a)
    case (Send_error e)
    then show ?thesis using that [of "-1" "[]" "io_buffer c"] write_would_block [OF Cons.prems(1), of e piece] Cons.prems(3) by (simp add: left_after_def)
  next
    case (Taken j)
    let ?len = "min piece (length (io_buffer c))"
    show ?thesis
    proof (cases "j = 0")
      case True
      then show ?thesis using that [of 0 "[]" "io_buffer c"] write_takes [OF Cons.prems(1) refl refl, of j piece] Taken assms(1)
        by (simp add: left_after_def)
    next
      case False
      then have j: "piece \<le> j" using Cons.prems(3) Taken by simp
      have "k + (piece + piece * length (filter (takes_all piece) before)) < length (io_buffer c)"
        using Cons.prems(4) Taken j by (simp add: left_after_def less_diff_conv)
      then have "piece < length (io_buffer c)" by linarith
      then show ?thesis using that [of "int piece" "take piece (io_buffer c)" "drop piece (io_buffer c)"] j assms(1) Taken
          write_takes [OF Cons.prems(1) refl refl, of j piece] by (simp add: left_after_def)
    qed
  qed
  have "send_loop piece amount written wire n ((a # before) @ Taken k # as) c = (case n of
      0 \<Rightarrow> Send_suspended (wire @ out) (c\<lparr>io_buffer := b\<rparr>)
    | Suc m \<Rightarrow> send_loop piece amount (written + nat bytes) (wire @ out) m (before @ Taken k # as) (c\<lparr>io_buffer := b\<rparr>))"
    using w wr(1) by (subst send_loop.simps) (simp split: nat.split)
  moreover have "\<exists>wire' c'. send_loop piece amount (written + nat bytes) (wire @ out) m (before @ Taken k # as) (c\<lparr>io_buffer := b\<rparr>)
      = Send_suspended wire' c'" for m
    by (rule Cons.IH) (use Cons.prems wr(2,3) in simp_all)
  ultimately show ?case by (cases n) auto
qed

lemma send_text_short:
  assumes "is_opened c" "0 < k" "list_all (no_loss piece) before" "k < min piece (left_after piece before (length t))"
    and "list_all send_goes_on as"
  shows "\<exists>wire c'. send_text piece t n (before @ Taken k # as) c = Send_suspended wire c'"
  using send_loop_any_short [of piece k as "c\<lparr>io_buffer := t\<rparr>" 0 "length t" before "[]" n] assms
  by (simp add: send_text_loop)

lemma send_text_resumes:
  assumes "is_opened c" "piece > 0" "list_all (\<lambda>a. takes_all piece a \<or> (\<exists>e. a = Send_error e \<and> would_block e)) as"
    and "length t \<le> piece * length (filter (takes_all piece) as)" "length as \<le> n"
  shows "\<exists>n' as' c'. send_text piece t n as c = Sent t n' as' c' \<and> n \<le> n' + length as"
  using send_loop_full [of "c\<lparr>io_buffer := t\<rparr>" piece as 0 "length t" n "[]"] assms
  by (simp add: send_text_loop)

lemma send_text_complete:
  assumes "is_opened c" "piece > 0" "list_all (\<lambda>a. takes_all piece a \<or> (\<exists>e. a = Send_error e \<and> would_block e)) as"
    and "length t \<le> piece * length (filter (takes_all piece) as)" "length as \<le> n"
  shows "\<exists>n' as' c'. send_text piece t n as c = Sent t n' as' c'"
  using send_text_resumes [OF assms] by blast

lemma send_http_response_all:
  assumes "is_opened c" "response_to_string hord r = Inr t"
    and "list_all (\<lambda>a. takes_all MAX_WRITE_BYTES_PER_CALL a \<or> (\<exists>e. a = Send_error e \<and> would_block e)) as"
    and "length t \<le> MAX_WRITE_BYTES_PER_CALL * length (filter (takes_all MAX_WRITE_BYTES_PER_CALL) as)"
    and "length as \<le> n"
  shows "\<exists>n' as' c'. send_http_response hord r n as c = Sent t n' as' c' \<and> io_buffer c' = []"
  using send_text_complete [OF assms(1) _ assms(3-5)] assms(2)
  by (auto simp: send_http_response_def MAX_WRITE_BYTES_PER_CALL_def)

text \<open>A small response, for the examples.\<close>

lemma example_response:
  "response_to_string id \<lparr>rs_line = \<lparr>sl_version = V1_0, sl_status = 200\<rparr>, rs_headers = [], rs_body = ''hi'',
     rs_sender = None :: nat option\<rparr> = Inr (''HTTP/1.0 200 OK'' @ newline @ headers_end @ ''hi'')"
proof -
  have "to_dec 200 = ''200''" by (simp add: to_dec.simps digit_char_def)
  then show ?thesis
    by (simp add: response_to_string_def response_line_to_string_def get_http_response_status_text_def
        http_response_status_text_def headers_to_string_def)
qed

section \<open>Properties\<close>

text \<open>
  When every \<open>send\<close> takes all it is offered or would block, and there are enough of them, the
  response goes out exactly as its text, and the buffer is left empty.
\<close>

theorem send_http_response_complete:
  assumes "is_opened c" "response_to_string hord r = Inr t"
    and "list_all (\<lambda>a. takes_all MAX_WRITE_BYTES_PER_CALL a \<or> (\<exists>e. a = Send_error e \<and> would_block e)) as"
    and "length t \<le> MAX_WRITE_BYTES_PER_CALL * length (filter (takes_all MAX_WRITE_BYTES_PER_CALL) as)"
    and "length as \<le> n"
  shows "\<exists>n' as' c'. send_http_response hord r n as c = Sent t n' as' c' \<and> io_buffer c' = []"
  by (rule send_http_response_all [OF assms])

theorem send_http_response_complete_witness:
  "\<exists>n' as' c'. send_http_response id \<lparr>rs_line = \<lparr>sl_version = V1_0, sl_status = 200\<rparr>, rs_headers = [], rs_body = ''hi'',
     rs_sender = None :: nat option\<rparr> 2 [Send_error EAGAIN, Taken 5000] (connection_init \<lparr>d_fd = 5\<rparr>) =
     Sent (''HTTP/1.0 200 OK'' @ newline @ headers_end @ ''hi'') n' as' c' \<and> io_buffer c' = []"
  by (rule send_http_response_complete [OF _ example_response])
    (simp_all add: is_opened_def connection_init_def is_valid_def would_block_def MAX_WRITE_BYTES_PER_CALL_def)

text \<open>
  C33: When the kernel takes some, but not all, of a piece that it is offered, be it the first or a later one, the
  rest of that piece is erased unsent and the loop waits for bytes that are no longer in the buffer: however
  often the routine is resumed, and whatever the kernel accepts later, the response is never finished. The
  sends before took their pieces whole or nothing, and the kernel reports no error but that it would block.
\<close>

theorem send_http_response_short:
  assumes "is_opened c" "response_to_string hord r = Inr t"
    and "list_all (no_loss MAX_WRITE_BYTES_PER_CALL) before"
    and "0 < k" "k < min MAX_WRITE_BYTES_PER_CALL (left_after MAX_WRITE_BYTES_PER_CALL before (length t))"
    and "list_all send_goes_on as"
  shows "\<exists>wire c'. send_http_response hord r n (before @ Taken k # as) c = Send_suspended wire c'"
  using send_text_short [OF assms(1,4,3,5,6), of n] assms(2) by (auto simp: send_http_response_def)

theorem send_http_response_short_witness:
  "\<exists>wire c'. send_http_response id \<lparr>rs_line = \<lparr>sl_version = V1_0, sl_status = 200\<rparr>, rs_headers = [], rs_body = ''hi'',
     rs_sender = None :: nat option\<rparr> 9 [Send_error EAGAIN, Taken 0, Taken 10, Taken 5000, Taken 5000] (connection_init \<lparr>d_fd = 5\<rparr>) =
     Send_suspended wire c'"
  using send_http_response_short [OF _ example_response, of "connection_init \<lparr>d_fd = 5\<rparr>" "[Send_error EAGAIN, Taken 0]" 10 "[Taken 5000, Taken 5000]" 9]
  by (simp add: is_opened_def connection_init_def is_valid_def MAX_WRITE_BYTES_PER_CALL_def would_block_def left_after_def)

text \<open>
  What one write does to the buffer: the bytes that leave it are the sent ones followed by lost
  ones, and nothing is lost exactly when the kernel took all that was offered or nothing.
\<close>

theorem write_from_io_buff_loses:
  assumes "write_from_io_buff a len c = Inr (bytes, sent, c')"
  shows "\<exists>lost. io_buffer c = sent @ lost @ io_buffer c'
    \<and> length sent = nat bytes
    \<and> (lost = [] \<longleftrightarrow> bytes \<le> 0 \<or> bytes = int (min len (length (io_buffer c))))"
proof (cases a)
  case (Taken k)
  define l where "l = min len (length (io_buffer c))"
  define m where "m = min l k"
  have o: "is_opened c" using assms by (auto simp: write_from_io_buff_def connection_write_def Let_def split: if_splits)
  from write_takes [OF o l_def m_def] assms Taken
  have r: "(bytes, sent, c') = (if m = 0 then (0, [], c)
      else (int m, take m (io_buffer c), c\<lparr>io_buffer := drop l (io_buffer c)\<rparr>))"
    by (simp split: if_splits)
  show ?thesis
  proof (cases "m = 0")
    case False
    have "take m (io_buffer c) @ drop m (take l (io_buffer c)) = take l (io_buffer c)"
      using append_take_drop_id [of m "take l (io_buffer c)"] by (simp add: m_def take_take min.commute)
    then have "io_buffer c = take m (io_buffer c) @ drop m (take l (io_buffer c)) @ drop l (io_buffer c)"
      by (metis append.assoc append_take_drop_id)
    moreover have "drop m (take l (io_buffer c)) = [] \<longleftrightarrow> m = l" by (auto simp: l_def m_def)
    moreover have "length (take m (io_buffer c)) = m" by (simp add: l_def m_def)
    ultimately show ?thesis using r False by (intro exI [of _ "drop m (take l (io_buffer c))"]) (simp add: l_def)
  qed (use r in simp)
next
  case (Send_error e)
  with assms show ?thesis
    by (auto simp: write_from_io_buff_def connection_write_def Let_def split: if_splits)
qed

theorem write_from_io_buff_loses_witness:
  "\<exists>lost. ''abcdef'' = ''ab'' @ lost @ ''f'' \<and> lost \<noteq> []"
proof -
  have "write_from_io_buff (Taken 2) 5 ((connection_init \<lparr>d_fd = 5\<rparr>)\<lparr>io_buffer := ''abcdef''\<rparr>) =
      Inr (2, ''ab'', (connection_init \<lparr>d_fd = 5\<rparr>)\<lparr>io_buffer := ''f''\<rparr>)"
    by (subst write_takes [OF _ refl refl]) (simp_all add: is_opened_def connection_init_def is_valid_def)
  from write_from_io_buff_loses [OF this] show ?thesis by auto
qed

end
