(* ===== verification/HttpStatic.thy ===== *)
theory HttpStatic imports HttpSending begin

text \<open>
  \<open>tinyhttp/basic_static_server\<close>: the handler that serves the files below a document root, and the
  sender it leaves in the response for a \<open>GET\<close>. The file system is a parameter: what
  \<open>std::filesystem\<close> answers about a path. \<open>canonical\<close> and \<open>file_size\<close> throw when they have no
  answer. The server asks about one path several times; the answers are taken not to change
  meanwhile.
\<close>

section \<open>MIME types\<close>

definition mime_type_by_extension :: "(string \<times> string) list" where
  "mime_type_by_extension = [
     (''.html'', ''text/html''),
     (''.css'', ''text/css''),
     (''.js'', ''application/javascript''),
     (''.jpg'', ''image/jpeg''),
     (''.jpeg'', ''image/jpeg''),
     (''.png'', ''image/png''),
     (''.gif'', ''image/gif''),
     (''.swf'', ''application/x-shockwave-flash'')]"

definition mime_octet_stream :: string where
  "mime_octet_stream = ''application/octet-stream''"

definition get_mime_type :: "string \<Rightarrow> string" where
  "get_mime_type extension =
     (case map_of mime_type_by_extension extension of None \<Rightarrow> mime_octet_stream | Some t \<Rightarrow> t)"

definition FILE_WRITE_BYTES_PER_CALL :: nat where
  "FILE_WRITE_BYTES_PER_CALL = 16384"

section \<open>Paths and the file system\<close>

definition EACCES :: int where
  "EACCES = 13"

text \<open>\<open>fs::path\<close>: the last component, its extension, and appending a relative component.\<close>

definition path_filename :: "string \<Rightarrow> string" where
  "path_filename p = rev (takeWhile (\<lambda>c. c \<noteq> CHR ''/'') (rev p))"

definition path_extension :: "string \<Rightarrow> string" where
  "path_extension p = (let f = path_filename p; after = takeWhile (\<lambda>c. c \<noteq> CHR ''.'') (rev f) in
     if f = ''.'' \<or> f = ''..'' \<or> CHR ''.'' \<notin> set f \<or> length after + 1 = length f then []
     else ''.'' @ rev after)"

definition path_append :: "string \<Rightarrow> string \<Rightarrow> string" where
  "path_append p s = (if p = [] \<or> last p = CHR ''/'' then p @ s else p @ ''/'' @ s)"

text \<open>\<open>fs_exists\<close> answers with the error code it sets, \<open>0\<close> for none.\<close>

record file_system =
  fs_exists :: "string \<Rightarrow> bool \<times> int"
  fs_canonical :: "string \<Rightarrow> string option"
  fs_is_directory :: "string \<Rightarrow> bool"
  fs_file_size :: "string \<Rightarrow> nat option"

definition filesystem_error :: exn where
  "filesystem_error = std_exn Runtime_error"

section \<open>The handler\<close>

text \<open>What the sender captures: the path of the file and the length announced.\<close>

type_synonym file_sender = "string \<times> nat"

text \<open>The constructor's check of the document root; the base class is \<open>HttpServer\<close>.\<close>

definition BasicStaticServer_root :: "file_system \<Rightarrow> string \<Rightarrow> exn + string" where
  "BasicStaticServer_root fs document_root =
     (case fs_canonical fs document_root of
        None \<Rightarrow> Inl filesystem_error
      | Some document_path \<Rightarrow>
          if \<not> fs_is_directory fs document_path
          then Inl (io_exn (Std Runtime_error) (''document_root='' @ document_path @ '' is not a directory'') 0)
          else Inr document_path)"

text \<open>The file the request names once it exists, is canonical and lies below the root.\<close>

definition serve_file ::
  "file_system \<Rightarrow> string \<Rightarrow> http_method \<Rightarrow> http_version \<Rightarrow> string \<Rightarrow> exn + file_sender http_response" where
  "serve_file fs date meth version file_path =
     (if \<not> fst (fs_exists fs file_path) then
        (if snd (fs_exists fs file_path) \<noteq> 0 \<and> snd (fs_exists fs file_path) = EACCES
         then Inr (HttpResponse date Forbidden version)
         else Inr (HttpResponse date NotFound version))
      else (case fs_file_size fs file_path of
          None \<Rightarrow> Inl filesystem_error
        | Some content_length \<Rightarrow>
            let mime_type = get_mime_type (path_extension file_path);
                response = HttpResponse date OK version;
                headers = headers_emplace hdr_content_length (to_dec content_length) (rs_headers response);
                headers = headers_emplace hdr_content_type mime_type headers;
                response = response\<lparr>rs_headers := headers\<rparr>
            in if meth = HEAD then Inr response
               else Inr (set_sender (file_path, content_length) response)))"

definition on_request ::
  "file_system \<Rightarrow> string \<Rightarrow> string \<Rightarrow> http_request \<Rightarrow> exn + file_sender http_response" where
  "on_request fs date document_root request =
     (let version = rl_version (rq_line request); meth = rl_method (rq_line request) in
      if meth \<noteq> HEAD \<and> meth \<noteq> GET then Inr (HttpResponse date MethodNotAllowed version)
      else
        let file_path = document_root @ rl_url (rq_line request) in
        if \<not> fst (fs_exists fs file_path) then
          (if snd (fs_exists fs file_path) \<noteq> 0 \<and> snd (fs_exists fs file_path) = EACCES
           then Inr (HttpResponse date Forbidden version)
           else Inr (HttpResponse date NotFound version))
        else (case fs_canonical fs file_path of
            None \<Rightarrow> Inl filesystem_error
          | Some file_path \<Rightarrow>
              if sv_find document_root file_path \<noteq> Some 0 then Inr (HttpResponse date BadRequest version)
              else if fs_is_directory fs file_path then
                (let file_path = path_append file_path ''index.html'' in
                 if \<not> fst (fs_exists fs file_path) then
                   (if snd (fs_exists fs file_path) \<noteq> 0
                    then Inr (HttpResponse date InternalServerError version)
                    else Inr (HttpResponse date Forbidden version))
                 else serve_file fs date meth version file_path)
              else serve_file fs date meth version file_path))"

section \<open>The sender\<close>

datatype file_answer = File_taken nat | File_error int string

text \<open>
  The \<open>sendfile\<close> loop. The kernel takes up to a piece from where it stopped in the file, \<open>file\<close> being
  what the file holds then; at its end it takes nothing. Errors, which come with their text, throw but for
  \<open>EAGAIN\<close>.
\<close>

fun sendfile_loop :: "string \<Rightarrow> nat \<Rightarrow> nat \<Rightarrow> nat \<Rightarrow> string \<Rightarrow> nat \<Rightarrow> file_answer list \<Rightarrow> connection \<Rightarrow> send_run" where
  "sendfile_loop file write_size written offset wire n as c =
     (if written < write_size then
        let (a, as') = (case as of [] \<Rightarrow> (File_error EAGAIN [], []) | a # as' \<Rightarrow> (a, as')) in
        (case a of
           File_error err text \<Rightarrow>
             if err \<noteq> EAGAIN then Send_threw (io_exn (Std Runtime_error) (''sendfile error: '' @ text) 0) wire c
             else (case n of 0 \<Rightarrow> Send_suspended wire c
               | Suc m \<Rightarrow> sendfile_loop file write_size written offset wire m as' c)
         | File_taken k \<Rightarrow>
             let bytes = min k (min FILE_WRITE_BYTES_PER_CALL (length file - offset));
                 wire = wire @ take bytes (drop offset file)
             in (case n of 0 \<Rightarrow> Send_suspended wire c
               | Suc m \<Rightarrow> sendfile_loop file write_size (written + bytes) (offset + bytes) wire m as' c))
      else Sent wire n [] c)"

declare sendfile_loop.simps [simp del]

text \<open>
  The lambda: open the file, or turn the response into an error; send the response, then the file.
  \<open>file\<close> is \<open>None\<close> when \<open>open\<close> fails.
\<close>

definition run_file_sender ::
  "(http_headers \<Rightarrow> http_headers) \<Rightarrow> string \<Rightarrow> string option \<Rightarrow> file_sender http_response \<Rightarrow> nat
    \<Rightarrow> nat \<Rightarrow> send_answer list \<Rightarrow> file_answer list \<Rightarrow> connection \<Rightarrow> send_run" where
  "run_file_sender hord date file response content_length n as fas c =
     (let response = (case file of
            Some _ \<Rightarrow> response
          | None \<Rightarrow> (let r = reset_headers date response
              in r\<lparr>rs_line := (rs_line r)\<lparr>sl_status := InternalServerError\<rparr>\<rparr>))
      in case response_to_string hord response of
           Inl e \<Rightarrow> Send_threw e [] (clear_buffer c)
         | Inr t \<Rightarrow>
            (case send_text FILE_WRITE_BYTES_PER_CALL t n as c of
               Sent wire n as c \<Rightarrow>
                 (case file of
                    None \<Rightarrow> Sent wire n as c
                  | Some contents \<Rightarrow> sendfile_loop contents content_length 0 0 wire n fas c)
             | r \<Rightarrow> r))"

section \<open>Lemmas\<close>

lemma sv_find_0: "sv_find p s = Some 0 \<longleftrightarrow> prefix p s"
  by (cases s) auto

lemma HttpResponse_simps [simp]:
  "rs_line (HttpResponse date s v) = \<lparr>sl_version = v, sl_status = s\<rparr>"
  "rs_body (HttpResponse date s v) = []" "rs_sender (HttpResponse date s v) = None"
  by (simp_all add: HttpResponse_def HttpResponseLine_def set_basic_headers_def Let_def)

lemma HttpResponse_no_content:
  "map_of (rs_headers (HttpResponse date s v)) (to_lower hdr_content_length) = None"
  "map_of (rs_headers (HttpResponse date s v)) (to_lower hdr_content_type) = None"
  "to_lower hdr_content_type \<noteq> to_lower hdr_content_length"
  by (simp_all add: HttpResponse_def HttpResponseLine_def set_basic_headers_def Let_def headers_emplace_def
      umap_emplace_def http_simps)

text \<open>Every status the handler answers with has a text, so its responses print.\<close>

lemma handler_status_text:
  "s \<in> {OK, BadRequest, Forbidden, NotFound, MethodNotAllowed, InternalServerError} \<Longrightarrow>
   \<exists>t. get_http_response_status_text s = Inr t"
  by (auto simp: get_http_response_status_text_def http_response_status_text_def OK_def BadRequest_def
      Forbidden_def NotFound_def MethodNotAllowed_def InternalServerError_def)

lemma response_prints:
  assumes "sl_version (rs_line r) \<noteq> Version_unsupported"
    and "sl_status (rs_line r) \<in> {OK, BadRequest, Forbidden, NotFound, MethodNotAllowed, InternalServerError}"
  shows "\<exists>t. response_to_string hord r = Inr t"
  using handler_status_text [OF assms(2)] assms(1)
  by (cases "sl_version (rs_line r)") (auto simp: response_to_string_def response_line_to_string_def)

lemma serve_file_cases:
  assumes "serve_file fs date meth version f = Inr r"
  shows "sl_version (rs_line r) = version \<and> rs_body r = []
    \<and> sl_status (rs_line r) \<in> {OK, Forbidden, NotFound}
    \<and> (case rs_sender r of None \<Rightarrow> meth = HEAD \<or> sl_status (rs_line r) \<noteq> OK
       | Some (g, n) \<Rightarrow> meth \<noteq> HEAD \<and> sl_status (rs_line r) = OK \<and> g = f \<and> fst (fs_exists fs f)
           \<and> fs_file_size fs f = Some n \<and> headers_at (rs_headers r) hdr_content_length = Inr (to_dec n)
           \<and> headers_at (rs_headers r) hdr_content_type = Inr (get_mime_type (path_extension f)))"
  using assms HttpResponse_no_content(3) [symmetric]
  by (auto simp: HttpResponse_no_content serve_file_def Let_def set_sender_def headers_at_lookup hdr.lookup_emplace
      OK_def Forbidden_def NotFound_def split: if_splits option.splits)

text \<open>The \<open>sendfile\<close> loop makes progress with any positive count, and stops at the end of the file.\<close>

fun file_goes_on :: "file_answer \<Rightarrow> bool" where
  "file_goes_on (File_taken k) = True"
| "file_goes_on (File_error e t) = (e = EAGAIN)"

fun file_takes :: "file_answer \<Rightarrow> bool" where
  "file_takes (File_taken k) = (k > 0)"
| "file_takes (File_error e t) = False"

lemma sendfile_loop_complete:
  assumes "list_all file_goes_on as" "offset \<le> length data"
    and "length data - offset \<le> length (filter file_takes as)" "length as \<le> n"
  shows "\<exists>n' c'. sendfile_loop data (length data) offset offset wire n as c = Sent (wire @ drop offset data) n' [] c'"
  using assms
proof (induction as arbitrary: offset wire n)
  case Nil
  then show ?case by (subst sendfile_loop.simps) simp
next
  case (Cons a as)
  show ?case
  proof (cases "offset < length data")
    case False
    with Cons.prems(2) show ?thesis by (subst sendfile_loop.simps) simp
  next
    case True
    obtain m where n: "n = Suc m" using Cons.prems(4) by (cases n) auto
    show ?thesis
    proof (cases a)
      case (File_error e t)
      then have "sendfile_loop data (length data) offset offset wire n (a # as) c =
          sendfile_loop data (length data) offset offset wire m as c"
        using True Cons.prems(1) by (subst sendfile_loop.simps) (simp add: n)
      with Cons.IH [of offset m wire] Cons.prems n File_error show ?thesis by simp
    next
      case (File_taken k)
      define b where "b = min k (min FILE_WRITE_BYTES_PER_CALL (length data - offset))"
      have step: "sendfile_loop data (length data) offset offset wire n (a # as) c =
          sendfile_loop data (length data) (offset + b) (offset + b) (wire @ take b (drop offset data)) m as c"
        using True unfolding b_def by (subst sendfile_loop.simps) (simp add: n File_taken Let_def)
      have b: "offset + b \<le> length data" "k > 0 \<Longrightarrow> b > 0"
        using True by (auto simp: b_def FILE_WRITE_BYTES_PER_CALL_def)
      have "\<exists>n' c'. sendfile_loop data (length data) (offset + b) (offset + b) (wire @ take b (drop offset data)) m as c =
          Sent ((wire @ take b (drop offset data)) @ drop (offset + b) data) n' [] c'"
        by (rule Cons.IH) (use Cons.prems n b File_taken in \<open>auto split: if_splits\<close>)
      moreover have "take b (drop offset data) @ drop (offset + b) data = drop offset data"
        by (metis append_take_drop_id drop_drop add.commute)
      ultimately show ?thesis unfolding step by simp
    qed
  qed
qed

lemma sendfile_loop_truncated:
  "list_all file_goes_on as \<Longrightarrow> offset \<le> length data \<Longrightarrow> length data < amount \<Longrightarrow>
   \<exists>wire' c'. sendfile_loop data amount offset offset wire n as c = Send_suspended wire' c'"
proof (induction n arbitrary: as offset wire)
  case 0
  then show ?case by (subst sendfile_loop.simps) (auto simp: Let_def split: list.split file_answer.split)
next
  case (Suc n)
  obtain a as' where a: "(case as of [] \<Rightarrow> (File_error EAGAIN [], []) | a # as' \<Rightarrow> (a, as')) = (a, as')"
    "file_goes_on a" "list_all file_goes_on as'"
    using Suc.prems(1) by (cases as) auto
  show ?case
  proof (cases a)
    case (File_error e t)
    with Suc a show ?thesis by (subst sendfile_loop.simps) simp
  next
    case (File_taken k)
    with Suc.prems a(1) Suc.IH [OF a(3)] show ?thesis
      by (subst sendfile_loop.simps) (simp add: Let_def)
  qed
qed

lemma run_file_sender_complete:
  assumes "response_to_string hord r = Inr t" "length contents = content_length" "is_opened c"
    and "list_all (\<lambda>a. takes_all FILE_WRITE_BYTES_PER_CALL a) as"
    and "length t \<le> FILE_WRITE_BYTES_PER_CALL * length as"
    and "list_all file_goes_on fas" "content_length \<le> length (filter file_takes fas)"
    and "length as + length fas \<le> n"
  shows "\<exists>n' c'. run_file_sender hord date (Some contents) r content_length n as fas c = Sent (t @ contents) n' [] c'"
proof -
  have f: "filter (takes_all FILE_WRITE_BYTES_PER_CALL) as = as"
    using assms(4) by (simp add: list_all_iff)
  obtain n' as' c' where s: "send_text FILE_WRITE_BYTES_PER_CALL t n as c = Sent t n' as' c'" "n' \<ge> length fas"
    using send_text_resumes [OF assms(3), of FILE_WRITE_BYTES_PER_CALL as t n] assms(4,5,8) f
    by (auto simp: FILE_WRITE_BYTES_PER_CALL_def list_all_iff)
  show ?thesis
    using sendfile_loop_complete [OF assms(6), where offset = 0 and data = contents and wire = t and n = n' and c = c'] s assms(1,2,7)
    by (simp add: run_file_sender_def)
qed

text \<open>A file system with one secret beside the root, and a request, for the examples.\<close>

definition example_fs :: file_system where
  "example_fs = \<lparr>fs_exists = (\<lambda>p. (p \<in> {''/var/www/../www-old/key'', ''/var/www-old/key''}, 0)),
     fs_canonical = (\<lambda>p. if p = ''/var/www/../www-old/key'' then Some ''/var/www-old/key'' else None),
     fs_is_directory = (\<lambda>p. p = ''/var/www''),
     fs_file_size = (\<lambda>p. if p = ''/var/www-old/key'' then Some 3 else None)\<rparr>"

definition example_request :: http_request where
  "example_request = HttpRequest \<lparr>rl_version = V1_0, rl_method = GET, rl_url = ''/../www-old/key'', rl_query = []\<rparr> []"

lemma example_head:
  "response_to_string id \<lparr>rs_line = \<lparr>sl_version = V1_0, sl_status = 200\<rparr>, rs_headers = [], rs_body = [],
     rs_sender = None :: file_sender option\<rparr> = Inr (''HTTP/1.0 200 OK'' @ newline @ headers_end)"
proof -
  have "to_dec 200 = ''200''" by (simp add: to_dec.simps digit_char_def)
  then show ?thesis
    by (simp add: response_to_string_def response_line_to_string_def get_http_response_status_text_def
        http_response_status_text_def headers_to_string_def)
qed

lemma example_served:
  "\<exists>r. on_request example_fs ''now'' ''/var/www'' example_request = Inr r \<and> rs_sender r = Some (''/var/www-old/key'', 3)"
  by (simp add: on_request_def serve_file_def Let_def set_sender_def example_fs_def example_request_def HttpRequest_def)

section \<open>Properties\<close>

text \<open>
  C25: Whatever the request, a response that will send a file is a 200 to a \<open>GET\<close>, and the file is
  the canonical form of the requested path, which has the document root as a string prefix, or the
  \<open>index.html\<close> in the directory that form names; \<open>Content-Length\<close> and \<open>Content-Type\<close> are those of
  this file.
\<close>

theorem static_served_below_root:
  assumes "on_request fs date root request = Inr r" "rs_sender r = Some (f, n)"
  shows "rl_method (rq_line request) = GET \<and> sl_status (rs_line r) = OK
    \<and> (\<exists>g. fs_canonical fs (root @ rl_url (rq_line request)) = Some g \<and> prefix root g
        \<and> (if fs_is_directory fs g then f = path_append g ''index.html'' else f = g))
    \<and> fst (fs_exists fs f) \<and> fs_file_size fs f = Some n
    \<and> headers_at (rs_headers r) hdr_content_length = Inr (to_dec n)
    \<and> headers_at (rs_headers r) hdr_content_type = Inr (get_mime_type (path_extension f))"
proof -
  have served: "\<exists>g f'. fs_canonical fs (root @ rl_url (rq_line request)) = Some g \<and> prefix root g
      \<and> f' = (if fs_is_directory fs g then path_append g ''index.html'' else g)
      \<and> serve_file fs date (rl_method (rq_line request)) (rl_version (rq_line request)) f' = Inr r
      \<and> rl_method (rq_line request) \<in> {GET, HEAD}"
    using assms by (auto simp: on_request_def Let_def sv_find_0 split: if_splits option.splits)
  then obtain g f' where g: "fs_canonical fs (root @ rl_url (rq_line request)) = Some g" "prefix root g"
    "f' = (if fs_is_directory fs g then path_append g ''index.html'' else g)"
    "rl_method (rq_line request) \<in> {GET, HEAD}"
    and sf: "serve_file fs date (rl_method (rq_line request)) (rl_version (rq_line request)) f' = Inr r" by blast
  from serve_file_cases [OF sf] assms(2) g show ?thesis by (auto split: if_splits)
qed

theorem static_served_below_root_witness:
  "\<exists>r. on_request example_fs ''now'' ''/var/www'' example_request = Inr r \<and> sl_status (rs_line r) = OK
    \<and> headers_at (rs_headers r) hdr_content_length = Inr (to_dec 3)"
proof -
  obtain r where r: "on_request example_fs ''now'' ''/var/www'' example_request = Inr r"
    "rs_sender r = Some (''/var/www-old/key'', 3)" using example_served by blast
  from static_served_below_root [OF r] r(1) show ?thesis by blast
qed

text \<open>
  The handler answers, unless the file system fails under it, with one of six statuses and an
  empty body; other methods than \<open>GET\<close> and \<open>HEAD\<close> get a 405; only a 200 to a \<open>GET\<close> has a sender; and
  every answer to a request the parser accepted can be printed.
\<close>

theorem static_responses:
  assumes "on_request fs date root request = Inr r" "rl_version (rq_line request) \<noteq> Version_unsupported"
  shows "sl_version (rs_line r) = rl_version (rq_line request) \<and> rs_body r = []
    \<and> sl_status (rs_line r) \<in> {OK, BadRequest, Forbidden, NotFound, MethodNotAllowed, InternalServerError}
    \<and> (rl_method (rq_line request) \<notin> {GET, HEAD} \<longrightarrow> sl_status (rs_line r) = MethodNotAllowed)
    \<and> (rs_sender r \<noteq> None \<longleftrightarrow> rl_method (rq_line request) = GET \<and> sl_status (rs_line r) = OK)
    \<and> (\<exists>t. response_to_string hord r = Inr t)"
proof -
  let ?m = "rl_method (rq_line request)" and ?v = "rl_version (rq_line request)"
  have s: "sl_version (rs_line r) = ?v \<and> rs_body r = []
    \<and> sl_status (rs_line r) \<in> {OK, BadRequest, Forbidden, NotFound, MethodNotAllowed, InternalServerError}
    \<and> (?m \<notin> {GET, HEAD} \<longrightarrow> sl_status (rs_line r) = MethodNotAllowed)
    \<and> (rs_sender r \<noteq> None \<longleftrightarrow> ?m = GET \<and> sl_status (rs_line r) = OK)"
  proof (cases "\<exists>f. serve_file fs date ?m ?v f = Inr r \<and> ?m \<in> {GET, HEAD}")
    case True
    then obtain f where f: "serve_file fs date ?m ?v f = Inr r" "?m \<in> {GET, HEAD}" by blast
    from serve_file_cases [OF f(1)] f(2) show ?thesis by (auto split: option.splits)
  next
    case False
    then have "\<exists>st. r = HttpResponse date st ?v \<and> (?m \<notin> {GET, HEAD} \<longrightarrow> st = MethodNotAllowed)
        \<and> st \<in> {BadRequest, Forbidden, NotFound, MethodNotAllowed, InternalServerError}"
      using assms(1) by (auto simp: on_request_def Let_def split: if_splits option.splits)
    then show ?thesis using distinct_status_values
      by (auto simp: OK_def BadRequest_def Forbidden_def NotFound_def MethodNotAllowed_def InternalServerError_def)
  qed
  with response_prints [of r hord] assms(2) show ?thesis by simp
qed

theorem static_responses_witness:
  "\<exists>r t. on_request example_fs ''now'' ''/var/www'' example_request = Inr r \<and> response_to_string id r = Inr t"
proof -
  obtain r where r: "on_request example_fs ''now'' ''/var/www'' example_request = Inr r"
    using example_served by blast
  have "rl_version (rq_line example_request) \<noteq> Version_unsupported" by (simp add: example_request_def HttpRequest_def)
  from static_responses [OF r this, of id] r show ?thesis by blast
qed

text \<open>
  The check against the root is on strings, not on path components: a request whose path
  resolves to a file whose name merely starts with the name of the root is served, so a sibling
  directory such as \<open>/var/www-old\<close> of a root \<open>/var/www\<close> can be read through \<open>/../www-old/\<close>.
\<close>

theorem static_serves_sibling:
  assumes "rl_method (rq_line request) = GET" "fst (fs_exists fs (root @ rl_url (rq_line request)))"
    and "fs_canonical fs (root @ rl_url (rq_line request)) = Some (root @ rest)"
    and "\<not> fs_is_directory fs (root @ rest)" "fst (fs_exists fs (root @ rest))"
    and "fs_file_size fs (root @ rest) = Some n"
  shows "\<exists>r. on_request fs date root request = Inr r \<and> rs_sender r = Some (root @ rest, n)"
proof -
  have "sv_find root (root @ rest) = Some 0" by (simp add: sv_find_0)
  then show ?thesis using assms by (simp add: on_request_def serve_file_def Let_def set_sender_def)
qed

theorem static_serves_sibling_witness:
  "\<exists>r. on_request example_fs ''now'' ''/var/www'' example_request = Inr r \<and> rs_sender r = Some (''/var/www-old/key'', 3)"
  using static_serves_sibling [of example_request example_fs "''/var/www''" "''-old/key''" 3 "''now''"]
  by (simp add: example_fs_def example_request_def HttpRequest_def)

text \<open>
  The sender of a \<open>GET\<close> puts exactly the printed response and the contents of the file on the
  wire, when the file still has the announced length, the header text goes out without short sends,
  and \<open>sendfile\<close> takes something often enough, in pieces of any size.
\<close>

theorem static_file_sent:
  assumes "response_to_string hord r = Inr t" "length contents = content_length" "is_opened c"
    and "list_all (\<lambda>a. takes_all FILE_WRITE_BYTES_PER_CALL a) as"
    and "length t \<le> FILE_WRITE_BYTES_PER_CALL * length as"
    and "list_all file_goes_on fas" "content_length \<le> length (filter file_takes fas)"
    and "length as + length fas \<le> n"
  shows "\<exists>n' c'. run_file_sender hord date (Some contents) r content_length n as fas c = Sent (t @ contents) n' [] c'"
  by (rule run_file_sender_complete [OF assms])

theorem static_file_sent_witness:
  "\<exists>n' c'. run_file_sender id ''now'' (Some ''abc'') \<lparr>rs_line = \<lparr>sl_version = V1_0, sl_status = 200\<rparr>, rs_headers = [],
      rs_body = [], rs_sender = None\<rparr> 3 5 [Taken 20000] [File_taken 1, File_error EAGAIN ''again'', File_taken 1, File_taken 9]
      (connection_init \<lparr>d_fd = 5\<rparr>) = Sent ((''HTTP/1.0 200 OK'' @ newline @ headers_end) @ ''abc'') n' [] c'"
  by (rule static_file_sent [OF example_head])
    (simp_all add: is_opened_def connection_init_def is_valid_def FILE_WRITE_BYTES_PER_CALL_def)

text \<open>
  When the file became shorter than announced, the sender never finishes: \<open>sendfile\<close> takes
  nothing at the end of the file and the loop goes on for ever.
\<close>

theorem static_truncated_file:
  assumes "response_to_string hord r = Inr t" "length contents < content_length" "is_opened c"
    and "send_text FILE_WRITE_BYTES_PER_CALL t n as c = Sent t n' as' c'" "list_all file_goes_on fas"
  shows "\<exists>wire c'. run_file_sender hord date (Some contents) r content_length n as fas c = Send_suspended wire c'"
  using sendfile_loop_truncated [OF assms(5) _ assms(2), where offset = 0 and wire = t and n = n' and c = c'] assms(1,4)
  by (simp add: run_file_sender_def)

theorem static_truncated_file_witness:
  "\<exists>wire c'. run_file_sender id ''now'' (Some ''ab'') \<lparr>rs_line = \<lparr>sl_version = V1_0, sl_status = 200\<rparr>, rs_headers = [],
      rs_body = [], rs_sender = None\<rparr> 3 5 [Taken 20000] [File_taken 9, File_taken 9] (connection_init \<lparr>d_fd = 5\<rparr>) =
      Send_suspended wire c'"
proof -
  let ?t = "''HTTP/1.0 200 OK'' @ newline @ headers_end" and ?c = "connection_init \<lparr>d_fd = 5\<rparr>"
  have o: "is_opened ?c" by (simp add: is_opened_def connection_init_def is_valid_def)
  then obtain n' as' c' where s: "send_text FILE_WRITE_BYTES_PER_CALL ?t 5 [Taken 20000] ?c = Sent ?t n' as' c'"
    using send_text_complete [of ?c FILE_WRITE_BYTES_PER_CALL "[Taken 20000]" ?t 5]
    by (auto simp: FILE_WRITE_BYTES_PER_CALL_def)
  show ?thesis by (rule static_truncated_file [OF example_head _ o s]) simp_all
qed

end
