(* ===== verification/Coroutines.thy ===== *)
theory Coroutines imports HttpErrors begin

text \<open>
  \<open>lib/coroutine\<close>: stackful coroutines on \<open>ucontext\<close>. The ordinator of a thread keeps the active
  routines by number, a free list of finished ones whose nodes (and stacks) are reused, the number
  of the running routine, and the bound of the free list. The body of a routine is what it does
  between its switches: a context switch to it runs a slice, to the next \<open>yield\<close> or to the end.
\<close>

section \<open>Bodies\<close>

text \<open>
  A slice ends by returning, by an exception, or in a \<open>yield\<close>, which either returns or throws the
  exception the routine was killed with; before, it may create routines and ask for its number.
  A body may go on for ever, a slice may not. Bodies that call \<open>resume\<close>, \<open>kill\<close> or
  \<open>set_freelist_max_size\<close> themselves are left out: the library keeps one context to switch back to,
  which a switch from inside a routine overwrites (\<open>nested_switch_loses_main\<close> below), so these operations
  are for the code outside of all routines, which is where the server calls them.
\<close>

datatype 'b slice =
    Ret
  | Thr exn
  | Yld "exn option \<Rightarrow> 'b"
  | Cre nat 'b "'b slice"
  | Cur "nat \<Rightarrow> 'b slice"

codatatype body = Body (slice_of: "body slice")

section \<open>State\<close>

text \<open>What the saved context of a routine will do when it is switched to.\<close>

datatype saved_context = Fresh | At_yield "exn option \<Rightarrow> body"

record routine =
  r_func :: "body option"
  r_ctx :: saved_context
  r_finished :: bool
  r_exception :: "exn option"

text \<open>A free list entry is a node handle, \<open>None\<close> an empty one.\<close>

record ordinator =
  routines :: "nat \<Rightarrow> routine option"
  finished :: "routine option list"
  current_id :: nat
  freelist_max_size :: int

definition Ordinator :: ordinator where
  "Ordinator = \<lparr>routines = (\<lambda>_. None), finished = [], current_id = 0, freelist_max_size = -1\<rparr>"

definition Routine :: "body option \<Rightarrow> routine" where
  "Routine f = \<lparr>r_func = f, r_ctx = Fresh, r_finished = False, r_exception = None\<rparr>"

definition routine_reset :: "body option \<Rightarrow> routine \<Rightarrow> routine" where
  "routine_reset f r = r\<lparr>r_func := f, r_finished := False, r_exception := None, r_ctx := Fresh\<rparr>"

datatype coroutine_status = NONE | ERROR | AGAIN | FINISHED

text \<open>Operations return, throw, or have undefined behaviour: a node handle is used that is empty.\<close>

datatype 'a outcome = Returns 'a | Throws exn | Undefined

section \<open>Operations\<close>

definition create :: "nat \<Rightarrow> body option \<Rightarrow> ordinator \<Rightarrow> nat outcome \<times> ordinator" where
  "create i f ord =
     (if finished ord = [] then
        (Returns i, if routines ord i = None then ord\<lparr>routines := (routines ord)(i \<mapsto> Routine f)\<rparr> else ord)
      else
        let node = last (finished ord); ord = ord\<lparr>finished := butlast (finished ord)\<rparr> in
        case node of
          None \<Rightarrow> (Undefined, ord)
        | Some r \<Rightarrow>
            (Returns i, if routines ord i = None
              then ord\<lparr>routines := (routines ord)(i \<mapsto> routine_reset f r)\<rparr> else ord))"

datatype slice_end = Ended "exn option" | Yielded "exn option \<Rightarrow> body" | Slice_undefined

primrec run_slice :: "body slice \<Rightarrow> ordinator \<Rightarrow> slice_end \<times> ordinator" where
  "run_slice Ret ord = (Ended None, ord)"
| "run_slice (Thr e) ord = (Ended (Some e), ord)"
| "run_slice (Yld k) ord = (Yielded k, ord)"
| "run_slice (Cre i b s) ord = (case create i (Some b) ord of
     (Undefined, ord) \<Rightarrow> (Slice_undefined, ord) | (_, ord) \<Rightarrow> run_slice s ord)"
| "run_slice (Cur f) ord = run_slice (f (current_id ord)) ord"

definition set_routine :: "nat \<Rightarrow> (routine \<Rightarrow> routine) \<Rightarrow> ordinator \<Rightarrow> ordinator" where
  "set_routine i f ord = ord\<lparr>routines := (routines ord)(i := map_option f (routines ord i))\<rparr>"

text \<open>
  The switch to a routine and back: \<open>entry\<close> when it is fresh, otherwise the return from \<open>yield\<close>. A
  \<open>yield\<close> stores the context and clears the current number; the end of \<open>entry\<close> marks the routine
  finished.
\<close>

definition switch_to :: "nat \<Rightarrow> routine \<Rightarrow> ordinator \<Rightarrow> bool \<times> ordinator" where
  "switch_to i r ord =
     (let (e, ord) =
        (case r_ctx r of
           Fresh \<Rightarrow>
             (case r_func r of
                Some b \<Rightarrow> if r_exception r = None then run_slice (slice_of b) ord else (Ended None, ord)
              | None \<Rightarrow> (Ended None, ord))
         | At_yield k \<Rightarrow> run_slice (slice_of (k (r_exception r))) ord)
      in case e of
           Slice_undefined \<Rightarrow> (False, ord)
         | Yielded k \<Rightarrow> (True, (set_routine i (\<lambda>r. r\<lparr>r_ctx := At_yield k\<rparr>) ord)\<lparr>current_id := 0\<rparr>)
         | Ended x \<Rightarrow> (True, (set_routine i (\<lambda>r. r\<lparr>r_exception := (case x of None \<Rightarrow> r_exception r | Some e \<Rightarrow> Some e),
             r_finished := True\<rparr>) ord)\<lparr>current_id := 0\<rparr>))"

text \<open>\<open>swapped\<close> tells whether \<open>swapcontext\<close> succeeded.\<close>

definition resume :: "bool \<Rightarrow> nat \<Rightarrow> ordinator \<Rightarrow> coroutine_status outcome \<times> ordinator" where
  "resume swapped i ord =
     (if i = 0 then (Returns NONE, ord)
      else case routines ord i of
        None \<Rightarrow> (Throws (std_exn Out_of_range), ord)
      | Some r \<Rightarrow>
          if r_finished r then (Returns NONE, ord)
          else let ord = ord\<lparr>current_id := i\<rparr> in
            if \<not> swapped then (Returns ERROR, ord\<lparr>current_id := 0\<rparr>)
            else case switch_to i r ord of
              (False, ord) \<Rightarrow> (Undefined, ord)
            | (True, ord) \<Rightarrow>
                (case routines ord i of
                   None \<Rightarrow> (Undefined, ord)
                 | Some r \<Rightarrow>
                     if r_finished r then
                       let ord = ord\<lparr>routines := (routines ord)(i := None)\<rparr>;
                           ord = (if freelist_max_size ord < 0 \<or> length (finished ord) < nat (freelist_max_size ord)
                             then ord\<lparr>finished := finished ord @ [Some r]\<rparr> else ord)
                       in (case r_exception r of Some e \<Rightarrow> Throws e | None \<Rightarrow> Returns FINISHED, ord)
                     else (Returns AGAIN, ord)))"

definition kill :: "bool \<Rightarrow> nat \<Rightarrow> exn option \<Rightarrow> ordinator \<Rightarrow> unit outcome \<times> ordinator" where
  "kill swapped i ptr ord =
     (if i = 0 then (Throws (std_exn Invalid_argument), ord)
      else case ptr of
        None \<Rightarrow> (Throws (std_exn Invalid_argument), ord)
      | Some e \<Rightarrow>
          (case routines ord i of
             None \<Rightarrow> (Throws (std_exn Out_of_range), ord)
           | Some r \<Rightarrow>
               if r_finished r then (Throws (std_exn Logic_error), ord)
               else let ord = set_routine i (\<lambda>r. r\<lparr>r_exception := Some e\<rparr>) ord in
                 (case resume swapped i ord of
                    (Throws x, ord) \<Rightarrow> (Throws x, ord)
                  | (Undefined, ord) \<Rightarrow> (Undefined, ord)
                  | (Returns _, ord) \<Rightarrow> (Throws (std_exn Logic_error), ord))))"

definition current :: "ordinator \<Rightarrow> nat" where
  "current ord = current_id ord"

text \<open>\<open>deque::resize\<close> cuts at the back or pads with default-constructed, that is empty, handles.\<close>

definition deque_resize :: "nat \<Rightarrow> 'a option list \<Rightarrow> 'a option list" where
  "deque_resize n xs = take n xs @ replicate (n - length xs) None"

definition set_freelist_max_size :: "int \<Rightarrow> ordinator \<Rightarrow> ordinator" where
  "set_freelist_max_size new_size ord =
     (let ord = ord\<lparr>freelist_max_size := new_size\<rparr> in
      if new_size \<ge> 0 then ord\<lparr>finished := deque_resize (nat new_size) (finished ord)\<rparr> else ord)"

section \<open>Programs of operations\<close>

datatype ord_op = Create nat "body option" | Resume bool nat | Kill bool nat "exn option" | Set_max int

datatype op_result = R_id "nat outcome" | R_status "coroutine_status outcome" | R_unit "unit outcome"

primrec run_op :: "ord_op \<Rightarrow> ordinator \<Rightarrow> op_result \<times> ordinator" where
  "run_op (Create i f) ord = (case create i f ord of (r, ord) \<Rightarrow> (R_id r, ord))"
| "run_op (Resume sw i) ord = (case resume sw i ord of (r, ord) \<Rightarrow> (R_status r, ord))"
| "run_op (Kill sw i p) ord = (case kill sw i p ord of (r, ord) \<Rightarrow> (R_unit r, ord))"
| "run_op (Set_max n) ord = (R_unit (Returns ()), set_freelist_max_size n ord)"

primrec run_ops :: "ord_op list \<Rightarrow> ordinator \<Rightarrow> op_result list \<times> ordinator" where
  "run_ops [] ord = ([], ord)"
| "run_ops (p # ps) ord = (case run_op p ord of (r, ord) \<Rightarrow> (case run_ops ps ord of (rs, ord) \<Rightarrow> (r # rs, ord)))"

fun is_undefined :: "op_result \<Rightarrow> bool" where
  "is_undefined (R_id r) = (r = Undefined)"
| "is_undefined (R_status r) = (r = Undefined)"
| "is_undefined (R_unit r) = (r = Undefined)"

section \<open>Invariants\<close>

text \<open>While a slice runs, and between operations.\<close>

definition slice_inv :: "ordinator \<Rightarrow> bool" where
  "slice_inv ord \<longleftrightarrow> (\<forall>i r. routines ord i = Some r \<longrightarrow> \<not> r_finished r) \<and> None \<notin> set (finished ord)
     \<and> (freelist_max_size ord \<ge> 0 \<longrightarrow> length (finished ord) \<le> nat (freelist_max_size ord))"

definition ord_inv :: "ordinator \<Rightarrow> bool" where
  "ord_inv ord \<longleftrightarrow> slice_inv ord \<and> current_id ord = 0"

lemma routine_reset_eq [simp]: "routine_reset f r = Routine f"
  by (simp add: routine_reset_def Routine_def)

text \<open>With no empty handle in the free list, creation does the same whether or not it reuses a node.\<close>

lemma create_eq:
  assumes "None \<notin> set (finished ord)"
  shows "create i f ord = (Returns i, ord\<lparr>finished := butlast (finished ord),
    routines := (if routines ord i = None then (routines ord)(i \<mapsto> Routine f) else routines ord)\<rparr>)"
proof (cases "finished ord = []")
  case False
  then have "last (finished ord) \<in> set (finished ord)" by simp
  with assms obtain r where "last (finished ord) = Some r" by (cases "last (finished ord)") auto
  with False show ?thesis by (simp add: create_def Let_def)
qed (simp add: create_def)

lemma in_set_butlast: "x \<notin> set xs \<Longrightarrow> x \<notin> set (butlast xs)"
  using in_set_butlastD by fast

lemma run_slice_inv:
  "slice_inv ord \<Longrightarrow> run_slice s ord = (e, ord') \<Longrightarrow> e \<noteq> Slice_undefined \<and> slice_inv ord'
     \<and> current_id ord' = current_id ord \<and> freelist_max_size ord' = freelist_max_size ord
     \<and> (\<forall>i r. routines ord i = Some r \<longrightarrow> routines ord' i = Some r)"
proof (induction s arbitrary: ord)
  case (Cre i b s)
  then have n: "None \<notin> set (finished ord)" by (simp add: slice_inv_def)
  let ?ord = "ord\<lparr>finished := butlast (finished ord),
    routines := (if routines ord i = None then (routines ord)(i \<mapsto> Routine (Some b)) else routines ord)\<rparr>"
  have "run_slice s ?ord = (e, ord')" using Cre.prems(2) by (simp add: create_eq [OF n])
  moreover have "slice_inv ?ord" using Cre.prems(1) n
    by (auto simp: slice_inv_def Routine_def in_set_butlast)
  moreover have "routines ord ia = Some r \<Longrightarrow> routines ?ord ia = Some r" for ia r by auto
  ultimately show ?case using Cre.IH [of ?ord] by simp
qed (auto split: if_splits)

text \<open>What one switch does, from a state with the invariant.\<close>

definition entered :: "nat \<Rightarrow> routine \<Rightarrow> ordinator \<Rightarrow> slice_end \<times> ordinator" where
  "entered i r ord = (case r_ctx r of
       Fresh \<Rightarrow> (case r_func r of
           Some b \<Rightarrow> if r_exception r = None then run_slice (slice_of b) ord else (Ended None, ord)
         | None \<Rightarrow> (Ended None, ord))
     | At_yield k \<Rightarrow> run_slice (slice_of (k (r_exception r))) ord)"

lemma entered_inv:
  "slice_inv ord \<Longrightarrow> entered i r ord = (e, ord') \<Longrightarrow> e \<noteq> Slice_undefined \<and> slice_inv ord'
     \<and> current_id ord' = current_id ord \<and> freelist_max_size ord' = freelist_max_size ord
     \<and> (\<forall>i r. routines ord i = Some r \<longrightarrow> routines ord' i = Some r)"
  by (auto simp: entered_def dest: run_slice_inv split: saved_context.splits option.splits if_splits)

lemma resume_eq:
  assumes "slice_inv ord" "i \<noteq> 0" "routines ord i = Some r"
    and "entered i r (ord\<lparr>current_id := i\<rparr>) = (e, ord')"
  shows "resume True i ord = (case e of
      Yielded k \<Rightarrow> (Returns AGAIN, ord'\<lparr>routines := (routines ord')(i \<mapsto> r\<lparr>r_ctx := At_yield k\<rparr>), current_id := 0\<rparr>)
    | Ended x \<Rightarrow> (let r' = r\<lparr>r_exception := (case x of None \<Rightarrow> r_exception r | Some e \<Rightarrow> Some e), r_finished := True\<rparr> in
        (case r_exception r' of Some e \<Rightarrow> Throws e | None \<Rightarrow> Returns FINISHED,
         ord'\<lparr>routines := (routines ord')(i := None), current_id := 0,
           finished := (if freelist_max_size ord < 0 \<or> length (finished ord') < nat (freelist_max_size ord)
             then finished ord' @ [Some r'] else finished ord')\<rparr>)))"
proof -
  have inv: "slice_inv (ord\<lparr>current_id := i\<rparr>)" using assms(1) by (simp add: slice_inv_def)
  from entered_inv [OF inv assms(4)] assms(3)
  have o': "e \<noteq> Slice_undefined" "freelist_max_size ord' = freelist_max_size ord" "routines ord' i = Some r" by auto
  have nf: "\<not> r_finished r" using assms(1,3) by (auto simp: slice_inv_def)
  have sw: "switch_to i r (ord\<lparr>current_id := i\<rparr>) = (case e of
           Slice_undefined \<Rightarrow> (False, ord')
         | Yielded k \<Rightarrow> (True, (set_routine i (\<lambda>r. r\<lparr>r_ctx := At_yield k\<rparr>) ord')\<lparr>current_id := 0\<rparr>)
         | Ended x \<Rightarrow> (True, (set_routine i (\<lambda>r. r\<lparr>r_exception := (case x of None \<Rightarrow> r_exception r | Some e \<Rightarrow> Some e),
             r_finished := True\<rparr>) ord')\<lparr>current_id := 0\<rparr>))"
    using assms(4) by (simp add: switch_to_def entered_def)
  show ?thesis using assms(2,3) nf o' by (cases e) (simp_all add: resume_def sw set_routine_def Let_def)
qed

lemma resume_inv:
  assumes "ord_inv ord" "resume sw i ord = (out, ord')"
  shows "out \<noteq> Undefined \<and> ord_inv ord'"
proof (cases "i = 0 \<or> routines ord i = None \<or> \<not> sw")
  case True
  with assms show ?thesis
    by (auto simp: resume_def ord_inv_def slice_inv_def Let_def split: option.splits if_splits)
next
  case False
  then obtain r where r: "i \<noteq> 0" "routines ord i = Some r" "sw" by auto
  obtain e ord1 where e: "entered i r (ord\<lparr>current_id := i\<rparr>) = (e, ord1)" by (cases "entered i r (ord\<lparr>current_id := i\<rparr>)") auto
  have inv: "slice_inv ord" "slice_inv (ord\<lparr>current_id := i\<rparr>)" using assms(1) by (simp_all add: ord_inv_def slice_inv_def)
  from entered_inv [OF inv(2) e]
  have o1: "e \<noteq> Slice_undefined" "slice_inv ord1" "freelist_max_size ord1 = freelist_max_size ord" by auto
  have nf: "\<not> r_finished r" using inv(1) r(2) by (auto simp: slice_inv_def)
  show ?thesis using resume_eq [OF inv(1) r(1,2) e] assms(2) o1 r(3) nf
    by (cases e) (auto simp: ord_inv_def slice_inv_def Let_def split: option.splits if_splits)
qed

lemma kill_inv:
  assumes "ord_inv ord" "kill sw i p ord = (out, ord')"
  shows "out \<noteq> Undefined \<and> ord_inv ord'"
proof -
  have "ord_inv (set_routine i (\<lambda>r. r\<lparr>r_exception := Some e\<rparr>) ord)" for e
    using assms(1) by (auto simp: ord_inv_def slice_inv_def set_routine_def)
  with assms show ?thesis
    by (auto simp: kill_def Let_def split: option.splits if_splits outcome.splits prod.splits dest: resume_inv)
qed

lemma create_inv: "ord_inv ord \<Longrightarrow> create i f ord = (out, ord') \<Longrightarrow> out \<noteq> Undefined \<and> ord_inv ord'"
  by (auto simp: ord_inv_def slice_inv_def create_eq Routine_def in_set_butlast split: if_splits)

section \<open>The free list does not show\<close>

definition same_routines :: "ordinator \<Rightarrow> ordinator \<Rightarrow> bool" where
  "same_routines a b \<longleftrightarrow> routines a = routines b \<and> current_id a = current_id b"

definition created :: "nat \<Rightarrow> body option \<Rightarrow> ordinator \<Rightarrow> ordinator" where
  "created i f ord = ord\<lparr>finished := butlast (finished ord),
     routines := (if routines ord i = None then (routines ord)(i \<mapsto> Routine f) else routines ord)\<rparr>"

lemma create_created: "slice_inv ord \<Longrightarrow> create i f ord = (Returns i, created i f ord)"
  by (simp add: created_def slice_inv_def create_eq)

lemma created_inv: "slice_inv ord \<Longrightarrow> slice_inv (created i f ord)"
  by (auto simp: created_def slice_inv_def Routine_def in_set_butlast)

lemma created_same: "same_routines a b \<Longrightarrow> same_routines (created i f a) (created i f b)"
  by (simp add: same_routines_def created_def)

lemma run_slice_same:
  "slice_inv a \<Longrightarrow> slice_inv b \<Longrightarrow> same_routines a b \<Longrightarrow>
   fst (run_slice s a) = fst (run_slice s b) \<and> same_routines (snd (run_slice s a)) (snd (run_slice s b))"
proof (induction s arbitrary: a b)
  case (Cre i f s)
  from Cre.IH [OF created_inv created_inv created_same, OF Cre.prems] show ?case
    by (simp add: create_created Cre.prems)
next
  case (Cur f)
  from Cur.IH [OF rangeI Cur.prems, of "current_id a"] Cur.prems(3) show ?case by (simp add: same_routines_def)
qed simp_all

lemma entered_same:
  "slice_inv a \<Longrightarrow> slice_inv b \<Longrightarrow> same_routines a b \<Longrightarrow>
   fst (entered i r a) = fst (entered i r b) \<and> same_routines (snd (entered i r a)) (snd (entered i r b))"
  by (auto simp: entered_def run_slice_same split: saved_context.splits option.splits)

lemma resume_same:
  assumes "ord_inv a" "ord_inv b" "same_routines a b"
  shows "fst (resume sw i a) = fst (resume sw i b) \<and> same_routines (snd (resume sw i a)) (snd (resume sw i b))"
proof (cases "i = 0 \<or> routines a i = None \<or> \<not> sw")
  case True
  with assms show ?thesis by (auto simp: resume_def same_routines_def Let_def split: option.splits)
next
  case False
  then obtain r where r: "i \<noteq> 0" "routines a i = Some r" "sw" by auto
  have rb: "routines b i = Some r" using r assms(3) by (simp add: same_routines_def)
  let ?a = "a\<lparr>current_id := i\<rparr>" and ?b = "b\<lparr>current_id := i\<rparr>"
  have inv: "slice_inv a" "slice_inv b" "slice_inv ?a" "slice_inv ?b" "same_routines ?a ?b"
    using assms by (simp_all add: ord_inv_def slice_inv_def same_routines_def)
  from entered_same [OF inv(3-5), of i r]
  obtain e a' b' where e: "entered i r ?a = (e, a')" "entered i r ?b = (e, b')" "same_routines a' b'"
    by (cases "entered i r ?a"; cases "entered i r ?b") auto
  show ?thesis
    using resume_eq [OF inv(1) r(1,2) e(1)] resume_eq [OF inv(2) r(1) rb e(2)] e(3) r(3) entered_inv [OF inv(3) e(1)]
    by (cases e) (auto simp: same_routines_def Let_def)
qed

lemma run_op_same:
  assumes "ord_inv a" "ord_inv b" "same_routines a b"
  shows "fst (run_op p a) = fst (run_op p b) \<and> same_routines (snd (run_op p a)) (snd (run_op p b))"
proof (cases p)
  case (Create i f)
  have "None \<notin> set (finished a)" "None \<notin> set (finished b)" using assms by (simp_all add: ord_inv_def slice_inv_def)
  with assms(3) Create show ?thesis by (simp add: create_eq same_routines_def)
next
  case (Resume sw i)
  with resume_same [OF assms(1-3), of sw i] show ?thesis by (simp add: split_beta)
next
  case (Kill sw i q)
  have "ord_inv (set_routine i (\<lambda>r. r\<lparr>r_exception := Some e\<rparr>) a)" "ord_inv (set_routine i (\<lambda>r. r\<lparr>r_exception := Some e\<rparr>) b)"
    "same_routines (set_routine i (\<lambda>r. r\<lparr>r_exception := Some e\<rparr>) a) (set_routine i (\<lambda>r. r\<lparr>r_exception := Some e\<rparr>) b)" for e
    using assms by (auto simp: ord_inv_def slice_inv_def set_routine_def same_routines_def)
  from resume_same [OF this, where sw = sw and i = i] assms(3) Kill show ?thesis
    by (auto simp: kill_def same_routines_def Let_def split_beta split: option.splits outcome.splits)
qed (use assms(3) in \<open>simp add: set_freelist_max_size_def same_routines_def Let_def\<close>)

lemma run_op_inv:
  assumes "ord_inv a" "\<forall>n. p = Set_max n \<longrightarrow> n \<le> int (length (finished a))"
  shows "\<not> is_undefined (fst (run_op p a)) \<and> ord_inv (snd (run_op p a))"
proof (cases p)
  case (Create i f)
  with create_inv [OF assms(1)] show ?thesis by (auto split: prod.splits)
next
  case (Resume sw i)
  with resume_inv [OF assms(1)] show ?thesis by (auto split: prod.splits)
next
  case (Kill sw i q)
  with kill_inv [OF assms(1)] show ?thesis by (auto split: prod.splits)
next
  case (Set_max n)
  with assms show ?thesis
    by (auto simp: ord_inv_def slice_inv_def set_freelist_max_size_def deque_resize_def Let_def dest: in_set_takeD)
qed

fun grows_no_freelist :: "ord_op list \<Rightarrow> ordinator \<Rightarrow> bool" where
  "grows_no_freelist [] ord = True"
| "grows_no_freelist (p # ps) ord = ((case p of Set_max n \<Rightarrow> n \<le> int (length (finished ord)) | _ \<Rightarrow> True)
     \<and> grows_no_freelist ps (snd (run_op p ord)))"

lemma run_ops_inv:
  "ord_inv ord \<Longrightarrow> grows_no_freelist ps ord \<Longrightarrow>
   list_all (\<lambda>r. \<not> is_undefined r) (fst (run_ops ps ord)) \<and> ord_inv (snd (run_ops ps ord))"
proof (induction ps arbitrary: ord)
  case (Cons p ps)
  have "\<forall>n. p = Set_max n \<longrightarrow> n \<le> int (length (finished ord))" using Cons.prems(2) by auto
  from run_op_inv [OF Cons.prems(1) this] Cons.IH [of "snd (run_op p ord)"] Cons.prems(2)
  show ?case by (simp add: split_beta)
qed simp

section \<open>Life and death of a routine\<close>

text \<open>A body of \<open>n\<close> yields, which lets the exception it is killed with through.\<close>

fun yields :: "nat \<Rightarrow> body" where
  "yields 0 = Body Ret"
| "yields (Suc n) = Body (Yld (\<lambda>e. case e of None \<Rightarrow> yields n | Some x \<Rightarrow> Body (Thr x)))"

definition ready :: "nat \<Rightarrow> body \<Rightarrow> ordinator \<Rightarrow> bool" where
  "ready i b ord \<longleftrightarrow> (\<exists>r. routines ord i = Some r \<and> r_exception r = None
     \<and> (r_ctx r = Fresh \<and> r_func r = Some b \<or> (\<exists>k. r_ctx r = At_yield k \<and> k None = b)))"

lemma ready_entered:
  "routines ord i = Some r \<Longrightarrow> r_exception r = None \<Longrightarrow>
   r_ctx r = Fresh \<and> r_func r = Some b \<or> (\<exists>k. r_ctx r = At_yield k \<and> k None = b) \<Longrightarrow>
   entered i r x = run_slice (slice_of b) x"
  by (auto simp: entered_def)

text \<open>
  A routine by itself, as \<open>n\<close> resumes should see it: its slices run directly one after the other, with no
  context, no exception and no free list in between; when it has ended, its number is unknown.
\<close>

fun play :: "nat \<Rightarrow> nat \<Rightarrow> body \<Rightarrow> ordinator \<Rightarrow> coroutine_status outcome list \<times> ordinator" where
  "play i 0 b ord = ([], ord)"
| "play i (Suc n) b ord = (case run_slice (slice_of b) (ord\<lparr>current_id := i\<rparr>) of
     (Yielded k, ord) \<Rightarrow> (let (rs, ord) = play i n (k None) (ord\<lparr>current_id := 0\<rparr>) in (Returns AGAIN # rs, ord))
   | (Ended x, ord) \<Rightarrow> ((case x of None \<Rightarrow> Returns FINISHED | Some e \<Rightarrow> Throws e) # replicate n (Throws (std_exn Out_of_range)), ord)
   | (Slice_undefined, ord) \<Rightarrow> ([Undefined], ord))"

text \<open>Slices see the same of two ordinators that differ in the record of the running routine only.\<close>

definition agree_but :: "nat \<Rightarrow> ordinator \<Rightarrow> ordinator \<Rightarrow> bool" where
  "agree_but i a b \<longleftrightarrow> current_id a = current_id b \<and> (\<forall>j. j \<noteq> i \<longrightarrow> routines a j = routines b j)
     \<and> routines a i \<noteq> None \<and> routines b i \<noteq> None"

lemma run_slice_agree:
  "slice_inv a \<Longrightarrow> slice_inv b \<Longrightarrow> agree_but i a b \<Longrightarrow>
   fst (run_slice s a) = fst (run_slice s b) \<and> agree_but i (snd (run_slice s a)) (snd (run_slice s b))"
proof (induction s arbitrary: a b)
  case (Cre j f s)
  have "agree_but i (created j (Some f) a) (created j (Some f) b)" using Cre.prems(3) by (auto simp: agree_but_def created_def)
  from Cre.IH [OF created_inv created_inv this, OF Cre.prems(1,2)] show ?case
    by (simp add: create_created Cre.prems)
next
  case (Cur f)
  from Cur.IH [OF rangeI Cur.prems, of "current_id a"] Cur.prems(3) show ?case by (simp add: agree_but_def)
qed simp_all

lemma agree_butD: "agree_but i a b \<Longrightarrow> j \<noteq> i \<Longrightarrow> routines a j = routines b j"
  by (simp add: agree_but_def)

lemma run_ops_gone:
  "i \<noteq> 0 \<Longrightarrow> routines ord i = None \<Longrightarrow>
   run_ops (replicate n (Resume True i)) ord = (map R_status (replicate n (Throws (std_exn Out_of_range))), ord)"
  by (induction n) (simp_all add: resume_def)

lemma resumes_play:
  "ord_inv a \<Longrightarrow> ord_inv b \<Longrightarrow> i \<noteq> 0 \<Longrightarrow> agree_but i a b \<Longrightarrow> ready i body a \<Longrightarrow>
   fst (run_ops (replicate n (Resume True i)) a) = map R_status (fst (play i n body b))
   \<and> (\<forall>j. j \<noteq> i \<longrightarrow> routines (snd (run_ops (replicate n (Resume True i)) a)) j = routines (snd (play i n body b)) j)"
proof (induction n arbitrary: a b body)
  case (Suc n)
  obtain r where r: "routines a i = Some r" "r_exception r = None"
    "r_ctx r = Fresh \<and> r_func r = Some body \<or> (\<exists>k. r_ctx r = At_yield k \<and> k None = body)"
    using Suc.prems(5) by (auto simp: ready_def)
  let ?a = "a\<lparr>current_id := i\<rparr>" and ?b = "b\<lparr>current_id := i\<rparr>"
  have inv: "slice_inv a" "slice_inv ?a" "slice_inv ?b" "agree_but i ?a ?b"
    using Suc.prems(1,2,4) by (simp_all add: ord_inv_def slice_inv_def agree_but_def)
  obtain e a' b' where s: "run_slice (slice_of body) ?a = (e, a')" "run_slice (slice_of body) ?b = (e, b')" "agree_but i a' b'"
    using run_slice_agree [OF inv(2-4), of "slice_of body"] by (metis prod.collapse)
  note res = resume_eq [OF inv(1) Suc.prems(3) r(1), of e a'] and ent = ready_entered [OF r, of ?a]
  have u: "e \<noteq> Slice_undefined" "freelist_max_size b' = freelist_max_size b" "slice_inv b'"
    using run_slice_inv [OF inv(2) s(1)] run_slice_inv [OF inv(3) s(2)] by simp_all
  show ?case
  proof (cases e)
    case (Yielded k)
    let ?a1 = "a'\<lparr>routines := (routines a')(i \<mapsto> r\<lparr>r_ctx := At_yield k\<rparr>), current_id := 0\<rparr>"
    have step: "resume True i a = (Returns AGAIN, ?a1)" using res ent s(1) Yielded by simp
    have "ord_inv ?a1" using resume_inv [OF Suc.prems(1) step] by simp
    moreover have "ord_inv (b'\<lparr>current_id := 0\<rparr>)" using u(3) by (simp add: ord_inv_def slice_inv_def)
    moreover have "agree_but i ?a1 (b'\<lparr>current_id := 0\<rparr>)" using s(3) by (auto simp: agree_but_def)
    moreover have "ready i (k None) ?a1" using r(2) by (simp add: ready_def)
    ultimately show ?thesis using Suc.IH [of ?a1 "b'\<lparr>current_id := 0\<rparr>" "k None"] Suc.prems(3) s(2) Yielded
      by (simp add: step split_beta Let_def)
  next
    case (Ended x)
    obtain a1 where step: "resume True i a = (case x of None \<Rightarrow> Returns FINISHED | Some e \<Rightarrow> Throws e, a1)"
      "routines a1 = (routines a')(i := None)"
      using res ent s(1) Ended r(2) by (cases x) (simp_all add: Let_def)
    then have "routines a1 i = None" by simp
    from run_ops_gone [OF Suc.prems(3) this, of n] step agree_butD [OF s(3)] s(2) Ended show ?thesis
      by (simp add: split_beta)
  qed (use u in simp)
qed (use agree_butD in simp)

section \<open>A switch from inside a routine\<close>

text \<open>
  Where the processor is, and the one context that the ordinator saves: outside of all routines, or in a call
  of \<open>resume\<close> made by a routine. Entering saves the place of the caller over what was saved; \<open>yield\<close> and
  the end of a routine go to the saved place.
\<close>

datatype place = Main | In_routine nat

record contexts =
  here :: place
  saved :: place

definition switch_in :: "nat \<Rightarrow> contexts \<Rightarrow> contexts" where
  "switch_in i c = \<lparr>here = In_routine i, saved = here c\<rparr>"

definition switch_out :: "contexts \<Rightarrow> contexts" where
  "switch_out c = c\<lparr>here := saved c\<rparr>"

fun switches :: "nat option list \<Rightarrow> contexts \<Rightarrow> contexts" where
  "switches [] c = c"
| "switches (Some i # xs) c = switches xs (switch_in i c)"
| "switches (None # xs) c = switches xs (switch_out c)"

lemma nested_switches: "saved c \<noteq> Main \<Longrightarrow> here c \<noteq> Main \<Longrightarrow> here (switches xs c) \<noteq> Main"
  by (induction xs c rule: switches.induct) (simp_all add: switch_in_def switch_out_def)

section \<open>Properties\<close>

text \<open>
  C18: Whatever program of creations, resumptions, kills and new bounds runs outside of all routines, with
  bodies that yield, throw, return and create in any pattern (but resume and kill none), no finished routine stays among the active ones, the free list
  keeps to its bound and holds no empty node, no routine is left as the current one, and no
  operation has undefined behaviour, so long as the bound is not set above the length of the list.
\<close>

theorem coroutine_invariant:
  assumes "grows_no_freelist ps Ordinator"
  defines "ord \<equiv> snd (run_ops ps Ordinator)"
  shows "(\<forall>r \<in> set (fst (run_ops ps Ordinator)). \<not> is_undefined r) \<and> current_id ord = 0
    \<and> (\<forall>i r. routines ord i = Some r \<longrightarrow> \<not> r_finished r) \<and> None \<notin> set (finished ord)
    \<and> (freelist_max_size ord \<ge> 0 \<longrightarrow> int (length (finished ord)) \<le> freelist_max_size ord)"
proof -
  have "ord_inv Ordinator" by (simp add: ord_inv_def slice_inv_def Ordinator_def)
  from run_ops_inv [OF this assms(1)] show ?thesis
    by (auto simp: ord_def ord_inv_def slice_inv_def list_all_iff)
qed

theorem coroutine_invariant_witness:
  "fst (run_ops [Create 1 (Some (Body (Yld (\<lambda>e. Body Ret)))), Resume True 1, Resume True 1, Set_max 1, Create 2 None] Ordinator)
    = [R_id (Returns 1), R_status (Returns AGAIN), R_status (Returns FINISHED), R_unit (Returns ()), R_id (Returns 2)]
   \<and> current_id (snd (run_ops [Create 1 (Some (Body (Yld (\<lambda>e. Body Ret)))), Resume True 1, Resume True 1, Set_max 1, Create 2 None] Ordinator)) = 0"
proof -
  let ?ps = "[Create 1 (Some (Body (Yld (\<lambda>e. Body Ret)))), Resume True 1, Resume True 1, Set_max 1, Create 2 None]"
  have g: "grows_no_freelist ?ps Ordinator"
    by (simp add: create_def resume_def switch_to_def set_routine_def Routine_def Ordinator_def Let_def)
  from coroutine_invariant [OF g] show ?thesis
    by (simp add: create_def resume_def switch_to_def set_routine_def Routine_def Ordinator_def Let_def
        set_freelist_max_size_def deque_resize_def routine_reset_def)
qed

text \<open>
  C10: The free list is invisible: two consistent ordinators with the same active routines, used outside of all
  routines and with bodies that resume and kill none, give the same results, status by status and exception by exception, and keep the same routines, through any
  program of creations, resumptions, kills and new bounds, whatever their free lists hold and are bounded by,
  so long as no bound is set above the length of the list it is set for.
\<close>

theorem coroutine_freelist_invisible:
  "ord_inv a \<Longrightarrow> ord_inv b \<Longrightarrow> same_routines a b \<Longrightarrow> grows_no_freelist ps a \<Longrightarrow> grows_no_freelist ps b \<Longrightarrow>
   fst (run_ops ps a) = fst (run_ops ps b) \<and> same_routines (snd (run_ops ps a)) (snd (run_ops ps b))"
proof (induction ps arbitrary: a b)
  case (Cons p ps)
  have p: "\<forall>n. p = Set_max n \<longrightarrow> n \<le> int (length (finished a))" "\<forall>n. p = Set_max n \<longrightarrow> n \<le> int (length (finished b))"
    using Cons.prems(4,5) by auto
  from run_op_same [OF Cons.prems(1-3), of p] run_op_inv [OF Cons.prems(1) p(1)] run_op_inv [OF Cons.prems(2) p(2)] Cons.prems(4,5)
    Cons.IH [of "snd (run_op p a)" "snd (run_op p b)"]
  show ?case by (simp add: split_beta)
qed simp

theorem coroutine_freelist_invisible_witness:
  "fst (run_ops [Create 7 None, Resume True 7, Set_max 1, Create 8 None] Ordinator) =
   fst (run_ops [Create 7 None, Resume True 7, Set_max 1, Create 8 None] (Ordinator\<lparr>finished := [Some (Routine None)], freelist_max_size := 1\<rparr>))"
proof (rule conjunct1 [OF coroutine_freelist_invisible])
  let ?b = "Ordinator\<lparr>finished := [Some (Routine None)], freelist_max_size := 1\<rparr>"
  show "ord_inv Ordinator" "ord_inv ?b" "same_routines Ordinator ?b"
    by (simp_all add: ord_inv_def slice_inv_def Ordinator_def same_routines_def)
  show "grows_no_freelist [Create 7 None, Resume True 7, Set_max 1, Create 8 None] Ordinator"
    "grows_no_freelist [Create 7 None, Resume True 7, Set_max 1, Create 8 None] ?b"
    by (simp_all add: create_def resume_def switch_to_def set_routine_def Routine_def Ordinator_def Let_def)
qed

text \<open>
  C30: A created routine runs its slices in order, one per resume: creating it under a free number and
  resuming it any number of times gives \<open>AGAIN\<close> for each slice that ends in a \<open>yield\<close>, then \<open>FINISHED\<close> or
  the exception of the slice that ends the body, then \<open>std::out_of_range\<close>, and what its slices create is what they
  create when they are run directly one after the other. This is for bodies that resume and kill none.
\<close>

theorem coroutine_lifecycle:
  assumes "ord_inv ord" "i \<noteq> 0" "routines ord i = None"
    and "play i n b (snd (create i (Some b) ord)) = (rs, ord1)"
    and "run_ops (Create i (Some b) # replicate n (Resume True i)) ord = (results, ord2)"
  shows "results = R_id (Returns i) # map R_status rs \<and> (\<forall>j. j \<noteq> i \<longrightarrow> routines ord2 j = routines ord1 j)"
proof -
  have inv: "slice_inv ord" using assms(1) by (simp add: ord_inv_def)
  let ?ord = "created i (Some b) ord"
  have "ord_inv ?ord" using created_inv [OF inv] assms(1) by (simp add: ord_inv_def) (simp add: created_def)
  moreover have "agree_but i ?ord ?ord" "ready i b ?ord" using assms(3) by (simp_all add: created_def agree_but_def ready_def Routine_def)
  ultimately have o: "ord_inv ?ord" "agree_but i ?ord ?ord" "ready i b ?ord" by blast+
  show ?thesis using resumes_play [OF o(1,1) assms(2) o(2,3), of n] assms(4,5) by (auto simp: create_created [OF inv] split_beta)
qed

definition two_slices :: body where
  "two_slices = Body (Cre 8 (yields 0) (Yld (\<lambda>e. Body (Cur (\<lambda>i. Cre (i + 5) (yields 0) (Thr (std_exn Runtime_error)))))))"

theorem coroutine_lifecycle_witness:
  "fst (run_ops (Create 4 (Some two_slices) # replicate 3 (Resume True 4)) Ordinator) =
    [R_id (Returns 4), R_status (Returns AGAIN), R_status (Throws (std_exn Runtime_error)), R_status (Throws (std_exn Out_of_range))]
   \<and> dom (routines (snd (run_ops (Create 4 (Some two_slices) # replicate 3 (Resume True 4)) Ordinator))) - {4} = {8, 9}"
proof -
  let ?run = "run_ops (Create 4 (Some two_slices) # replicate 3 (Resume True 4)) Ordinator"
  obtain rs ord1 where p: "play 4 3 two_slices (snd (create 4 (Some two_slices) Ordinator)) = (rs, ord1)" by fastforce
  have rs: "rs = [Returns AGAIN, Throws (std_exn Runtime_error), Throws (std_exn Out_of_range)]"
    "routines ord1 = [4 \<mapsto> Routine (Some two_slices), 8 \<mapsto> Routine (Some (yields 0)), 9 \<mapsto> Routine (Some (yields 0))]"
    using p by (auto simp: numeral_eq_Suc two_slices_def create_def Ordinator_def Routine_def)
  have "ord_inv Ordinator" "routines Ordinator 4 = None" by (simp_all add: ord_inv_def slice_inv_def Ordinator_def)
  from coroutine_lifecycle [OF this(1) _ this(2) p, of "fst ?run" "snd ?run"]
  have r: "fst ?run = R_id (Returns 4) # map R_status rs" "\<forall>j. j \<noteq> 4 \<longrightarrow> routines (snd ?run) j = routines ord1 j"
    by (simp_all del: run_ops.simps)
  have "dom (routines (snd ?run)) - {4} = dom (routines ord1) - {4}" using r(2) by (auto simp: dom_def simp del: run_ops.simps)
  also have "\<dots> = {8, 9}" by (auto simp: rs(2))
  finally show ?thesis using r(1) by (simp add: rs(1) del: run_ops.simps)
qed

text \<open>
  C31: Killing a routine, with an exception and from outside of all routines, that waits in a \<open>yield\<close> makes the
  \<open>yield\<close> throw, for bodies that resume and kill none. If the body then ends,
  the kill rethrows, its own exception when the body swallowed it, and the routine is gone; if the
  body yields again, the kill throws \<open>std::logic_error\<close>, the routine stays, and every later \<open>yield\<close>
  of it throws the exception again. A routine that never ran is removed without running.
\<close>

theorem coroutine_kill:
  fixes e :: exn
  assumes "ord_inv ord" "i \<noteq> 0" "routines ord i = Some r"
  defines "start \<equiv> set_routine i (\<lambda>r. r\<lparr>r_exception := Some e\<rparr>) ord\<lparr>current_id := i\<rparr>"
  defines "res \<equiv> kill True i (Some e) ord"
  shows "case r_ctx r of
      Fresh \<Rightarrow> fst res = Throws e \<and> routines (snd res) i = None
    | At_yield k \<Rightarrow> (case fst (run_slice (slice_of (k (Some e))) start) of
          Ended x \<Rightarrow> fst res = Throws (case x of None \<Rightarrow> e | Some x \<Rightarrow> x) \<and> routines (snd res) i = None
        | Yielded k' \<Rightarrow> fst res = Throws (std_exn Logic_error)
            \<and> (\<exists>r'. routines (snd res) i = Some r' \<and> r_exception r' = Some e \<and> r_ctx r' = At_yield k')
        | Slice_undefined \<Rightarrow> False)"
proof -
  let ?ord = "set_routine i (\<lambda>r. r\<lparr>r_exception := Some e\<rparr>) ord" and ?r = "r\<lparr>r_exception := Some e\<rparr>"
  have nf: "\<not> r_finished r" and inv: "slice_inv ?ord" "slice_inv start" and r: "routines ?ord i = Some ?r"
    using assms(1,3) by (auto simp: ord_inv_def slice_inv_def set_routine_def start_def)
  obtain en ord' where en: "entered i ?r start = (en, ord')" by (cases "entered i ?r start") auto
  have ne: "en \<noteq> Slice_undefined" using entered_inv [OF inv(2) en] by simp
  have res: "res = (case resume True i ?ord of (Throws x, ord) \<Rightarrow> (Throws x, ord)
      | (Undefined, ord) \<Rightarrow> (Undefined, ord) | (Returns _, ord) \<Rightarrow> (Throws (std_exn Logic_error), ord))"
    using assms(2,3) nf by (simp add: res_def kill_def)
  from resume_eq [OF inv(1) assms(2) r, of en ord'] en ne show ?thesis
    by (cases "r_ctx r"; cases en) (auto simp: res entered_def start_def Let_def split: option.splits if_splits)
qed

theorem coroutine_kill_witness:
  "let e = std_exn Runtime_error; ord = snd (run_ops [Create 3 (Some (yields 1)), Resume True 3] Ordinator) in
   fst (kill True 3 (Some e) ord) = Throws e"
proof -
  let ?ord = "snd (run_ops [Create 3 (Some (yields 1)), Resume True 3] Ordinator)"
  have "ord_inv Ordinator" by (simp add: ord_inv_def slice_inv_def Ordinator_def)
  then have inv: "ord_inv ?ord" using run_ops_inv [of Ordinator "[Create 3 (Some (yields 1)), Resume True 3]"] by simp
  let ?k = "\<lambda>e. case e of None \<Rightarrow> yields 0 | Some x \<Rightarrow> Body (Thr x)"
  have r: "routines ?ord 3 = Some (Routine (Some (yields 1))\<lparr>r_ctx := At_yield ?k\<rparr>)"
    by (simp add: create_def resume_def switch_to_def set_routine_def Routine_def Ordinator_def Let_def)
  from coroutine_kill [OF inv _ r, of "std_exn Runtime_error"] show ?thesis by (simp add: Let_def)
qed

text \<open>
  Setting the bound of the free list above its length fills the list with empty nodes, and the
  next creation takes one and uses it: undefined behaviour.
\<close>

theorem coroutine_grown_freelist:
  assumes "int (length (finished ord)) < n"
  shows "fst (create i f (set_freelist_max_size n ord)) = Undefined"
proof -
  have "nat n - length (finished ord) \<noteq> 0" using assms by simp
  then obtain k where "nat n - length (finished ord) = Suc k" by (cases "nat n - length (finished ord)") auto
  then show ?thesis
    using assms by (simp add: create_def set_freelist_max_size_def deque_resize_def Let_def replicate_append_same [symmetric])
qed

theorem coroutine_grown_freelist_witness:
  "fst (create 1 None (set_freelist_max_size 8 Ordinator)) = Undefined"
  by (rule coroutine_grown_freelist) (simp add: Ordinator_def)

text \<open>
  A routine that switches to another one overwrites the only way back: whatever routines are entered and
  left after that, the code that resumed the first one never runs on.
\<close>

theorem nested_switch_loses_main:
  "here (switches (Some i # Some j # xs) \<lparr>here = Main, saved = Main\<rparr>) \<noteq> Main"
  by (simp add: switch_in_def nested_switches)

end
