(* ===== verification/HttpWorker.thy ===== *)
theory HttpWorker imports HttpConnection Coroutines begin

text \<open>
  \<open>tinyhttp/server\<close> and the event loop of \<open>tinyhttp/epoll_worker\<close>: the clients a worker keeps, the
  epoll instance it waits on, and the coroutine that serves each client. What a client routine does
  to its connection is in \<open>HttpReading\<close>, \<open>HttpSending\<close> and \<open>HttpStatic\<close>; here it is a body that
  yields, ends or throws. The answers of the system calls come with the events.
\<close>

section \<open>The server\<close>

text \<open>The listening socket, the flag that stops the workers, and where the server listens.\<close>

record server =
  server_sock_fd :: descriptor
  is_stopped :: bool
  srv_addr :: string
  srv_port :: "16 word"

definition int_text :: "int \<Rightarrow> string" where
  "int_text n = (if n < 0 then ''-'' @ to_dec (nat (- n)) else to_dec (nat n))"

text \<open>
  \<open>strerror\<close> and \<open>se\<close> stand for the text of an error number. The constructor: the descriptor \<open>socket\<close>
  returned, the statuses of \<open>setsockopt\<close>, \<open>inet_pton\<close>, \<open>bind\<close> and \<open>listen\<close>, and what \<open>getsockname\<close> tells
  when the port was left open. When it throws, the member that holds the socket is destroyed.
\<close>

definition Server ::
  "(int \<Rightarrow> string) \<Rightarrow> int \<Rightarrow> int \<Rightarrow> bool \<Rightarrow> int \<Rightarrow> int \<Rightarrow> int + 16 word \<Rightarrow> int \<Rightarrow> string \<Rightarrow> 16 word
    \<Rightarrow> (exn + server) \<times> sys_call list" where
  "Server strerror socket_fd setsockopt_status pton_ok bind_status listen_status name_answer err ip port =
     (let d = fst (Descriptor_int socket_fd);
          throw = (\<lambda>c msg err. (Inl (io_exn c msg err), descriptor_destroy d));
          made = (\<lambda>port. (Inr \<lparr>server_sock_fd = d, is_stopped = False, srv_addr = ip, srv_port = port\<rparr>, [])) in
      if setsockopt_status < 0 then throw IoServiceError (''cannot set SO_REUSEADDR to IPV4 socket: '' @ strerror err) err
      else if \<not> pton_ok then throw InvalidAddressError (''invalid ip address, ip='' @ ip) err
      else if bind_status < 0 then throw BindError (''cannot bind to addr='' @ ip @ '', port='' @ to_dec (unat port)) err
      else if listen_status < 0 then throw ListenError (''cannot start listen on addr='' @ ip @ '', port='' @ to_dec (unat port)) err
      else if port = 0 then
        (case name_answer of
           Inl err \<Rightarrow> throw IoServiceError (''cannot get info about self, server_sock_fd='' @ int_text (d_fd d)) err
         | Inr p \<Rightarrow> made p)
      else made port)"

definition server_is_opened :: "server \<Rightarrow> bool" where
  "server_is_opened s \<longleftrightarrow> is_valid (server_sock_fd s)"

definition server_stop :: "server \<Rightarrow> server" where
  "server_stop s = s\<lparr>is_stopped := True\<rparr>"

definition server_close :: "int \<Rightarrow> int \<Rightarrow> server \<Rightarrow> exn option \<times> server \<times> sys_call list" where
  "server_close answer err s =
     (if server_is_opened s then
        let (status, d, calls) = descriptor_close answer (server_sock_fd s) in
        (if status < 0 then Some (io_exn ServerCloseError ''error while closing server socket, server_sock_fd=-1'' err) else None,
         s\<lparr>server_sock_fd := d\<rparr>, calls)
      else (None, s, []))"

section \<open>The worker\<close>

definition EPOLLIN :: "32 word" where "EPOLLIN = 1"
definition EPOLLOUT :: "32 word" where "EPOLLOUT = 4"
definition EPOLLERR :: "32 word" where "EPOLLERR = 8"
definition EPOLLHUP :: "32 word" where "EPOLLHUP = 16"
definition EPOLLEXCLUSIVE :: "32 word" where "EPOLLEXCLUSIVE = 0x10000000"

definition ACCEPTOR_EVENTS :: "32 word" where
  "ACCEPTOR_EVENTS = or EPOLLIN EPOLLEXCLUSIVE"

definition MAX_ACCEPTIONS_PER_LOOP :: nat where
  "MAX_ACCEPTIONS_PER_LOOP = 1"

record client =
  cl_connection :: connection
  cl_events :: "32 word"

text \<open>
  The ordinator is the thread's. Three members record what the worker did: \<open>infos\<close> is what was logged,
  \<open>accepted\<close> are the sockets \<open>accept\<close> returned, and \<open>closes\<close> the system calls of the destructors.
\<close>

record worker =
  worker_id :: nat
  acceptor :: int
  epoll_fd :: descriptor
  clients :: "int \<Rightarrow> client option"
  ordi :: ordinator
  infos :: "string list"
  accepted :: "int list"
  closes :: "sys_call list"

text \<open>An operation ends normally or throws; the operations of the ordinator may be undefined.\<close>

datatype 'a step = Ok 'a worker | Err exn worker | Undef

definition log_info :: "string \<Rightarrow> worker \<Rightarrow> worker" where
  "log_info msg w = w\<lparr>infos := infos w @ [''[worker '' @ to_dec (worker_id w) @ ''] '' @ msg]\<rparr>"

definition EpollWorker ::
  "(int \<Rightarrow> string) \<Rightarrow> nat \<Rightarrow> server \<Rightarrow> int \<Rightarrow> int \<Rightarrow> int \<Rightarrow> ordinator \<Rightarrow> (exn + worker) \<times> sys_call list" where
  "EpollWorker strerror i srv epoll_answer add_answer err ord =
     (let d = fst (Descriptor_int epoll_answer) in
      if \<not> is_valid d then (Inl (io_exn EpollCreateError (''cannot create epoll entity: '' @ strerror err) err), [])
      else if add_answer < 0
        then (Inl (io_exn EpollAddError (''cannot add to epoll server socket: '' @ strerror err) err), descriptor_destroy d)
      else (Inr \<lparr>worker_id = i, acceptor = d_fd (server_sock_fd srv), epoll_fd = d, clients = (\<lambda>_. None),
             ordi = ord, infos = [], accepted = [], closes = []\<rparr>, []))"

text \<open>What is destroyed at the end of its scope or with its entry.\<close>

definition dropped :: "sys_call list \<Rightarrow> worker \<Rightarrow> worker" where
  "dropped calls w = w\<lparr>closes := closes w @ calls\<rparr>"

text \<open>
  \<open>emplace\<close> keeps a client that is there, and the connection it was given is destroyed with the new
  client. When \<open>epoll_ctl\<close> fails the entry is erased, and its connection moved back to the caller.
\<close>

definition add_to_event_loop :: "int \<Rightarrow> connection \<Rightarrow> 32 word \<Rightarrow> worker \<Rightarrow> bool \<times> connection option \<times> worker" where
  "add_to_event_loop add_answer c events w =
     (let fd = d_fd (sock_fd c);
          w = (if clients w fd = None
               then w\<lparr>clients := (clients w)(fd \<mapsto> \<lparr>cl_connection = c, cl_events = events\<rparr>)\<rparr>
               else dropped (connection_destroy c) w)
      in if is_valid (epoll_fd w) \<and> add_answer < 0
         then (False, map_option cl_connection (clients w fd), w\<lparr>clients := (clients w)(fd := None)\<rparr>)
         else (True, None, w))"

definition change_event :: "descriptor \<Rightarrow> int \<Rightarrow> client \<Rightarrow> 32 word \<Rightarrow> bool \<times> client" where
  "change_event epoll mod_answer cl epoll_events =
     (if is_valid epoll \<and> mod_answer < 0 then (False, cl) else (True, cl\<lparr>cl_events := epoll_events\<rparr>))"

text \<open>The entry is erased, its connection destroyed, and the copies of the address are logged.\<close>

definition close_connection :: "int \<Rightarrow> worker \<Rightarrow> unit step" where
  "close_connection fd w =
     (case clients w fd of
        None \<Rightarrow> Err (std_exn Out_of_range) w
      | Some cl \<Rightarrow>
          Ok () (log_info (''Disconnect with '' @ dst_addr (cl_connection cl) @ '':''
              @ to_dec (unat (dst_port (cl_connection cl))) @ '' [io_service='' @ int_text fd @ '']'')
            (dropped (connection_destroy (cl_connection cl)) (w\<lparr>clients := (clients w)(fd := None)\<rparr>))))"

text \<open>
  One round of the loop: the server was stopped by then, or \<open>accept\<close> failed with an \<open>errno\<close>, or it
  returned a socket; then the peer, the answers of the calls that follow, and what the client routine will
  do between its suspensions for this client.
\<close>

datatype accept_answer =
    Accept_stopped
  | Accept_error int
  | Accepted int string "16 word" int "int + string \<times> 16 word" int body

definition accept_exn :: "string \<Rightarrow> int \<Rightarrow> worker \<Rightarrow> exn" where
  "accept_exn msg err w = io_exn AcceptError (msg @ '', server_sock_fd='' @ int_text (acceptor w)) err"

text \<open>
  The value tells whether the loop goes on. A socket that becomes no client is closed when its owner goes
  out of scope: the descriptor, the member of a connection whose constructor throws, or the connection that
  was moved back.
\<close>

definition accept_one :: "accept_answer \<Rightarrow> worker \<Rightarrow> bool step" where
  "accept_one answer w =
     (case answer of
        Accept_stopped \<Rightarrow> Ok False w
      | Accept_error err \<Rightarrow>
          if err = EINTR then Ok True w
          else if err = EAGAIN \<or> err = EWOULDBLOCK then Ok False w
          else Err (accept_exn ''cannot accept new connection'' err w) w
      | Accepted fd addr port nonblock_status name_answer add_answer client_routine \<Rightarrow>
          let d = fst (Descriptor_int fd); w = w\<lparr>accepted := accepted w @ [fd]\<rparr> in
          if nonblock_status < 0
          then Err (accept_exn ''cannot cannot set nonblock for new connection'' 0 w) (dropped (descriptor_destroy d) w)
          else (case Connection_accepted name_answer d addr port of
              Inl e \<Rightarrow> Err e (dropped (descriptor_destroy d) w)
            | Inr c \<Rightarrow>
                let (_, given, w) = add_to_event_loop add_answer c EPOLLIN w;
                    scope_end = dropped (case given of None \<Rightarrow> [] | Some c \<Rightarrow> connection_destroy c) in
                (case create (nat fd) (Some client_routine) (ordi w) of
                   (Undefined, _) \<Rightarrow> Undef
                 | (Throws e, ord) \<Rightarrow> Err e (scope_end (w\<lparr>ordi := ord\<rparr>))
                 | (Returns _, ord) \<Rightarrow>
                     Ok True (scope_end (log_info (''Accepted new connection from '' @ dst_addr c @ '':'' @ to_dec (unat (dst_port c))
                       @ '' [io_service='' @ int_text fd @ '']'') (w\<lparr>ordi := ord\<rparr>))))))"

text \<open>The loop stops at its bound, when nothing waits any more and when the server is stopped.\<close>

fun accept_connections :: "nat \<Rightarrow> accept_answer list \<Rightarrow> worker \<Rightarrow> unit step" where
  "accept_connections (Suc m) (a # as) w =
     (case accept_one a w of
        Ok True w \<Rightarrow> accept_connections m as w
      | Ok False w \<Rightarrow> Ok () w
      | Err e w \<Rightarrow> Err e w
      | Undef \<Rightarrow> Undef)"
| "accept_connections _ _ w = Ok () w"

text \<open>
  An event of a client. A hang-up or error kills the routine, ignoring the exception it was killed
  with, and closes the connection. Otherwise the routine is resumed; end of file and other input
  and output errors are logged, any other exception leaves the function.
\<close>

definition hangup :: "32 word \<Rightarrow> bool" where
  "hangup events \<longleftrightarrow> and events EPOLLHUP \<noteq> 0 \<or> and events EPOLLERR \<noteq> 0"

definition handle_client :: "(int \<Rightarrow> string) \<Rightarrow> bool \<Rightarrow> int \<Rightarrow> 32 word \<Rightarrow> worker \<Rightarrow> unit step" where
  "handle_client strerror swapped fd events w =
     (if hangup events then
        (case kill swapped (nat fd) (Some (io_exn EpollError ''epollhup err'' 0)) (ordi w) of
           (Undefined, _) \<Rightarrow> Undef
         | (Returns _, ord) \<Rightarrow> close_connection fd (w\<lparr>ordi := ord\<rparr>)
         | (Throws e, ord) \<Rightarrow>
             if catches EpollError e then close_connection fd (w\<lparr>ordi := ord\<rparr>)
             else Err e (w\<lparr>ordi := ord\<rparr>))
      else
        (case resume swapped (nat fd) (ordi w) of
           (Undefined, _) \<Rightarrow> Undef
         | (Returns status, ord) \<Rightarrow>
             if status \<noteq> AGAIN then close_connection fd (w\<lparr>ordi := ord\<rparr>) else Ok () (w\<lparr>ordi := ord\<rparr>)
         | (Throws e, ord) \<Rightarrow>
             if catches EofError e \<or> catches IoError e
             then close_connection fd (log_info (if catches EofError e then exn_what e
                 else exn_what e @ '': '' @ strerror (exn_errno e)) (w\<lparr>ordi := ord\<rparr>))
             else Err e (w\<lparr>ordi := ord\<rparr>)))"

text \<open>
  A reported event, with whether the server was stopped by then, the answers \<open>accept\<close> would give,
  and whether the context switch works.
\<close>

record event =
  ev_stopped :: bool
  ev_fd :: int
  ev_events :: "32 word"
  ev_accepts :: "accept_answer list"
  ev_swapped :: bool

fun handle_events :: "(int \<Rightarrow> string) \<Rightarrow> event list \<Rightarrow> worker \<Rightarrow> unit step" where
  "handle_events se [] w = Ok () w"
| "handle_events se (ev # evs) w =
     (if ev_stopped ev then Ok () w
      else case (if ev_fd ev = acceptor w then accept_connections MAX_ACCEPTIONS_PER_LOOP (ev_accepts ev) w
                 else handle_client se (ev_swapped ev) (ev_fd ev) (ev_events ev) w) of
        Ok _ w \<Rightarrow> handle_events se evs w
      | r \<Rightarrow> r)"

datatype wait_answer = Wait_error int | Wait_events "event list"

text \<open>The rounds of the loop that happen; each begins with a look at the stop flag.\<close>

fun event_loop :: "(int \<Rightarrow> string) \<Rightarrow> (bool \<times> wait_answer) list \<Rightarrow> worker \<Rightarrow> unit step" where
  "event_loop se [] w = Ok () w"
| "event_loop se ((stopped, answer) # rounds) w =
     (if stopped then Ok () w
      else case answer of
        Wait_error err \<Rightarrow>
          if err \<noteq> EINTR then Err (io_exn EpollWaitError (''error epoll_wait_error: '' @ se err) err) w
          else event_loop se rounds w
      | Wait_events evs \<Rightarrow>
          (case handle_events se evs w of Ok _ w \<Rightarrow> event_loop se rounds w | r \<Rightarrow> r))"

text \<open>What the destructor of a worker closes: the connections of its clients and the epoll instance.\<close>

definition EpollWorker_destroy :: "worker \<Rightarrow> sys_call set" where
  "EpollWorker_destroy w =
     (\<Union>cl \<in> ran (clients w). set (connection_destroy (cl_connection cl))) \<union> set (descriptor_destroy (epoll_fd w))"

section \<open>Routines and clients\<close>

lemma resume_keeps:
  assumes "ord_inv ord" "resume sw i ord = (out, ord')"
  shows "(\<forall>j r. j \<noteq> i \<longrightarrow> routines ord j = Some r \<longrightarrow> routines ord' j = Some r)
    \<and> (out = Returns AGAIN \<longrightarrow> routines ord' i \<noteq> None)"
proof (cases "i = 0 \<or> routines ord i = None \<or> \<not> sw")
  case True
  with assms show ?thesis
    by (auto simp: resume_def Let_def split: option.splits if_splits)
next
  case False
  then obtain r where r: "i \<noteq> 0" "routines ord i = Some r" "sw" by auto
  have inv: "slice_inv ord" "slice_inv (ord\<lparr>current_id := i\<rparr>)" using assms(1) by (simp_all add: ord_inv_def slice_inv_def)
  obtain e ord1 where e: "entered i r (ord\<lparr>current_id := i\<rparr>) = (e, ord1)" by (cases "entered i r (ord\<lparr>current_id := i\<rparr>)") auto
  from entered_inv [OF inv(2) e] have o1: "e \<noteq> Slice_undefined" "\<forall>i r. routines ord i = Some r \<longrightarrow> routines ord1 i = Some r" by auto
  show ?thesis using resume_eq [OF inv(1) r(1,2) e] assms(2) o1 r(3)
    by (cases e) (auto simp: Let_def split: option.splits)
qed

lemma kill_keeps:
  assumes "ord_inv ord" "kill sw i p ord = (out, ord')" "j \<noteq> i" "routines ord j = Some r"
  shows "routines ord' j = Some r"
proof (cases "i = 0 \<or> p = None \<or> routines ord i = None \<or> (\<exists>r. routines ord i = Some r \<and> r_finished r)")
  case True
  with assms(2,4) show ?thesis by (auto simp: kill_def split: option.splits if_splits)
next
  case False
  then obtain e q where q: "i \<noteq> 0" "p = Some e" "routines ord i = Some q" "\<not> r_finished q" by auto
  define ord1 where "ord1 = set_routine i (\<lambda>r. r\<lparr>r_exception := Some e\<rparr>) ord"
  have o1: "ord_inv ord1" "routines ord1 j = Some r"
    using assms by (auto simp: ord1_def ord_inv_def slice_inv_def set_routine_def)
  obtain out2 ord2 where k: "resume sw i ord1 = (out2, ord2)" by (cases "resume sw i ord1")
  have "routines ord2 j = Some r" using resume_keeps [OF o1(1) k] o1(2) assms(3) by blast
  moreover have "ord' = ord2"
    using assms(2) q k unfolding kill_def by (simp add: Let_def ord1_def [symmetric] split: outcome.splits)
  ultimately show ?thesis by simp
qed

text \<open>A routine that was switched to and did not yield is no longer active.\<close>

lemma resume_ends:
  assumes "ord_inv ord" "resume True i ord = (out, ord')" "i \<noteq> 0" "routines ord i \<noteq> None"
  shows "if out = Returns AGAIN then routines ord' i \<noteq> None else routines ord' i = None"
proof -
  from assms obtain r where r: "routines ord i = Some r" by auto
  have inv: "slice_inv ord" using assms(1) by (simp add: ord_inv_def)
  obtain e ord1 where e: "entered i r (ord\<lparr>current_id := i\<rparr>) = (e, ord1)" by (cases "entered i r (ord\<lparr>current_id := i\<rparr>)") auto
  have "e \<noteq> Slice_undefined" using entered_inv [OF _ e] inv by (simp add: slice_inv_def)
  with resume_eq [OF inv assms(3) r e] assms(2) show ?thesis
    by (cases e) (auto simp: Let_def split: option.splits)
qed

lemma std_no_epoll_error: "\<not> is_a (Std c) EpollError"
  by (simp add: is_a_EpollError)

lemma kill_never_returns: "kill sw i p ord = (out, ord') \<Longrightarrow> out \<noteq> Returns u"
  by (auto simp: kill_def Let_def split: option.splits if_splits outcome.splits prod.splits)

text \<open>A killed routine that ends with the exception it was killed with is no longer active either.\<close>

lemma kill_ends:
  assumes "ord_inv ord" "kill True i (Some e) ord = (Throws x, ord')" "routines ord i \<noteq> None" "catches EpollError x"
  shows "i \<noteq> 0 \<and> routines ord' i = None"
proof -
  have n: "i \<noteq> 0" "\<not> r_finished (the (routines ord i))"
    using assms std_no_epoll_error by (auto simp: kill_def catches_def std_exn_def plain_exn_def split: option.splits if_splits)
  define ord1 where "ord1 = set_routine i (\<lambda>r. r\<lparr>r_exception := Some e\<rparr>) ord"
  have o1: "ord_inv ord1" "routines ord1 i \<noteq> None"
    using assms by (auto simp: ord1_def ord_inv_def slice_inv_def set_routine_def)
  obtain out2 ord2 where k: "resume True i ord1 = (out2, ord2)" by (cases "resume True i ord1")
  have "out2 \<noteq> Returns s" for s
    using assms k n unfolding kill_def
    by (auto simp: Let_def ord1_def [symmetric] catches_def std_exn_def plain_exn_def std_no_epoll_error split: outcome.splits)
  moreover have "ord' = ord2"
    using assms(2,3) n k unfolding kill_def by (auto simp: Let_def ord1_def [symmetric] split: outcome.splits)
  ultimately show ?thesis using resume_ends [OF o1(1) k n(1) o1(2)] n by auto
qed

text \<open>Every client the worker keeps has its own descriptor as its key, and an active routine.\<close>

definition worker_inv :: "worker \<Rightarrow> bool" where
  "worker_inv w \<longleftrightarrow> ord_inv (ordi w) \<and> (\<forall>fd cl. clients w fd = Some cl \<longrightarrow>
     fd > 0 \<and> d_fd (sock_fd (cl_connection cl)) = fd \<and> routines (ordi w) (nat fd) \<noteq> None)"

text \<open>What the kernel answers: an accepted descriptor is not one of the standard streams' first.\<close>

fun accept_ok :: "accept_answer \<Rightarrow> bool" where
  "accept_ok (Accepted fd addr port nb name_answer add b) = (fd > 0)"
| "accept_ok a = True"

definition event_ok :: "event \<Rightarrow> bool" where
  "event_ok ev \<longleftrightarrow> list_all accept_ok (ev_accepts ev)"

fun round_ok :: "bool \<times> wait_answer \<Rightarrow> bool" where
  "round_ok (st, Wait_events evs) = list_all event_ok evs"
| "round_ok (st, Wait_error e) = True"

fun step_inv :: "'a step \<Rightarrow> bool" where
  "step_inv (Ok x w) = worker_inv w"
| "step_inv (Err e w) = True"
| "step_inv Undef = False"

lemma log_info_simps [simp]:
  "clients (log_info m w) = clients w" "ordi (log_info m w) = ordi w" "acceptor (log_info m w) = acceptor w"
  "epoll_fd (log_info m w) = epoll_fd w" "accepted (log_info m w) = accepted w" "closes (log_info m w) = closes w"
  by (simp_all add: log_info_def)

lemma dropped_simps [simp]:
  "clients (dropped calls w) = clients w" "ordi (dropped calls w) = ordi w" "acceptor (dropped calls w) = acceptor w"
  "epoll_fd (dropped calls w) = epoll_fd w" "accepted (dropped calls w) = accepted w" "closes (dropped calls w) = closes w @ calls"
  by (simp_all add: dropped_def)

lemma close_connection_inv:
  "ord_inv (ordi w) \<Longrightarrow> (\<forall>f cl. f \<noteq> fd \<longrightarrow> clients w f = Some cl \<longrightarrow>
     f > 0 \<and> d_fd (sock_fd (cl_connection cl)) = f \<and> routines (ordi w) (nat f) \<noteq> None) \<Longrightarrow>
   step_inv (close_connection fd w)"
  by (auto simp: close_connection_def worker_inv_def split: option.split)

lemma close_connection_ok:
  "close_connection fd w = Ok () w' \<Longrightarrow> clients w fd \<noteq> None \<and> clients w' = (clients w)(fd := None) \<and> ordi w' = ordi w"
  by (auto simp: close_connection_def split: option.splits)

lemma worker_inv_records [simp]:
  "worker_inv (dropped calls w) = worker_inv w" "worker_inv (log_info m w) = worker_inv w"
  "worker_inv (w\<lparr>accepted := fds\<rparr>) = worker_inv w"
  by (simp_all add: worker_inv_def)

lemma accepted_fd_kept:
  "Connection_accepted name_answer (fst (Descriptor_int fd)) addr port = Inr c \<Longrightarrow> d_fd (sock_fd c) = fd"
  by (auto simp: Connection_accepted_def set_src_endpoint_def connection_init_def Descriptor_int_def split: sum.splits)

lemma accept_one_inv:
  assumes "worker_inv w" "accept_ok a"
  shows "step_inv (accept_one a w)"
proof (cases a)
  case (Accepted fd addr port nb name_answer add rt)
  show ?thesis
  proof (cases "nb < 0 \<or> (\<exists>e. Connection_accepted name_answer (fst (Descriptor_int fd)) addr port = Inl e)")
    case True
    with Accepted show ?thesis by (auto simp: accept_one_def Let_def)
  next
    case False
    then obtain c where c: "Connection_accepted name_answer (fst (Descriptor_int fd)) addr port = Inr c" "\<not> nb < 0"
      by (cases "Connection_accepted name_answer (fst (Descriptor_int fd)) addr port") auto
    let ?w = "w\<lparr>accepted := accepted w @ [fd]\<rparr>"
    have fd: "d_fd (sock_fd c) = fd" "fd > 0" using accepted_fd_kept [OF c(1)] assms(2) Accepted by simp_all
    have inv: "slice_inv (ordi w)" "ord_inv (ordi w)" using assms(1) by (simp_all add: worker_inv_def ord_inv_def)
    obtain b given w' where w': "add_to_event_loop add c EPOLLIN ?w = (b, given, w')" by (cases "add_to_event_loop add c EPOLLIN ?w")
    have o: "ordi w' = ordi w" "acceptor w' = acceptor w" and cl: "\<forall>g cl. clients w' g = Some cl \<longrightarrow>
        g = fd \<and> cl_connection cl = c \<or> clients w g = Some cl"
      using w' fd by (auto simp: add_to_event_loop_def Let_def split: if_splits)
    have "ord_inv (created (nat fd) (Some rt) (ordi w))"
      using created_inv [OF inv(1)] inv(2) by (simp add: ord_inv_def created_def)
    moreover have "routines (created (nat fd) (Some rt) (ordi w)) (nat fd) \<noteq> None"
      "\<forall>g. routines (ordi w) g \<noteq> None \<longrightarrow> routines (created (nat fd) (Some rt) (ordi w)) g \<noteq> None"
      by (auto simp: created_def)
    ultimately have "worker_inv (w'\<lparr>ordi := created (nat fd) (Some rt) (ordi w)\<rparr>)"
      using cl fd assms(1) unfolding worker_inv_def by (simp, metis)
    then show ?thesis
      using Accepted c(2) by (simp add: accept_one_def Let_def c(1) w' o create_created [OF inv(1)])
  qed
qed (use assms in \<open>simp_all add: accept_one_def\<close>)

lemma accept_connections_inv:
  "worker_inv w \<Longrightarrow> list_all accept_ok as \<Longrightarrow> step_inv (accept_connections m as w)"
proof (induction m as w rule: accept_connections.induct)
  case (1 m a as w)
  then have "step_inv (accept_one a w)" by (simp add: accept_one_inv)
  with 1 show ?case by (auto split: step.splits bool.splits)
qed simp_all

lemma nat_eq_pos: "0 < (a::int) \<Longrightarrow> a \<noteq> b \<Longrightarrow> nat a \<noteq> nat b"
  by auto

lemma handle_client_inv:
  assumes "worker_inv w"
  shows "step_inv (handle_client se sw fd events w)"
proof -
  have inv: "ord_inv (ordi w)" using assms by (simp add: worker_inv_def)
  have others: "\<forall>f cl. f \<noteq> fd \<longrightarrow> clients w f = Some cl \<longrightarrow> f > 0 \<and> d_fd (sock_fd (cl_connection cl)) = f
      \<and> routines ord (nat f) \<noteq> None"
    if "\<forall>j r. j \<noteq> nat fd \<longrightarrow> routines (ordi w) j = Some r \<longrightarrow> routines ord j = Some r" for ord
    using assms that nat_eq_pos [of _ fd] unfolding worker_inv_def by (metis option.exhaust)
  show ?thesis
  proof (cases "hangup events")
    case True
    obtain out ord where k: "kill sw (nat fd) (Some (io_exn EpollError ''epollhup err'' 0)) (ordi w) = (out, ord)"
      by (cases "kill sw (nat fd) (Some (io_exn EpollError ''epollhup err'' 0)) (ordi w)")
    have i: "out \<noteq> Undefined" "ord_inv ord" using kill_inv [OF inv k] by auto
    have "step_inv (close_connection fd (w\<lparr>ordi := ord\<rparr>))"
      by (rule close_connection_inv) (use i(2) others [of ord] kill_keeps [OF inv k] in auto)
    with True i(1) show ?thesis by (auto simp: handle_client_def k split: outcome.splits)
  next
    case False
    obtain out ord where k: "resume sw (nat fd) (ordi w) = (out, ord)" by (cases "resume sw (nat fd) (ordi w)")
    have i: "out \<noteq> Undefined" "ord_inv ord" using resume_inv [OF inv k] by auto
    have o: "\<forall>f cl. f \<noteq> fd \<longrightarrow> clients w f = Some cl \<longrightarrow> f > 0 \<and> d_fd (sock_fd (cl_connection cl)) = f
      \<and> routines ord (nat f) \<noteq> None"
      using others [of ord] resume_keeps [OF inv k] by blast
    have "step_inv (close_connection fd (w\<lparr>ordi := ord\<rparr>))"
      by (rule close_connection_inv) (use i(2) o in \<open>simp, simp\<close>)
    moreover have "step_inv (close_connection fd (log_info m (w\<lparr>ordi := ord\<rparr>)))" for m
      by (rule close_connection_inv) (use i(2) o in \<open>simp, simp\<close>)
    moreover have "worker_inv (w\<lparr>ordi := ord\<rparr>)" if "out = Returns AGAIN"
      unfolding worker_inv_def
    proof (intro conjI allI impI)
      fix f cl assume "clients (w\<lparr>ordi := ord\<rparr>) f = Some cl"
      then show "f > 0" "d_fd (sock_fd (cl_connection cl)) = f" "routines (ordi (w\<lparr>ordi := ord\<rparr>)) (nat f) \<noteq> None"
        using o assms resume_keeps [OF inv k] that by (auto simp: worker_inv_def)
    qed (use i(2) in simp)
    ultimately show ?thesis using False i(1) by (auto simp: handle_client_def k split: outcome.splits)
  qed
qed

lemma handle_events_inv:
  "worker_inv w \<Longrightarrow> list_all event_ok evs \<Longrightarrow> step_inv (handle_events se evs w)"
proof (induction evs arbitrary: w)
  case (Cons ev evs)
  let ?s = "if ev_fd ev = acceptor w then accept_connections MAX_ACCEPTIONS_PER_LOOP (ev_accepts ev) w
                 else handle_client se (ev_swapped ev) (ev_fd ev) (ev_events ev) w"
  have "step_inv ?s" using accept_connections_inv handle_client_inv Cons.prems by (simp add: event_ok_def)
  with Cons show ?case by (cases ?s) (auto split: if_splits)
qed simp

lemma event_loop_inv:
  "worker_inv w \<Longrightarrow> list_all round_ok rounds \<Longrightarrow> step_inv (event_loop se rounds w)"
proof (induction rounds arbitrary: w)
  case (Cons r rounds)
  obtain st answer where r: "r = (st, answer)" by (cases r)
  show ?case
  proof (cases answer)
    case (Wait_events evs)
    then have "step_inv (handle_events se evs w)" using handle_events_inv Cons.prems r by simp
    with Cons r Wait_events show ?thesis by (cases "handle_events se evs w") auto
  qed (use Cons r in auto)
qed simp

text \<open>
  An exception a client routine ends with stops the event loop when it is neither an end of file nor
  another input and output error: the connection is not closed and no later event is handled.
\<close>

lemma worker_loop_stops:
  assumes "ev_fd e \<noteq> acceptor w" "\<not> ev_stopped e" "\<not> hangup (ev_events e)"
    and "resume (ev_swapped e) (nat (ev_fd e)) (ordi w) = (Throws x, ord)" "\<not> catches IoError x" "\<not> catches EofError x"
  shows "event_loop se ((False, Wait_events (e # evs)) # rounds) w = Err x (w\<lparr>ordi := ord\<rparr>)"
  using assms by (simp add: handle_client_def)

section \<open>Accepted sockets\<close>

text \<open>Every accepted socket was closed once, or is the socket of the client filed under it.\<close>

definition sockets_inv :: "worker \<Rightarrow> bool" where
  "sockets_inv w \<longleftrightarrow> (\<forall>fd. count_list (accepted w) fd
       = count_list (closes w) (Close fd) + (if clients w fd = None then 0 else 1))
     \<and> (\<forall>fd cl. clients w fd = Some cl \<longrightarrow> connection_destroy (cl_connection cl) = [Close fd])"

fun step_sockets :: "'a step \<Rightarrow> bool" where
  "step_sockets (Ok x w) = sockets_inv w"
| "step_sockets (Err e w) = sockets_inv w"
| "step_sockets Undef = True"

lemma sockets_invI:
  assumes "\<And>fd. count_list (accepted w) fd = count_list (closes w) (Close fd) + (if clients w fd = None then 0 else 1)"
    and "\<And>fd cl. clients w fd = Some cl \<Longrightarrow> connection_destroy (cl_connection cl) = [Close fd]"
  shows "sockets_inv w"
  using assms by (simp add: sockets_inv_def)

lemma sockets_invD:
  assumes "sockets_inv w"
  shows "count_list (accepted w) fd = count_list (closes w) (Close fd) + (if clients w fd = None then 0 else 1)"
    and "clients w fd = Some cl \<Longrightarrow> connection_destroy (cl_connection cl) = [Close fd]"
  using assms unfolding sockets_inv_def by blast+

lemma sockets_inv_records [simp]:
  "sockets_inv (w\<lparr>ordi := ord\<rparr>) = sockets_inv w" "sockets_inv (log_info m w) = sockets_inv w"
  by (simp_all add: sockets_inv_def)

lemma connection_destroy_calls: "d_fd (sock_fd c) = fd \<Longrightarrow> 0 < fd \<Longrightarrow> connection_destroy c = [Close fd]"
  by (simp add: connection_destroy_def is_opened_def is_valid_def descriptor_close_def)

lemma descriptor_destroy_calls: "0 < fd \<Longrightarrow> descriptor_destroy (fst (Descriptor_int fd)) = [Close fd]"
  by (simp add: descriptor_destroy_def Descriptor_int_def is_valid_def descriptor_close_def)

lemma close_connection_sockets:
  assumes "sockets_inv w"
  shows "step_sockets (close_connection fd w)"
proof (cases "clients w fd")
  case (Some cl)
  then show ?thesis
    using sockets_invD [OF assms] by (auto simp: close_connection_def intro!: sockets_invI split: if_splits)
qed (use assms in \<open>simp add: close_connection_def\<close>)

lemma refused_sockets:
  "sockets_inv w \<Longrightarrow> sockets_inv (dropped [Close fd] (w\<lparr>accepted := accepted w @ [fd]\<rparr>))"
  by (rule sockets_invI) (auto simp: sockets_invD)

lemma add_to_event_loop_sockets:
  assumes "sockets_inv w" "d_fd (sock_fd c) = fd" "0 < fd"
    and "add_to_event_loop add c events (w\<lparr>accepted := accepted w @ [fd]\<rparr>) = (b, given, w')"
  shows "sockets_inv (dropped (case given of None \<Rightarrow> [] | Some c \<Rightarrow> connection_destroy c) w')"
proof -
  have c: "connection_destroy c = [Close fd]" using assms(2,3) by (rule connection_destroy_calls)
  note i = sockets_invD [OF assms(1)]
  show ?thesis
  proof (cases "clients w fd")
    case None
    with assms(2,4) c show ?thesis
      by (intro sockets_invI) (auto simp: add_to_event_loop_def Let_def i split: if_splits)
  next
    case (Some cl)
    with assms(2,4) c i(2) [OF Some] show ?thesis
      by (intro sockets_invI) (auto simp: add_to_event_loop_def Let_def i split: if_splits)
  qed
qed

lemma accept_one_sockets:
  assumes "sockets_inv w" "accept_ok a"
  shows "step_sockets (accept_one a w)"
proof (cases a)
  case (Accepted fd addr port nb name_answer add rt)
  let ?w = "w\<lparr>accepted := accepted w @ [fd]\<rparr>"
  have fd: "0 < fd" using assms(2) Accepted by simp
  show ?thesis
  proof (cases "nb < 0 \<or> (\<exists>e. Connection_accepted name_answer (fst (Descriptor_int fd)) addr port = Inl e)")
    case True
    with Accepted refused_sockets [OF assms(1), of fd] show ?thesis
      by (auto simp: accept_one_def Let_def descriptor_destroy_calls [OF fd])
  next
    case False
    then obtain c where c: "Connection_accepted name_answer (fst (Descriptor_int fd)) addr port = Inr c" "\<not> nb < 0"
      by (cases "Connection_accepted name_answer (fst (Descriptor_int fd)) addr port") auto
    obtain b given w' where w': "add_to_event_loop add c EPOLLIN ?w = (b, given, w')" by (cases "add_to_event_loop add c EPOLLIN ?w")
    have "sockets_inv (dropped (case given of None \<Rightarrow> [] | Some c \<Rightarrow> connection_destroy c) w')"
      by (rule add_to_event_loop_sockets [OF assms(1) accepted_fd_kept [OF c(1)] fd w'])
    then have "sockets_inv (dropped (case given of None \<Rightarrow> [] | Some c \<Rightarrow> connection_destroy c) (w'\<lparr>ordi := ord\<rparr>))"
      "sockets_inv (dropped (case given of None \<Rightarrow> [] | Some c \<Rightarrow> connection_destroy c) (log_info m (w'\<lparr>ordi := ord\<rparr>)))" for m ord
      by (simp_all add: sockets_inv_def)
    then show ?thesis
      using Accepted c(2) by (auto simp: accept_one_def Let_def c(1) w' split: prod.split outcome.split)
  qed
qed (use assms in \<open>simp_all add: accept_one_def\<close>)

lemma accept_connections_sockets:
  "sockets_inv w \<Longrightarrow> list_all accept_ok as \<Longrightarrow> step_sockets (accept_connections m as w)"
proof (induction m as w rule: accept_connections.induct)
  case (1 m a as w)
  then have "step_sockets (accept_one a w)" by (simp add: accept_one_sockets)
  with 1 show ?case by (auto split: step.splits bool.splits)
qed simp_all

lemma handle_client_sockets:
  "sockets_inv w \<Longrightarrow> step_sockets (handle_client se sw fd events w)"
  by (auto simp: handle_client_def intro!: close_connection_sockets split: outcome.splits prod.splits)

lemma handle_events_sockets:
  "sockets_inv w \<Longrightarrow> list_all event_ok evs \<Longrightarrow> step_sockets (handle_events se evs w)"
proof (induction evs arbitrary: w)
  case (Cons ev evs)
  let ?s = "if ev_fd ev = acceptor w then accept_connections MAX_ACCEPTIONS_PER_LOOP (ev_accepts ev) w
                 else handle_client se (ev_swapped ev) (ev_fd ev) (ev_events ev) w"
  have "step_sockets ?s"
    using accept_connections_sockets handle_client_sockets Cons.prems by (simp add: event_ok_def)
  with Cons show ?case by (cases ?s) (auto split: if_splits)
qed simp

lemma event_loop_sockets:
  "sockets_inv w \<Longrightarrow> list_all round_ok rounds \<Longrightarrow> step_sockets (event_loop se rounds w)"
proof (induction rounds arbitrary: w)
  case (Cons r rounds)
  obtain st answer where r: "r = (st, answer)" by (cases r)
  show ?case
  proof (cases answer)
    case (Wait_events evs)
    then have "step_sockets (handle_events se evs w)" using handle_events_sockets Cons.prems r by simp
    with Cons r Wait_events show ?thesis by (cases "handle_events se evs w") auto
  qed (use Cons r in auto)
qed simp

section \<open>Properties\<close>

text \<open>C6: Whatever the kernel answers and however the client routines behave, the event loop keeps
  its clients consistent: every client is filed under its own descriptor and has an active routine,
  so the lookups of the client routine and of \<open>close_connection\<close> find it; and no operation of the
  ordinator is reached outside its preconditions.\<close>

theorem worker_invariant:
  assumes "worker_inv w" "list_all round_ok rounds"
  shows "event_loop se rounds w \<noteq> Undef \<and> (\<forall>w'. event_loop se rounds w = Ok () w' \<longrightarrow> worker_inv w')"
  using event_loop_inv [OF assms, of se] by (cases "event_loop se rounds w") auto

text \<open>A worker that waits on a fresh epoll instance, and a routine that yields once and returns.\<close>

definition example_worker :: worker where
  "example_worker = \<lparr>worker_id = 0, acceptor = 3, epoll_fd = fst (Descriptor_int 4), clients = (\<lambda>_. None),
     ordi = Ordinator, infos = [], accepted = [], closes = []\<rparr>"

definition once :: body where
  "once = Body (Yld (\<lambda>e. case e of None \<Rightarrow> Body Ret | Some e \<Rightarrow> Body (Thr e)))"

definition example_accept :: accept_answer where
  "example_accept = Accepted 5 ''1.2.3.4'' 99 0 (Inr (''0.0.0.0'', 80)) 0 once"

definition ev :: "int \<Rightarrow> 32 word \<Rightarrow> event" where
  "ev fd events = \<lparr>ev_stopped = False, ev_fd = fd, ev_events = events, ev_accepts = [example_accept], ev_swapped = True\<rparr>"


definition example_rounds :: "(bool \<times> wait_answer) list" where
  "example_rounds = [(False, Wait_error EINTR), (False, Wait_events [ev 3 EPOLLIN]), (False, Wait_events [ev 5 EPOLLIN])]"

lemma example_worker_inv: "worker_inv example_worker"
  by (simp add: worker_inv_def ord_inv_def slice_inv_def example_worker_def Ordinator_def)

theorem worker_invariant_witness:
  "\<exists>w'. event_loop (\<lambda>_. []) example_rounds example_worker = Ok () w' \<and> worker_inv w'
     \<and> clients w' 5 \<noteq> None"
proof -
  have "list_all round_ok example_rounds"
    by (simp add: example_rounds_def event_ok_def ev_def example_accept_def)
  note inv = worker_invariant [OF example_worker_inv this, of "\<lambda>_. []"]
  have "case event_loop (\<lambda>_. []) example_rounds example_worker of
      Ok _ w' \<Rightarrow> \<not> Option.is_none (clients w' 5) | _ \<Rightarrow> False"
    by code_simp
  with inv show ?thesis
    by (cases "event_loop (\<lambda>_. []) example_rounds example_worker") (auto simp: Option.is_none_def)
qed

text \<open>C29: A client and its routine end together: after an event of a client that the worker handles
  without throwing, either the client stays, with an active routine, or both the client and its
  routine are gone; no other client is touched.\<close>

theorem client_and_routine_end_together:
  assumes "worker_inv w" "handle_client se True fd events w = Ok () w'"
  shows "clients w' = clients w \<and> routines (ordi w') (nat fd) \<noteq> None \<and> \<not> hangup events
    \<or> clients w fd \<noteq> None \<and> clients w' = (clients w)(fd := None) \<and> routines (ordi w') (nat fd) = None"
proof (cases "hangup events")
  case True
  obtain out ord where k: "kill True (nat fd) (Some (io_exn EpollError ''epollhup err'' 0)) (ordi w) = (out, ord)"
    by (cases "kill True (nat fd) (Some (io_exn EpollError ''epollhup err'' 0)) (ordi w)")
  from assms(2) True k obtain x where x: "out = Throws x" "catches EpollError x" "close_connection fd (w\<lparr>ordi := ord\<rparr>) = Ok () w'"
    using kill_never_returns [OF k] by (auto simp: handle_client_def split: outcome.splits if_splits)
  with kill_ends [OF _ k [unfolded x(1)]] assms(1) show ?thesis by (auto simp: worker_inv_def dest: close_connection_ok)
next
  case False
  obtain out ord where k: "resume True (nat fd) (ordi w) = (out, ord)" by (cases "resume True (nat fd) (ordi w)")
  note ends = resume_ends [OF _ k]
  show ?thesis
  proof (cases "out = Returns AGAIN")
    case True
    then have "routines ord (nat fd) \<noteq> None" using resume_keeps [OF _ k] assms(1) by (simp add: worker_inv_def)
    with True False assms(2) k show ?thesis by (auto simp: handle_client_def)
  next
    case again: False
    with assms(2) False k obtain m where "close_connection fd (w\<lparr>ordi := ord\<rparr>) = Ok () w'
        \<or> close_connection fd (log_info m (w\<lparr>ordi := ord\<rparr>)) = Ok () w'"
      by (auto simp: handle_client_def split: outcome.splits if_splits)
    then have c: "clients w fd \<noteq> None" "clients w' = (clients w)(fd := None)" "ordi w' = ord"
      using close_connection_ok [of fd _ w'] by fastforce+
    then have "0 < fd" "routines (ordi w) (nat fd) \<noteq> None" "ord_inv (ordi w)"
      using assms(1) unfolding worker_inv_def by blast+
    with ends again c show ?thesis by simp
  qed
qed

theorem client_and_routine_end_together_witness:
  "\<exists>w w'. worker_inv w \<and> clients w 5 \<noteq> None \<and> handle_client (\<lambda>_. []) True 5 EPOLLHUP w = Ok () w' \<and> clients w' 5 = None
     \<and> routines (ordi w') 5 = None"
proof -
  define w where "w = example_worker\<lparr>clients := [5 \<mapsto> \<lparr>cl_connection = connection_init (fst (Descriptor_int 5)), cl_events = EPOLLIN\<rparr>],
      ordi := Ordinator\<lparr>routines := [5 \<mapsto> Routine (Some once)]\<rparr>\<rparr>"
  have inv: "worker_inv w"
    by (auto simp: w_def example_worker_def worker_inv_def ord_inv_def slice_inv_def Ordinator_def Routine_def
        connection_init_def Descriptor_int_def)
  have "case handle_client (\<lambda>_. []) True 5 EPOLLHUP w of Ok _ w' \<Rightarrow> True | _ \<Rightarrow> False"
    unfolding w_def by code_simp
  then obtain w' where w': "handle_client (\<lambda>_. []) True 5 EPOLLHUP w = Ok () w'"
    by (cases "handle_client (\<lambda>_. []) True 5 EPOLLHUP w") auto
  from client_and_routine_end_together [OF inv w'] have "clients w' 5 = None \<and> routines (ordi w') 5 = None"
    by (simp add: hangup_def EPOLLHUP_def EPOLLERR_def)
  moreover have "clients w 5 \<noteq> None" by (simp add: w_def)
  ultimately show ?thesis using inv w' by blast
qed

text \<open>C7: No accepted socket leaks and none is closed twice: however the event loop of a new worker ends, normally
  or with an exception, every socket that \<open>accept\<close> returned was closed exactly as often as it was
  returned, but for the sockets of the clients still there, which are closed once less and then by the
  destructor of the worker.\<close>

theorem accepted_sockets_closed_once:
  assumes "EpollWorker strerror i srv epoll_answer add_answer err ord = (Inr w, calls)" "list_all round_ok rounds"
    and "event_loop se rounds w = Ok () w' \<or> (\<exists>e. event_loop se rounds w = Err e w')"
  shows "count_list (accepted w') fd = count_list (closes w') (Close fd) + (if clients w' fd = None then 0 else 1)
    \<and> (clients w' fd \<noteq> None \<longrightarrow> Close fd \<in> EpollWorker_destroy w')"
proof -
  have "sockets_inv w"
    using assms(1) by (auto simp: EpollWorker_def Let_def sockets_inv_def split: if_splits)
  from event_loop_sockets [OF this assms(2), of se] assms(3) have "sockets_inv w'" by auto
  then show ?thesis using sockets_invD [of w'] by (auto simp: EpollWorker_destroy_def ran_def)
qed

definition example_server :: server where
  "example_server = \<lparr>server_sock_fd = \<lparr>d_fd = 3\<rparr>, is_stopped = False, srv_addr = ''0.0.0.0'', srv_port = 80\<rparr>"

lemma example_worker_made: "EpollWorker (\<lambda>_. []) 0 example_server 4 0 0 Ordinator = (Inr example_worker, [])"
  by (simp add: EpollWorker_def example_worker_def example_server_def Descriptor_int_def is_valid_def)

theorem accepted_sockets_closed_once_witness:
  "\<exists>w'. event_loop (\<lambda>_. []) [(False, Wait_events [ev 3 EPOLLIN]), (False, Wait_events [ev 5 EPOLLHUP])] example_worker = Ok () w'
     \<and> count_list (accepted w') 5 = 1 \<and> count_list (closes w') (Close 5) = 1"
proof -
  let ?rounds = "[(False, Wait_events [ev 3 EPOLLIN]), (False, Wait_events [ev 5 EPOLLHUP])]"
  have "case event_loop (\<lambda>_. []) ?rounds example_worker of
      Ok _ w' \<Rightarrow> accepted w' = [5] \<and> Option.is_none (clients w' 5) | _ \<Rightarrow> False"
    by code_simp
  then obtain w' where w': "event_loop (\<lambda>_. []) ?rounds example_worker = Ok () w'" "accepted w' = [5]" "clients w' 5 = None"
    by (cases "event_loop (\<lambda>_. []) ?rounds example_worker") (auto simp: Option.is_none_def split: option.splits)
  have "list_all round_ok ?rounds" by (simp add: event_ok_def ev_def example_accept_def)
  from accepted_sockets_closed_once [OF example_worker_made this, of "\<lambda>_. []" w' 5] w' show ?thesis by auto
qed

text \<open>The result of \<open>add_to_event_loop\<close> is not looked at: when \<open>epoll_ctl\<close> refuses a new connection, its
  client is erased and its socket closed, and still a routine is created under its number, which no event
  will ever resume or kill.\<close>

theorem refused_connection_leaves_routine:
  assumes "worker_inv w" "clients w fd = None" "is_valid (epoll_fd w)" "0 < fd" "0 \<le> nb" "add < 0"
    and "Connection_accepted name_answer (fst (Descriptor_int fd)) addr port = Inr c"
  shows "\<exists>w'. accept_one (Accepted fd addr port nb name_answer add b) w = Ok True w'
    \<and> clients w' fd = None \<and> closes w' = closes w @ [Close fd] \<and> routines (ordi w') (nat fd) \<noteq> None"
proof -
  have c: "d_fd (sock_fd c) = fd" by (rule accepted_fd_kept [OF assms(7)])
  moreover have "connection_destroy c = [Close fd]" by (rule connection_destroy_calls [OF c assms(4)])
  moreover have "routines (created (nat fd) (Some b) (ordi w)) (nat fd) \<noteq> None" by (simp add: created_def)
  moreover have "slice_inv (ordi w)" using assms(1) by (simp add: worker_inv_def ord_inv_def)
  ultimately show ?thesis using assms(2,3,5-7)
    by (simp add: accept_one_def add_to_event_loop_def Let_def create_created)
qed

theorem refused_connection_leaves_routine_witness:
  "\<exists>w'. accept_one (Accepted 5 ''1.2.3.4'' 99 0 (Inr (''0.0.0.0'', 80)) (-1) once) example_worker = Ok True w'
     \<and> clients w' 5 = None \<and> closes w' = [Close 5] \<and> routines (ordi w') 5 \<noteq> None"
proof -
  have "is_valid (epoll_fd example_worker)" "clients example_worker 5 = None"
    by (simp_all add: example_worker_def Descriptor_int_def is_valid_def)
  moreover obtain c where "Connection_accepted (Inr (''0.0.0.0'', 80)) (fst (Descriptor_int 5)) ''1.2.3.4'' 99 = Inr c"
    by (auto simp: Connection_accepted_def set_src_endpoint_def)
  ultimately show ?thesis
    using refused_connection_leaves_routine [OF example_worker_inv, of 5 0 "-1" "Inr (''0.0.0.0'', 80)" "''1.2.3.4''" 99 c once]
    by (simp add: example_worker_def [THEN arg_cong, of closes])
qed

end
