(* ===== verification/HttpService.thy ===== *)
theory HttpService imports HttpStatic HttpWorker begin

text \<open>
  The client routine of \<open>tinyhttp/epoll_worker\<close> as a whole, from the first byte received to the last
  byte sent, and the threads of \<open>Server::run\<close>. The handler is \<open>on_request\<close> of the server, which is
  virtual; the senders it leaves in responses are run by the second parameter.
\<close>

section \<open>The client routine\<close>

text \<open>The client of the running routine; \<open>at\<close> throws when there is none under its number.\<close>

definition routine_client :: "worker \<Rightarrow> exn + client" where
  "routine_client w =
     (case clients w (int (current (ordi w))) of None \<Rightarrow> Inl (std_exn Out_of_range) | Some client \<Rightarrow> Inr client)"

text \<open>
  One request, then the \<open>break\<close>: what became of the routine after a number of resumes, and the events the
  client waits for then. The request read, they become those for writing, if \<open>epoll_ctl\<close> does not refuse;
  the result of \<open>change_event\<close> is not looked at.
\<close>

definition client_routine ::
  "(http_headers \<Rightarrow> http_headers) \<Rightarrow> (http_request \<Rightarrow> exn + 's http_response)
    \<Rightarrow> ('s \<Rightarrow> 's http_response \<Rightarrow> nat \<Rightarrow> send_answer list \<Rightarrow> connection \<Rightarrow> send_run) \<Rightarrow> descriptor \<Rightarrow> int
    \<Rightarrow> nat \<Rightarrow> recv_answer list \<Rightarrow> send_answer list \<Rightarrow> client \<Rightarrow> send_run \<times> 32 word" where
  "client_routine hord handler sender epoll mod_answer n ras sas client =
     (case read_http_request n ras (cl_connection client) of
        Threw e c \<Rightarrow> (Send_threw e [] c, cl_events client)
      | Suspended c \<Rightarrow> (Send_suspended [] c, cl_events client)
      | Done request n _ c \<Rightarrow>
          let (_, client) = change_event epoll mod_answer client EPOLLOUT in
          (case handler request of
             Inl e \<Rightarrow> Send_threw e [] c
           | Inr response \<Rightarrow>
               (case rs_sender response of
                  Some s \<Rightarrow>
                    (case sender s response n sas c of
                       Sent wire n as c \<Rightarrow> Sent wire n as (clear_buffer c)
                     | r \<Rightarrow> r)
                | None \<Rightarrow> send_http_response hord response n sas c),
           cl_events client))"

text \<open>What the client waits for once its request is read.\<close>

definition answer_events :: "descriptor \<Rightarrow> int \<Rightarrow> client \<Rightarrow> 32 word" where
  "answer_events epoll mod_answer client = (if is_valid epoll \<and> mod_answer < 0 then cl_events client else EPOLLOUT)"

lemma change_event_events: "cl_events (snd (change_event epoll mod_answer client EPOLLOUT)) = answer_events epoll mod_answer client"
  by (simp add: change_event_def answer_events_def)

lemma client_routine_waits_for:
  "snd (client_routine hord handler sender epoll mod_answer n ras sas client) =
     (case read_http_request n ras (cl_connection client) of
        Done request m as c \<Rightarrow> answer_events epoll mod_answer client | _ \<Rightarrow> cl_events client)"
  by (simp add: client_routine_def change_event_events [symmetric] case_prod_unfold split: run.split)

lemma client_routine_run:
  "fst (client_routine hord handler sender epoll mod_answer n ras sas client) =
     (case read_http_request n ras (cl_connection client) of
        Threw e c \<Rightarrow> Send_threw e [] c
      | Suspended c \<Rightarrow> Send_suspended [] c
      | Done request n _ c \<Rightarrow>
          (case handler request of
             Inl e \<Rightarrow> Send_threw e [] c
           | Inr response \<Rightarrow>
               (case rs_sender response of
                  Some s \<Rightarrow> (case sender s response n sas c of Sent wire n as c \<Rightarrow> Sent wire n as (clear_buffer c) | r \<Rightarrow> r)
                | None \<Rightarrow> send_http_response hord response n sas c)))"
  by (simp add: client_routine_def case_prod_unfold split: run.split)

lemma client_routine_sent:
  "fst (client_routine hord handler sender epoll mod_answer n ras sas client) = Sent wire m as c \<Longrightarrow>
   snd (client_routine hord handler sender epoll mod_answer n ras sas client) = answer_events epoll mod_answer client"
  by (cases "read_http_request n ras (cl_connection client)") (simp_all add: client_routine_run client_routine_waits_for)

text \<open>A worker that keeps its invariant has the client of each of its routines.\<close>

lemma routine_client_found:
  assumes "worker_inv w" "clients w fd = Some client"
  shows "routine_client (w\<lparr>ordi := (ordi w)\<lparr>current_id := nat fd\<rparr>\<rparr>) = Inr client"
proof -
  have "0 < fd" using assms unfolding worker_inv_def by blast
  with assms(2) show ?thesis by (simp add: routine_client_def current_def)
qed

text \<open>The sender of a static response, with what \<open>open\<close> finds at a path.\<close>

definition static_sender ::
  "(http_headers \<Rightarrow> http_headers) \<Rightarrow> string \<Rightarrow> (string \<Rightarrow> string option) \<Rightarrow> file_answer list \<Rightarrow> file_sender
    \<Rightarrow> file_sender http_response \<Rightarrow> nat \<Rightarrow> send_answer list \<Rightarrow> connection \<Rightarrow> send_run" where
  "static_sender hord date open_file fas s response n sas c =
     run_file_sender hord date (open_file (fst s)) response (snd s) n sas fas c"

section \<open>The routine as a coroutine\<close>

text \<open>
  A run says what a routine has done after a number of further resumes. As the body of a coroutine it
  yields while the run is suspended, and ends the way the run ends; a \<open>yield\<close> that throws ends it.
\<close>

primcorec unfold_body :: "('s \<Rightarrow> 's slice) \<Rightarrow> 's \<Rightarrow> body" where
  "slice_of (unfold_body step s) = map_slice (unfold_body step) (step s)"

definition routine_step :: "(nat \<Rightarrow> send_run) \<Rightarrow> nat + exn \<Rightarrow> (nat + exn) slice" where
  "routine_step run s = (case s of
       Inr e \<Rightarrow> Thr e
     | Inl n \<Rightarrow> (case run n of
           Sent wire m as c \<Rightarrow> Ret
         | Send_threw e wire c \<Rightarrow> Thr e
         | Send_suspended wire c \<Rightarrow> Yld (\<lambda>p. case p of None \<Rightarrow> Inl (Suc n) | Some e \<Rightarrow> Inr e)))"

definition routine_body :: "(nat \<Rightarrow> send_run) \<Rightarrow> body" where
  "routine_body run = unfold_body (routine_step run) (Inl 0)"

fun suspended :: "send_run \<Rightarrow> bool" where
  "suspended (Send_suspended wire c) = True"
| "suspended r = False"

fun run_outcome :: "send_run \<Rightarrow> coroutine_status outcome" where
  "run_outcome (Sent wire m as c) = Returns FINISHED"
| "run_outcome (Send_threw e wire c) = Throws e"
| "run_outcome (Send_suspended wire c) = Returns AGAIN"

primrec resume_times :: "nat \<Rightarrow> nat \<Rightarrow> ordinator \<Rightarrow> ordinator" where
  "resume_times 0 i ord = ord"
| "resume_times (Suc k) i ord = resume_times k i (snd (resume True i ord))"

section \<open>The threads of a server\<close>

text \<open>
  \<open>run\<close> starts all workers but one in threads of their own and is itself the last. An exception that
  leaves a thread ends the process, and so does one that leaves \<open>run\<close> while threads are joinable. The
  vector of threads cannot have \<open>thread_counts - 1\<close> elements when that wraps around: a
  \<open>length_error\<close>, one of the logic errors.
\<close>

datatype run_end = Run_returned | Run_threw exn | Process_terminated

definition server_run :: "nat \<Rightarrow> (nat \<Rightarrow> exn option) \<Rightarrow> run_end" where
  "server_run thread_counts worker =
     (if thread_counts = 0 then Run_threw (std_exn Logic_error)
      else if list_ex (\<lambda>id. worker id \<noteq> None) [0..<thread_counts - 1] then Process_terminated
      else case worker (thread_counts - 1) of
          None \<Rightarrow> Run_returned
        | Some e \<Rightarrow> if thread_counts = 1 then Run_threw e else Process_terminated)"

definition loop_exception :: "unit step \<Rightarrow> exn option" where
  "loop_exception r = (case r of Err e w \<Rightarrow> Some e | _ \<Rightarrow> None)"

section \<open>Lemmas\<close>

text \<open>A request without a body leaves resumes for what follows.\<close>

lemma read_http_request_no_body:
  assumes "is_opened c" "list_all recv_goes_on as" "message_lines l ls"
    and "recv_data as = message_text l ls []" "length as \<le> n"
    and "HttpRequestLine l = Inr rl" "HttpHeaders (lines_text ls) = Inr h" "announces h []"
  obtains n' as' c' where "read_http_request n as c = Done \<lparr>rq_line = rl, rq_headers = h, rq_body = []\<rparr> n' as' c'"
    "is_opened c'" "n \<le> n' + length as"
proof -
  obtain as1 as2 c' n' x where r: "as = as1 @ as2"
    "read_until_headers_end n as (clear_buffer c) = Done (length l + length (lines_text ls)) n' as2 c'"
    "io_buffer c' = message_text l ls x" "is_opened c'" "n' + length as1 = Suc n" "as1 \<noteq> []"
    by (rule read_head [OF assms(1-4), of n "[]"]) (use assms(5) in auto)
  have parts: "head_parts (io_buffer c') (length l + length (lines_text ls)) = (l, lines_text ls)"
    unfolding r(3) by (rule head_parts_message [OF assms(3)])
  have "read_announced_body h (length l + length (lines_text ls)) n' as2 c' = Done [] n' as2 c'"
    using assms(8) by (auto simp: read_announced_body_def announces_def read_body_def)
  then have "read_http_request n as c = Done \<lparr>rq_line = rl, rq_headers = h, rq_body = []\<rparr> n' as2 (clear_buffer c')"
    by (simp add: read_http_request_def r(2) parts assms(6,7) HttpRequest_body_def)
  moreover have "is_opened (clear_buffer c')" using r(4) by (simp add: clear_buffer_def)
  ultimately show thesis using that r(1,5) by auto
qed

text \<open>A routine that waits for its next resume, the one after \<open>n\<close> others.\<close>

definition waiting :: "(nat \<Rightarrow> send_run) \<Rightarrow> nat \<Rightarrow> routine \<Rightarrow> bool" where
  "waiting run n r \<longleftrightarrow> r_exception r = None \<and>
     (r_ctx r = Fresh \<and> n = 0 \<and> r_func r = Some (routine_body run)
      \<or> (\<exists>k. r_ctx r = At_yield k \<and> k None = unfold_body (routine_step run) (Inl n)))"

lemma waiting_entered:
  assumes "waiting run n r"
  shows "entered i r ord = (case run n of
      Sent wire m as c \<Rightarrow> (Ended None, ord)
    | Send_threw e wire c \<Rightarrow> (Ended (Some e), ord)
    | Send_suspended wire c \<Rightarrow>
        (Yielded (unfold_body (routine_step run) \<circ> (\<lambda>p. case p of None \<Rightarrow> Inl (Suc n) | Some e \<Rightarrow> Inr e)), ord))"
  using assms
  by (auto simp: waiting_def entered_def routine_body_def routine_step_def split: send_run.split)

lemma waiting_resumed:
  assumes "ord_inv ord" "i \<noteq> 0" "routines ord i = Some r" "waiting run n r" "resume True i ord = (out, ord')"
  shows "out = run_outcome (run n) \<and> ord_inv ord'
    \<and> (suspended (run n) \<longrightarrow> (\<exists>r'. routines ord' i = Some r' \<and> waiting run (Suc n) r'))"
proof -
  have inv: "slice_inv ord" using assms(1) by (simp add: ord_inv_def)
  have x: "r_exception r = None" using assms(4) by (simp add: waiting_def)
  note eq = resume_eq [OF inv assms(2,3) surjective_pairing]
  show ?thesis using eq resume_inv [OF assms(1,5)] assms(5) x
    by (cases "run n") (auto simp: waiting_entered [OF assms(4)] waiting_def Let_def)
qed

text \<open>A request line that does not parse, once the head is there.\<close>

lemma read_http_request_refused:
  assumes "is_opened c" "message_lines l ls" "HttpRequestLine l = Inl e"
  shows "\<exists>c'. read_http_request n (Received (message_text l ls []) # as) c = Threw e c'"
proof -
  obtain as1 as2 c' n' x where r: "[Received (message_text l ls [])] = as1 @ as2"
    "read_until_headers_end n ([Received (message_text l ls [])] @ as) (clear_buffer c) =
      Done (length l + length (lines_text ls)) n' (as2 @ as) c'" "io_buffer c' = message_text l ls x"
    by (rule read_head [OF assms(1) _ assms(2), of "[Received (message_text l ls [])]" "[]" n as])
      (auto simp: message_text_def)
  have "head_parts (io_buffer c') (length l + length (lines_text ls)) = (l, lines_text ls)"
    unfolding r(3) by (rule head_parts_message [OF assms(2)])
  with r(2) assms(3) show ?thesis by (simp add: read_http_request_def)
qed

text \<open>The routine of a client that asks for a file.\<close>

lemma client_routine_serves:
  assumes "is_opened (cl_connection client)" "message_lines l ls" "HttpRequestLine l = Inr rl" "HttpHeaders (lines_text ls) = Inr h"
    and "announces h []" "list_all recv_goes_on ras" "recv_data ras = message_text l ls []"
    and "on_request fs date root \<lparr>rq_line = rl, rq_headers = h, rq_body = []\<rparr> = Inr response"
    and "rs_sender response = Some (f, length data)" "open_file f = Some data"
    and "response_to_string hord response = Inr head"
    and "list_all (takes_all FILE_WRITE_BYTES_PER_CALL) sas" "length head \<le> FILE_WRITE_BYTES_PER_CALL * length sas"
    and "list_all file_goes_on fas" "length data \<le> length (filter file_takes fas)"
    and "length ras + length sas + length fas \<le> n"
  shows "\<exists>n' c'. client_routine hord (on_request fs date root) (static_sender hord date open_file fas) epoll mod_answer n ras sas client =
      (Sent (head @ data) n' [] c', answer_events epoll mod_answer client) \<and> io_buffer c' = []"
proof -
  obtain n1 as1 c1 where rd: "read_http_request n ras (cl_connection client) = Done \<lparr>rq_line = rl, rq_headers = h, rq_body = []\<rparr> n1 as1 c1"
    "is_opened c1" "n \<le> n1 + length ras"
    by (rule read_http_request_no_body [OF assms(1,6,2,7) _ assms(3-5), of n]) (use assms(16) in auto)
  have "\<exists>n' c'. run_file_sender hord date (Some data) response (length data) n1 sas fas c1 = Sent (head @ data) n' [] c'"
    by (rule run_file_sender_complete [OF assms(11) refl rd(2)]) (use assms rd(3) in auto)
  then show ?thesis
    by (auto simp: client_routine_def change_event_events [symmetric] case_prod_unfold rd(1) assms(8,9,10) static_sender_def clear_buffer_def)
qed

section \<open>Properties\<close>

text \<open>
  C19: A run, which counts how often it is resumed, and the coroutine with this run as its body are the
  same thing: while the run is suspended every resume returns \<open>AGAIN\<close>, and the next one returns
  \<open>FINISHED\<close> or throws as the run does.
\<close>

theorem routine_resumed:
  assumes "ord_inv ord" "i \<noteq> 0" "routines ord i = Some (Routine (Some (routine_body run)))"
    and "\<forall>j < k. suspended (run j)"
  shows "fst (resume True i (resume_times k i ord)) = run_outcome (run k)"
proof -
  have "fst (resume True i (resume_times k i ord)) = run_outcome (run (n + k))"
    if "ord_inv ord" "routines ord i = Some r" "waiting run n r" "\<forall>j < k. suspended (run (n + j))" for n r ord
    using that
  proof (induction k arbitrary: ord n r)
    case 0
    then show ?case using waiting_resumed [OF 0(1) assms(2) 0(2,3) surjective_pairing] by simp
  next
    case (Suc k)
    from waiting_resumed [OF Suc.prems(1) assms(2) Suc.prems(2,3) surjective_pairing] Suc.prems(4)
    obtain r' where "ord_inv (snd (resume True i ord))" "routines (snd (resume True i ord)) i = Some r'" "waiting run (Suc n) r'"
      by auto
    moreover have "\<forall>j < k. suspended (run (Suc n + j))" using Suc.prems(4) by (metis Suc_mono add_Suc_shift)
    ultimately show ?case using Suc.IH by simp
  qed
  from this [OF assms(1,3), of 0] assms(4) show ?thesis by (simp add: waiting_def Routine_def)
qed

text \<open>
  C1: A file is served from end to end on a connection that works: when the bytes of a request without a body
  arrive, cut in any way, and the handler answers it with a response that has a sender for a file, and if
  the file still has the announced length, the kernel takes every piece of the head whole (a piece
  taken in part is \<open>send_http_response_short\<close>), \<open>sendfile\<close> takes something often enough, and the routine is
  resumed once per answer, then the routine puts the printed response and exactly the contents of the
  file on the wire and ends with an empty buffer, and the client waits for the events of writing, unless
  \<open>epoll_ctl\<close> refused.
\<close>

theorem static_request_served:
  assumes "is_opened (cl_connection client)" "message_lines l ls" "HttpRequestLine l = Inr rl" "HttpHeaders (lines_text ls) = Inr h"
    and "announces h []" "list_all recv_goes_on ras" "recv_data ras = message_text l ls []"
    and "on_request fs date root \<lparr>rq_line = rl, rq_headers = h, rq_body = []\<rparr> = Inr response"
    and "rs_sender response = Some (f, length data)" "open_file f = Some data"
    and "response_to_string hord response = Inr head"
    and "list_all (takes_all FILE_WRITE_BYTES_PER_CALL) sas" "length head \<le> FILE_WRITE_BYTES_PER_CALL * length sas"
    and "list_all file_goes_on fas" "length data \<le> length (filter file_takes fas)"
    and "length ras + length sas + length fas \<le> n"
  shows "\<exists>n' c'. client_routine hord (on_request fs date root) (static_sender hord date open_file fas) epoll mod_answer n ras sas client =
      (Sent (head @ data) n' [] c', answer_events epoll mod_answer client) \<and> io_buffer c' = []"
  using assms by (rule client_routine_serves)

text \<open>
  Any request the handler answers without a sender, an error page or a \<open>HEAD\<close>, is answered with
  exactly the printed response, and its client waits for the events of writing unless \<open>epoll_ctl\<close> refused.
\<close>

theorem static_error_answered:
  assumes "is_opened (cl_connection client)" "message_lines l ls" "HttpRequestLine l = Inr rl" "HttpHeaders (lines_text ls) = Inr h"
    and "announces h []" "list_all recv_goes_on ras" "recv_data ras = message_text l ls []"
    and "on_request fs date root \<lparr>rq_line = rl, rq_headers = h, rq_body = []\<rparr> = Inr response"
    and "rs_sender response = None" "response_to_string hord response = Inr t"
    and "list_all (takes_all MAX_WRITE_BYTES_PER_CALL) sas" "length t \<le> MAX_WRITE_BYTES_PER_CALL * length sas"
    and "length ras + length sas \<le> n"
  shows "\<exists>n' as' c'. client_routine hord (on_request fs date root) (static_sender hord date open_file fas) epoll mod_answer n ras sas client =
      (Sent t n' as' c', answer_events epoll mod_answer client) \<and> io_buffer c' = []"
proof -
  obtain n1 as1 c1 where rd: "read_http_request n ras (cl_connection client) = Done \<lparr>rq_line = rl, rq_headers = h, rq_body = []\<rparr> n1 as1 c1"
    "is_opened c1" "n \<le> n1 + length ras"
    by (rule read_http_request_no_body [OF assms(1,6,2,7) _ assms(3-5), of n]) (use assms(13) in auto)
  have f: "filter (takes_all MAX_WRITE_BYTES_PER_CALL) sas = sas" using assms(11) by (simp add: list_all_iff)
  have "\<exists>n' as' c'. send_http_response hord response n1 sas c1 = Sent t n' as' c' \<and> io_buffer c' = []"
    by (rule send_http_response_all [OF rd(2) assms(10)]) (use assms(11-13) rd(3) f in \<open>auto simp: list_all_iff\<close>)
  then show ?thesis by (auto simp: client_routine_def change_event_events [symmetric] case_prod_unfold rd(1) assms(8,9))
qed

text \<open>
  C34: A first line that does not parse ends the whole server: when it arrives, the routine throws the
  syntax error, the event loop of the worker throws it, and a server with a second worker is terminated.
\<close>

theorem malformed_request_terminates_server:
  assumes "message_lines l ls" "HttpRequestLine l = Inl e" "is_opened (cl_connection client)" "worker_inv w" "fd > 0" "fd \<noteq> acceptor w"
    and "routines (ordi w) (nat fd) = Some (Routine (Some (routine_body (\<lambda>n.
        fst (client_routine hord handler sender epoll mod_answer n (Received (message_text l ls []) # ras) sas client)))))"
    and "worker i = loop_exception (event_loop se ((False, Wait_events
        (\<lparr>ev_stopped = False, ev_fd = fd, ev_events = EPOLLIN, ev_accepts = [], ev_swapped = True\<rparr> # evs)) # rounds) w)"
    and "i < thread_counts" "1 < thread_counts"
  shows "worker i = Some e \<and> server_run thread_counts worker = Process_terminated"
proof -
  let ?run = "\<lambda>n. fst (client_routine hord handler sender epoll mod_answer n (Received (message_text l ls []) # ras) sas client)"
  let ?ev = "\<lparr>ev_stopped = False, ev_fd = fd, ev_events = EPOLLIN, ev_accepts = [], ev_swapped = True\<rparr>"
  have e: "\<not> catches IoError e" "\<not> catches EofError e"
    using HttpRequestLine_error [OF assms(2)] by (auto simp: catches_def is_a_IoError is_a_EofError is_a_HttpSyntaxError)
  obtain c' where "read_http_request 0 (Received (message_text l ls []) # ras) (cl_connection client) = Threw e c'"
    using read_http_request_refused [OF assms(3,1,2), of 0 ras] by blast
  then have run: "run_outcome (?run 0) = Throws e" by (simp add: client_routine_def)
  obtain out ord where res: "resume True (nat fd) (ordi w) = (out, ord)" by (cases "resume True (nat fd) (ordi w)")
  have "ord_inv (ordi w)" "nat fd \<noteq> 0" using assms(4,5) by (simp_all add: worker_inv_def)
  moreover have "waiting ?run 0 (Routine (Some (routine_body ?run)))" by (simp add: waiting_def Routine_def)
  ultimately have "out = Throws e" using waiting_resumed [OF _ _ assms(7) _ res] run by simp
  with res have "resume True (nat fd) (ordi w) = (Throws e, ord)" by simp
  then have "event_loop se ((False, Wait_events (?ev # evs)) # rounds) w = Err e (w\<lparr>ordi := ord\<rparr>)"
    using worker_loop_stops [of ?ev w e ord se evs rounds] e assms(6)
    by (simp add: hangup_def EPOLLIN_def EPOLLHUP_def EPOLLERR_def)
  then have w: "worker i = Some e" using assms(8) by (simp add: loop_exception_def)
  then have "list_ex (\<lambda>id. worker id \<noteq> None) [0..<thread_counts - 1] \<or> i = thread_counts - 1"
    using assms(9) by (auto simp: list_ex_iff)
  with w assms(10) show ?thesis by (auto simp: server_run_def split: option.split)
qed

section \<open>Examples\<close>

definition open_fs :: file_system where
  "open_fs = \<lparr>fs_exists = (\<lambda>p. (True, 0)), fs_canonical = Some, fs_is_directory = (\<lambda>p. False), fs_file_size = (\<lambda>p. Some 3)\<rparr>"

definition empty_fs :: file_system where
  "empty_fs = open_fs\<lparr>fs_exists := (\<lambda>p. (False, 0))\<rparr>"

abbreviation example_line :: http_request_line where
  "example_line \<equiv> \<lparr>rl_version = V1_0, rl_method = GET, rl_url = ''/a'', rl_query = []\<rparr>"

abbreviation example_connection :: connection where
  "example_connection \<equiv> connection_init \<lparr>d_fd = 5\<rparr>"

definition example_client :: client where
  "example_client = \<lparr>cl_connection = example_connection, cl_events = EPOLLIN\<rparr>"

lemma example_head_parts:
  "HttpRequestLine ''GET /a HTTP/1.0'' = Inr example_line" "HttpHeaders (lines_text []) = Inr []" "announces [] []"
  "is_opened (cl_connection example_client)" "message_lines ''GET /a HTTP/1.0'' []"
proof -
  have dec: "decode_url ''/a'' = ''/a''" by (intro decode_url_plain) simp_all
  show "HttpRequestLine ''GET /a HTTP/1.0'' = Inr example_line"
    using request_line_parts [of "''GET''" "''/a''" "''HTTP/1.0''"] parse_version_printed [of V1_0]
      parse_target_plain [of "''/a''"]
    by (simp add: dec get_http_method_code_def http_method_code_def)
  show "HttpHeaders (lines_text []) = Inr []" using parse_headers_stop(1) [of "[]"] by (simp add: HttpHeaders_def)
qed (simp_all add: announces_def headers_contains_def is_opened_def connection_init_def is_valid_def message_lines_def example_client_def)

lemma example_file_response:
  obtains response head where "on_request open_fs ''now'' ''/w'' \<lparr>rq_line = example_line, rq_headers = [], rq_body = []\<rparr> = Inr response"
    "rs_sender response = Some (''/w/a'', length ''abc'')" "response_to_string id response = Inr head"
proof -
  let ?q = "\<lparr>rq_line = example_line, rq_headers = [], rq_body = []\<rparr>"
  have "\<exists>response. on_request open_fs ''now'' ''/w'' ?q = Inr response \<and> rs_sender response = Some (''/w/a'', length ''abc'')
      \<and> rs_line response = \<lparr>sl_version = V1_0, sl_status = OK\<rparr>"
    by (simp add: on_request_def serve_file_def Let_def set_sender_def open_fs_def sv_find_0)
  then obtain response where r: "on_request open_fs ''now'' ''/w'' ?q = Inr response"
    "rs_sender response = Some (''/w/a'', length ''abc'')" "rs_line response = \<lparr>sl_version = V1_0, sl_status = OK\<rparr>" by blast
  obtain head where h: "response_to_string id response = Inr head" using response_prints [of response id] r(3) by auto
  show thesis by (rule that [OF r(1,2) h])
qed

theorem static_request_served_witness:
  "\<exists>head n as n' c'. client_routine id (on_request open_fs ''now'' ''/w'') (static_sender id ''now'' (\<lambda>p. Some ''abc'')
      [File_taken 2, File_error EAGAIN ''again'', File_taken 1, File_taken 1]) \<lparr>d_fd = 4\<rparr> 0 n
      [Received (message_text ''GET /a HTTP/1.0'' [] [])] as example_client = (Sent (head @ ''abc'') n' [] c', EPOLLOUT)"
proof -
  obtain response head where r: "on_request open_fs ''now'' ''/w'' \<lparr>rq_line = example_line, rq_headers = [], rq_body = []\<rparr> = Inr response"
    "rs_sender response = Some (''/w/a'', length ''abc'')" and h: "response_to_string id response = Inr head"
    by (rule example_file_response)
  let ?sas = "replicate (length head) (Taken FILE_WRITE_BYTES_PER_CALL)"
  have "list_all (takes_all FILE_WRITE_BYTES_PER_CALL) ?sas" "length head \<le> FILE_WRITE_BYTES_PER_CALL * length ?sas"
    by (simp_all add: list_all_iff FILE_WRITE_BYTES_PER_CALL_def)
  from static_request_served [OF example_head_parts(4,5,1-3) _ _ r(1,2) _ h this,
      where ras = "[Received (message_text ''GET /a HTTP/1.0'' [] [])]" and n = "length head + 5"
        and fas = "[File_taken 2, File_error EAGAIN ''again'', File_taken 1, File_taken 1]" and open_file = "\<lambda>p. Some ''abc''" and epoll = "\<lparr>d_fd = 4\<rparr>" and mod_answer = 0]
  show ?thesis by (fastforce simp: message_text_def answer_events_def)
qed

theorem static_error_answered_witness:
  "\<exists>t n as n' as' c'. client_routine id (on_request empty_fs ''now'' ''/w'') (static_sender id ''now'' (\<lambda>p. None) []) \<lparr>d_fd = 4\<rparr> (-1) n
      [Received (message_text ''GET /a HTTP/1.0'' [] [])] as example_client = (Sent t n' as' c', EPOLLIN)"
proof -
  let ?q = "\<lparr>rq_line = example_line, rq_headers = [], rq_body = []\<rparr>"
  let ?r = "HttpResponse ''now'' NotFound V1_0 :: file_sender http_response"
  have r: "on_request empty_fs ''now'' ''/w'' ?q = Inr ?r" by (simp add: on_request_def Let_def empty_fs_def)
  obtain t where t: "response_to_string id ?r = Inr t" using response_prints [of ?r id] by auto
  let ?sas = "replicate (length t) (Taken MAX_WRITE_BYTES_PER_CALL)"
  have "list_all (takes_all MAX_WRITE_BYTES_PER_CALL) ?sas" "length t \<le> MAX_WRITE_BYTES_PER_CALL * length ?sas" "rs_sender ?r = None"
    by (simp_all add: list_all_iff MAX_WRITE_BYTES_PER_CALL_def)
  from static_error_answered [OF example_head_parts(4,5,1-3) _ _ r this(3) t this(1,2),
      of "[Received (message_text ''GET /a HTTP/1.0'' [] [])]" "length t + 1" "\<lambda>p. None" "[]" "\<lparr>d_fd = 4\<rparr>" "-1"]
  show ?thesis by (fastforce simp: message_text_def answer_events_def is_valid_def example_client_def)
qed

theorem routine_resumed_witness:
  "fst (resume True 5 (resume_times 1 5 (Ordinator\<lparr>routines := [5 \<mapsto> Routine (Some (routine_body
      (\<lambda>n. if n = 0 then Send_suspended [] example_connection else Sent [] 0 [] example_connection)))]\<rparr>))) = Returns FINISHED"
  using routine_resumed [of "Ordinator\<lparr>routines := [5 \<mapsto> Routine (Some (routine_body
      (\<lambda>n. if n = 0 then Send_suspended [] example_connection else Sent [] 0 [] example_connection)))]\<rparr>" 5 _ 1]
  by (simp add: ord_inv_def slice_inv_def Ordinator_def Routine_def)

theorem malformed_request_terminates_server_witness:
  "\<exists>w e. loop_exception (event_loop (\<lambda>_. []) [(False, Wait_events
      [\<lparr>ev_stopped = False, ev_fd = 5, ev_events = EPOLLIN, ev_accepts = [], ev_swapped = True\<rparr>])] w) = Some e
    \<and> server_run 2 (\<lambda>i. loop_exception (event_loop (\<lambda>_. []) [(False, Wait_events
      [\<lparr>ev_stopped = False, ev_fd = 5, ev_events = EPOLLIN, ev_accepts = [], ev_swapped = True\<rparr>])] w)) = Process_terminated"
proof -
  define run where "run = (\<lambda>n. fst (client_routine id (on_request open_fs ''now'' ''/w'') (static_sender id ''now'' (\<lambda>p. None) [])
      \<lparr>d_fd = 4\<rparr> 0 n [Received (message_text ''x'' [] [])] [] example_client))"
  define w where "w = example_worker\<lparr>ordi := Ordinator\<lparr>routines := [5 \<mapsto> Routine (Some (routine_body run))]\<rparr>\<rparr>"
  have w: "worker_inv w" "acceptor w = 3" "routines (ordi w) 5 = Some (Routine (Some (routine_body run)))"
    by (simp_all add: w_def example_worker_def worker_inv_def ord_inv_def slice_inv_def Ordinator_def Routine_def)
  have l: "HttpRequestLine ''x'' = Inl (plain_exn HttpInvalidRequestLine)"
    by (simp add: HttpRequestLine_def next_word_def)
  have m: "message_lines ''x'' []" by (simp add: message_lines_def)
  let ?worker = "\<lambda>i :: nat. loop_exception (event_loop (\<lambda>_. []) [(False, Wait_events
      [\<lparr>ev_stopped = False, ev_fd = 5, ev_events = EPOLLIN, ev_accepts = [], ev_swapped = True\<rparr>])] w)"
  have "?worker 0 = Some (plain_exn HttpInvalidRequestLine) \<and> server_run 2 ?worker = Process_terminated"
    by (rule malformed_request_terminates_server [where i = 0 and fd = 5 and ras = "[]" and sas = "[]" and hord = id
        and handler = "on_request open_fs ''now'' ''/w''" and sender = "static_sender id ''now'' (\<lambda>p. None) []",
        OF m l example_head_parts(4) w(1)])
      (use w(2,3) in \<open>simp_all add: run_def\<close>)
  then show ?thesis by blast
qed

end
