(* ===== verification/HttpClients.thy ===== *)
theory HttpClients imports HttpService begin

text \<open>
  Many clients at one worker of \<open>tinyhttp/epoll_worker\<close>: the events of different clients come in any
  order, and all routines share the ordinator of the thread. What a client sees depends on its own
  events only, and a client whose request is answered is served to the end between the others.
\<close>

section \<open>Routines that create none\<close>

text \<open>The routines of this server never create another one; what they do else is left open.\<close>

primrec creates_none :: "'b slice \<Rightarrow> bool" where
  "creates_none Ret = True"
| "creates_none (Thr e) = True"
| "creates_none (Yld k) = True"
| "creates_none (Cre i b s) = False"
| "creates_none (Cur f) = (\<forall>i. creates_none (f i))"

coinductive solo :: "body \<Rightarrow> bool" where
  "creates_none (slice_of b) \<Longrightarrow> \<forall>b' \<in> set_slice (slice_of b). solo b' \<Longrightarrow> solo b"

inductive_cases solo_elim: "solo b"

definition solo_routine :: "routine \<Rightarrow> bool" where
  "solo_routine r \<longleftrightarrow> (\<forall>b. r_func r = Some b \<longrightarrow> solo b) \<and> (\<forall>k p. r_ctx r = At_yield k \<longrightarrow> solo (k p))"

definition solo_ord :: "ordinator \<Rightarrow> bool" where
  "solo_ord ord \<longleftrightarrow> (\<forall>i r. routines ord i = Some r \<longrightarrow> solo_routine r)"

lemma creates_none_routine_step: "creates_none (routine_step run s)"
  by (simp add: routine_step_def split: sum.split send_run.split)

lemma creates_none_map: "creates_none (map_slice f s) = creates_none s"
  by (induction s) simp_all

lemma unfold_body_solo: "solo (unfold_body (routine_step run) s)"
proof (coinduction arbitrary: s)
  case solo
  have "b' \<in> range (unfold_body (routine_step run))" if "b' \<in> set_slice (map_slice (unfold_body (routine_step run)) (routine_step run s))" for b'
    using that by (auto simp: slice.set_map)
  then show ?case by (auto simp: creates_none_map creates_none_routine_step)
qed

lemma routine_body_solo [simp]: "solo (routine_body run)"
  by (simp add: routine_body_def unfold_body_solo)

text \<open>A slice without creations leaves the ordinator alone and depends on the number only.\<close>

lemma run_slice_none:
  "creates_none s \<Longrightarrow> run_slice s ord = (e, ord') \<Longrightarrow>
   ord' = ord \<and> (\<forall>k. e = Yielded k \<longrightarrow> range k \<subseteq> set_slice s)
   \<and> (\<forall>o2. current_id o2 = current_id ord \<longrightarrow> fst (run_slice s o2) = e)"
proof (induction s)
  case (Cur f)
  then have f: "run_slice (f (current_id ord)) ord = (e, ord')" "creates_none (f (current_id ord))" by simp_all
  have "set_slice (f (current_id ord)) \<subseteq> set_slice (Cur f)" by auto
  with Cur.IH [OF rangeI f(2,1)] show ?case by fastforce
qed auto

lemma entered_solo:
  assumes "solo_routine r" "entered i r ord = (e, ord')"
  shows "ord' = ord \<and> (\<forall>k p. e = Yielded k \<longrightarrow> solo (k p))
    \<and> (\<forall>o2. current_id o2 = current_id ord \<longrightarrow> fst (entered i r o2) = e)"
proof -
  have s: "ord' = ord \<and> (\<forall>k p. e = Yielded k \<longrightarrow> solo (k p))
    \<and> (\<forall>o2. current_id o2 = current_id ord \<longrightarrow> fst (run_slice (slice_of b) o2) = e)"
    if "solo b" "run_slice (slice_of b) ord = (e, ord')" for b
    using that(1) by (rule solo_elim) (use run_slice_none [OF _ that(2)] in blast)
  show ?thesis
    using assms s unfolding solo_routine_def entered_def
    by (auto split: saved_context.splits option.splits if_splits)
qed

section \<open>Resuming and killing one of many\<close>

lemma resume_one:
  assumes "ord_inv ord" "solo_ord ord" "resume sw i ord = (out, ord')"
  shows "solo_ord ord' \<and> (\<forall>j. j \<noteq> i \<longrightarrow> routines ord' j = routines ord j)"
proof (cases "i = 0 \<or> routines ord i = None \<or> \<not> sw")
  case True
  with assms show ?thesis by (auto simp: resume_def solo_ord_def Let_def split: option.splits if_splits)
next
  case False
  then obtain r where r: "i \<noteq> 0" "routines ord i = Some r" "sw" by auto
  have inv: "slice_inv ord" using assms(1) by (simp add: ord_inv_def)
  have solo: "solo_routine r" using assms(2) r(2) by (simp add: solo_ord_def)
  obtain e ord1 where e: "entered i r (ord\<lparr>current_id := i\<rparr>) = (e, ord1)" by (cases "entered i r (ord\<lparr>current_id := i\<rparr>)") auto
  note s = entered_solo [OF solo e]
  have "e \<noteq> Slice_undefined" using entered_inv [OF _ e] inv by (simp add: slice_inv_def)
  with resume_eq [OF inv r(1,2) e] assms(3) s solo r(3)
  have "\<exists>x. routines ord' = (routines ord)(i := x) \<and> (\<forall>r'. x = Some r' \<longrightarrow> solo_routine r')"
    by (cases e) (auto simp: solo_routine_def Let_def)
  then show ?thesis using assms(2) by (auto simp: solo_ord_def split: if_splits)
qed

lemma resume_stays:
  "i = 0 \<or> routines ord i = None \<or> \<not> sw \<Longrightarrow> routines (snd (resume sw i ord)) = routines ord
    \<and> fst (resume sw i ord) = (if i = 0 then Returns NONE else case routines ord i of
        None \<Rightarrow> Throws (std_exn Out_of_range) | Some r \<Rightarrow> if r_finished r then Returns NONE else Returns ERROR)"
  by (cases "routines ord i") (auto simp: resume_def Let_def)

lemma resume_view:
  assumes "slice_inv ord" "i \<noteq> 0" "routines ord i = Some r" "entered i r (ord\<lparr>current_id := i\<rparr>) = (e, ord')"
  shows "fst (resume True i ord) = (case e of Yielded k \<Rightarrow> Returns AGAIN | Ended x \<Rightarrow>
      (case (case x of None \<Rightarrow> r_exception r | Some e \<Rightarrow> Some e) of Some e \<Rightarrow> Throws e | None \<Rightarrow> Returns FINISHED))
    \<and> routines (snd (resume True i ord)) i = (case e of Yielded k \<Rightarrow> Some (r\<lparr>r_ctx := At_yield k\<rparr>) | Ended x \<Rightarrow> None)"
proof -
  have "e \<noteq> Slice_undefined" using entered_inv [OF _ assms(4)] assms(1) by (simp add: slice_inv_def)
  with resume_eq [OF assms] show ?thesis by (cases e) (simp_all add: Let_def)
qed

text \<open>What becomes of a routine depends on that routine only.\<close>

lemma resume_elsewhere:
  assumes "ord_inv a" "ord_inv b" "solo_ord a" "routines a i = routines b i"
    and "resume sw i a = (out, a')" "resume sw i b = (out2, b')"
  shows "out2 = out \<and> routines b' i = routines a' i"
proof (cases "i = 0 \<or> routines a i = None \<or> \<not> sw")
  case True
  then show ?thesis using resume_stays [of i a sw] resume_stays [of i b sw] assms(4-6) by simp
next
  case False
  then obtain r where r: "i \<noteq> 0" "routines a i = Some r" "routines b i = Some r" "sw" using assms(4) by auto
  have inv: "slice_inv a" "slice_inv b" using assms(1,2) by (simp_all add: ord_inv_def)
  have solo: "solo_routine r" using assms(3) r(2) by (simp add: solo_ord_def)
  obtain e a1 where e: "entered i r (a\<lparr>current_id := i\<rparr>) = (e, a1)" by (cases "entered i r (a\<lparr>current_id := i\<rparr>)") auto
  obtain e2 b1 where e2: "entered i r (b\<lparr>current_id := i\<rparr>) = (e2, b1)" by (cases "entered i r (b\<lparr>current_id := i\<rparr>)") auto
  have "fst (entered i r (b\<lparr>current_id := i\<rparr>)) = e" using entered_solo [OF solo e] by simp
  then have "e2 = e" by (simp add: e2)
  with resume_view [OF inv(1) r(1,2) e] resume_view [OF inv(2) r(1,3) e2] assms(5,6) r(4) show ?thesis by simp
qed

lemma set_routine_exception:
  "ord_inv ord \<Longrightarrow> ord_inv (set_routine i (\<lambda>r. r\<lparr>r_exception := Some e\<rparr>) ord)"
  "solo_ord ord \<Longrightarrow> solo_ord (set_routine i (\<lambda>r. r\<lparr>r_exception := Some e\<rparr>) ord)"
  "j \<noteq> i \<Longrightarrow> routines (set_routine i f ord) j = routines ord j"
  by (auto simp: ord_inv_def slice_inv_def solo_ord_def solo_routine_def set_routine_def)

lemma kill_resume:
  "i \<noteq> 0 \<Longrightarrow> routines ord i = Some r \<Longrightarrow> \<not> r_finished r \<Longrightarrow>
   kill sw i (Some e) ord = (case resume sw i (set_routine i (\<lambda>r. r\<lparr>r_exception := Some e\<rparr>) ord) of
      (Throws x, ord) \<Rightarrow> (Throws x, ord)
    | (Undefined, ord) \<Rightarrow> (Undefined, ord)
    | (Returns _, ord) \<Rightarrow> (Throws (std_exn Logic_error), ord))"
  by (simp add: kill_def)

lemma kill_one:
  assumes "ord_inv ord" "solo_ord ord" "kill sw i (Some e) ord = (out, ord')"
  shows "solo_ord ord' \<and> (\<forall>j. j \<noteq> i \<longrightarrow> routines ord' j = routines ord j)"
proof (cases "i = 0 \<or> routines ord i = None \<or> (\<exists>r. routines ord i = Some r \<and> r_finished r)")
  case True
  with assms show ?thesis by (auto simp: kill_def split: option.splits if_splits)
next
  case False
  then obtain r where r: "i \<noteq> 0" "routines ord i = Some r" "\<not> r_finished r" by auto
  let ?o = "set_routine i (\<lambda>r. r\<lparr>r_exception := Some e\<rparr>) ord"
  obtain out1 ord1 where k: "resume sw i ?o = (out1, ord1)" by (cases "resume sw i ?o")
  have "ord' = ord1" using assms(3) unfolding kill_resume [OF r] k by (auto split: outcome.splits)
  with resume_one [OF set_routine_exception(1) [OF assms(1)] set_routine_exception(2) [OF assms(2)] k]
  show ?thesis by (simp add: set_routine_exception(3))
qed

lemma kill_same:
  assumes "ord_inv a" "ord_inv b" "solo_ord a" "routines a i = routines b i"
    and "kill sw i (Some e) a = (out, a')" "kill sw i (Some e) b = (out2, b')"
  shows "out2 = out \<and> routines b' i = routines a' i"
proof (cases "i = 0 \<or> routines a i = None \<or> (\<exists>r. routines a i = Some r \<and> r_finished r)")
  case True
  with assms show ?thesis by (auto simp: kill_def split: option.splits if_splits)
next
  case False
  then obtain r where r: "i \<noteq> 0" "routines a i = Some r" "routines b i = Some r" "\<not> r_finished r" using assms(4) by auto
  let ?a = "set_routine i (\<lambda>r. r\<lparr>r_exception := Some e\<rparr>) a" and ?b = "set_routine i (\<lambda>r. r\<lparr>r_exception := Some e\<rparr>) b"
  obtain oa a1 where ka: "resume sw i ?a = (oa, a1)" by (cases "resume sw i ?a")
  obtain ob b1 where kb: "resume sw i ?b = (ob, b1)" by (cases "resume sw i ?b")
  have "routines ?a i = routines ?b i" using r by (simp add: set_routine_def)
  from resume_elsewhere [OF set_routine_exception(1) [OF assms(1)] set_routine_exception(1) [OF assms(2)] set_routine_exception(2) [OF assms(3)] this ka kb]
  show ?thesis using assms(5,6) unfolding kill_resume [OF r(1,2,4)] kill_resume [OF r(1,3,4)] ka kb by (auto split: outcome.splits)
qed

section \<open>One event\<close>

text \<open>What the worker keeps of one client: its entry and its routine.\<close>

definition client_view :: "int \<Rightarrow> worker \<Rightarrow> client option \<times> routine option" where
  "client_view fd w = (clients w fd, routines (ordi w) (nat fd))"

definition solo_worker :: "worker \<Rightarrow> bool" where
  "solo_worker w \<longleftrightarrow> worker_inv w \<and> solo_ord (ordi w)"

fun accepted_fd :: "accept_answer \<Rightarrow> int option" where
  "accepted_fd (Accepted fd addr port nb name_answer add b) = Some fd"
| "accepted_fd a = None"

text \<open>
  An event of another client or of the acceptor, which does not hand out the descriptor, and gives new
  clients routines that create no others.
\<close>

fun solo_accept :: "accept_answer \<Rightarrow> bool" where
  "solo_accept (Accepted fd addr port nb name_answer add b) = solo b"
| "solo_accept a = True"

definition foreign :: "int \<Rightarrow> event \<Rightarrow> bool" where
  "foreign fd x \<longleftrightarrow> ev_fd x \<noteq> fd \<and> Some fd \<notin> accepted_fd ` set (ev_accepts x) \<and> (\<forall>a \<in> set (ev_accepts x). solo_accept a)"

lemma solo_worker_sel: "solo_worker w \<Longrightarrow> ord_inv (ordi w)" "solo_worker w \<Longrightarrow> solo_ord (ordi w)" "solo_worker w \<Longrightarrow> worker_inv w"
  by (simp_all add: solo_worker_def worker_inv_def)

lemma close_connection_sel:
  "close_connection fd w = Ok u w' \<Longrightarrow> clients w' = (clients w)(fd := None) \<and> ordi w' = ordi w \<and> acceptor w' = acceptor w"
  by (auto simp: close_connection_def split: option.splits)

text \<open>The worker as a step leaves it, by an exception or not.\<close>

fun left_with :: "'a step \<Rightarrow> worker option" where
  "left_with (Ok x w) = Some w"
| "left_with (Err e w) = Some w"
| "left_with Undef = None"

lemma close_connection_left:
  "left_with (close_connection fd w) = Some w' \<Longrightarrow> (\<forall>f. f \<noteq> fd \<longrightarrow> clients w' f = clients w f) \<and> ordi w' = ordi w \<and> acceptor w' = acceptor w"
  by (auto simp: close_connection_def split: option.splits)

text \<open>However the event ends, the worker is the old one with the routine of the event switched to.\<close>

lemma handle_client_left:
  assumes "left_with (handle_client se sw fd events w) = Some w'"
  shows "ordi w' = (if hangup events then snd (kill sw (nat fd) (Some (io_exn EpollError ''epollhup err'' 0)) (ordi w))
      else snd (resume sw (nat fd) (ordi w)))
    \<and> (\<forall>f. f \<noteq> fd \<longrightarrow> clients w' f = clients w f) \<and> acceptor w' = acceptor w"
proof -
  have c: "ordi w' = ord \<and> (\<forall>f. f \<noteq> fd \<longrightarrow> clients w' f = clients w f) \<and> acceptor w' = acceptor w"
    if "left_with (close_connection fd (w\<lparr>ordi := ord\<rparr>)) = Some w' \<or> (\<exists>m. left_with (close_connection fd (log_info m (w\<lparr>ordi := ord\<rparr>))) = Some w')" for ord
    using that by (auto dest: close_connection_left)
  obtain ok ordk where k: "kill sw (nat fd) (Some (io_exn EpollError ''epollhup err'' 0)) (ordi w) = (ok, ordk)"
    by (cases "kill sw (nat fd) (Some (io_exn EpollError ''epollhup err'' 0)) (ordi w)")
  obtain or ordr where r: "resume sw (nat fd) (ordi w) = (or, ordr)" by (cases "resume sw (nat fd) (ordi w)")
  show ?thesis
  proof (cases "hangup events")
    case True
    with assms k show ?thesis using c [of ordk] by (cases ok) (auto simp: handle_client_def split: if_splits)
  next
    case False
    with assms r show ?thesis using c [of ordr] by (cases or) (auto simp: handle_client_def split: if_splits)
  qed
qed

lemma handle_client_ok:
  assumes "handle_client se sw fd events w = Ok u w'"
  shows "ordi w' = (if hangup events then snd (kill sw (nat fd) (Some (io_exn EpollError ''epollhup err'' 0)) (ordi w))
      else snd (resume sw (nat fd) (ordi w)))
    \<and> (\<forall>f. f \<noteq> fd \<longrightarrow> clients w' f = clients w f) \<and> acceptor w' = acceptor w"
  using handle_client_left [of se sw fd events w w'] assms by simp

lemma handle_client_view:
  assumes "solo_worker w" "0 < fd" "fd' \<noteq> fd" "left_with (handle_client se sw fd' events w) = Some w'"
  shows "client_view fd w' = client_view fd w \<and> solo_ord (ordi w') \<and> acceptor w' = acceptor w"
proof -
  note left = handle_client_left [OF assms(4)] and w = solo_worker_sel [OF assms(1)]
  have n: "nat fd \<noteq> nat fd'" using assms(2,3) by auto
  have "solo_ord (ordi w') \<and> routines (ordi w') (nat fd) = routines (ordi w) (nat fd)"
    using left n kill_one [OF w(1,2) surjective_pairing] resume_one [OF w(1,2) surjective_pairing] by (cases "hangup events") auto
  then show ?thesis using left assms(3) by (simp add: client_view_def)
qed

lemma handle_client_other:
  assumes "solo_worker w" "0 < fd" "fd' \<noteq> fd" "handle_client se sw fd' events w = Ok u w'"
  shows "client_view fd w' = client_view fd w \<and> solo_worker w' \<and> acceptor w' = acceptor w"
  using handle_client_view [OF assms(1-3), of se sw events w'] handle_client_inv [OF solo_worker_sel(3) [OF assms(1)], of se sw fd' events] assms(4)
  by (simp add: solo_worker_def)

lemma solo_worker_step:
  assumes "solo_worker w" "handle_client se sw fd events w = Ok u w'"
  shows "solo_worker w'"
proof -
  note ok = handle_client_ok [OF assms(2)] and w = solo_worker_sel [OF assms(1)]
  have "solo_ord (ordi w')"
    using ok kill_one [OF w(1,2) surjective_pairing] resume_one [OF w(1,2) surjective_pairing] by (cases "hangup events") auto
  then show ?thesis using handle_client_inv [OF w(3), of se sw fd events] assms(2) by (simp add: solo_worker_def)
qed

lemma accept_one_other:
  assumes "solo_worker w" "solo_accept a" "accept_ok a" "0 < fd" "accepted_fd a \<noteq> Some fd"
    and "accept_one a w = Ok u w'"
  shows "client_view fd w' = client_view fd w \<and> solo_worker w' \<and> acceptor w' = acceptor w"
proof (cases a)
  case (Accepted fd' addr port nb name_answer add rt)
  let ?w = "w\<lparr>accepted := accepted w @ [fd']\<rparr>"
  from Accepted assms(6) obtain c where c: "Connection_accepted name_answer (fst (Descriptor_int fd')) addr port = Inr c" "\<not> nb < 0"
    by (cases "Connection_accepted name_answer (fst (Descriptor_int fd')) addr port") (auto simp: accept_one_def Let_def split: if_splits)
  have fd: "d_fd (sock_fd c) = fd'" "fd' > 0" "fd' \<noteq> fd" "nat fd' \<noteq> nat fd"
    using accepted_fd_kept [OF c(1)] assms(3,4,5) Accepted by auto
  have inv: "slice_inv (ordi w)" using solo_worker_sel(1) [OF assms(1)] by (simp add: ord_inv_def)
  obtain b given w1 where w1: "add_to_event_loop add c EPOLLIN ?w = (b, given, w1)" by (cases "add_to_event_loop add c EPOLLIN ?w")
  have o: "ordi w1 = ordi w" "acceptor w1 = acceptor w" "clients w1 fd = clients w fd"
    using w1 fd by (auto simp: add_to_event_loop_def Let_def split: if_splits)
  have w': "ordi w' = created (nat fd') (Some rt) (ordi w)" "clients w' = clients w1" "acceptor w' = acceptor w1"
    using assms(6) Accepted c(2) by (auto simp: accept_one_def Let_def c(1) w1 o create_created [OF inv])
  have "solo_ord (ordi w')" using solo_worker_sel(2) [OF assms(1)] assms(2) Accepted
    by (auto simp: w' solo_ord_def solo_routine_def created_def Routine_def)
  moreover have "worker_inv w'" using accept_one_inv [OF solo_worker_sel(3) [OF assms(1)] assms(3)] assms(6) by simp
  ultimately show ?thesis using w' o fd(4) by (simp add: client_view_def solo_worker_def created_def)
qed (use assms in \<open>auto simp: accept_one_def split: if_splits\<close>)

lemma accept_connections_other:
  assumes "0 < fd"
  shows "solo_worker w \<Longrightarrow> list_all accept_ok as \<Longrightarrow> \<forall>a \<in> set as. solo_accept a \<Longrightarrow> Some fd \<notin> accepted_fd ` set as \<Longrightarrow> accept_connections m as w = Ok u w' \<Longrightarrow>
    client_view fd w' = client_view fd w \<and> solo_worker w' \<and> acceptor w' = acceptor w"
proof (induction as arbitrary: m w)
  case (Cons a as)
  show ?case
  proof (cases m)
    case (Suc k)
    with Cons.prems(5) obtain more w1 where w1: "accept_one a w = Ok more w1"
      "if more then accept_connections k as w1 = Ok u w' else w' = w1"
      by (auto split: step.splits bool.splits)
    have "client_view fd w1 = client_view fd w \<and> solo_worker w1 \<and> acceptor w1 = acceptor w"
      by (rule accept_one_other [OF Cons.prems(1) _ _ assms _ w1(1)]) (use Cons.prems(2-4) in auto)
    with Cons.IH [of w1 k] Cons.prems(2-4) w1(2) show ?thesis by (cases more) auto
  qed (use Cons.prems in auto)
qed (cases m; auto)

text \<open>The same when an exception ends the acceptance.\<close>

lemma accept_one_err:
  assumes "solo_worker w" "accept_one a w = Err e w'"
  shows "client_view fd w' = client_view fd w"
proof (cases a)
  case (Accepted fd' addr port nb name_answer add rt)
  let ?w = "w\<lparr>accepted := accepted w @ [fd']\<rparr>"
  have inv: "slice_inv (ordi w)" using solo_worker_sel(1) [OF assms(1)] by (simp add: ord_inv_def)
  show ?thesis
  proof (cases "Connection_accepted name_answer (fst (Descriptor_int fd')) addr port")
    case (Inr c)
    obtain b given w1 where w1: "add_to_event_loop add c EPOLLIN ?w = (b, given, w1)" by (cases "add_to_event_loop add c EPOLLIN ?w")
    then have "ordi w1 = ordi w" by (auto simp: add_to_event_loop_def Let_def split: if_splits)
    with assms(2) show ?thesis
      by (auto simp: Accepted accept_one_def Let_def Inr w1 create_created [OF inv] client_view_def split: if_splits)
  qed (use assms(2) in \<open>auto simp: Accepted accept_one_def Let_def client_view_def split: if_splits\<close>)
qed (use assms(2) in \<open>auto simp: accept_one_def split: if_splits\<close>)

lemma accept_connections_err:
  assumes "0 < fd"
  shows "solo_worker w \<Longrightarrow> list_all accept_ok as \<Longrightarrow> \<forall>a \<in> set as. solo_accept a \<Longrightarrow> Some fd \<notin> accepted_fd ` set as \<Longrightarrow>
    accept_connections m as w = Err e w' \<Longrightarrow> client_view fd w' = client_view fd w"
proof (induction as arbitrary: m w)
  case (Cons a as)
  show ?case
  proof (cases m)
    case (Suc k)
    show ?thesis
    proof (cases "accept_one a w")
      case (Ok more w1)
      have w1: "client_view fd w1 = client_view fd w \<and> solo_worker w1 \<and> acceptor w1 = acceptor w"
        by (rule accept_one_other [OF Cons.prems(1) _ _ assms _ Ok]) (use Cons.prems(2-4) in auto)
      with Cons.IH [of w1 k] Cons.prems(2-5) Ok Suc show ?thesis by (cases more) auto
    qed (use accept_one_err [OF Cons.prems(1)] Cons.prems(5) Suc in auto)
  qed (use Cons.prems in auto)
qed (cases m; auto)

text \<open>An event of the client itself, in two workers that agree on the client.\<close>

fun same_step :: "int \<Rightarrow> 'a step \<Rightarrow> 'a step \<Rightarrow> bool" where
  "same_step fd (Ok x v) (Ok y w) = (client_view fd v = client_view fd w)"
| "same_step fd (Err d v) (Err e w) = (d = e \<and> client_view fd v = client_view fd w)"
| "same_step fd _ _ = False"

lemma same_close:
  "client_view fd v = client_view fd w \<Longrightarrow> same_step fd (close_connection fd v) (close_connection fd w)"
  by (auto simp: close_connection_def client_view_def split: option.split)

lemma handle_client_own:
  assumes "solo_worker v" "solo_worker w" "client_view fd v = client_view fd w"
  shows "same_step fd (handle_client se sw fd events v) (handle_client se sw fd events w)"
proof -
  note v = solo_worker_sel [OF assms(1)] and w = solo_worker_sel [OF assms(2)]
  have view: "clients v fd = clients w fd" "routines (ordi v) (nat fd) = routines (ordi w) (nat fd)"
    using assms(3) by (simp_all add: client_view_def)
  have close: "same_step fd (close_connection fd (v\<lparr>ordi := a\<rparr>)) (close_connection fd (w\<lparr>ordi := b\<rparr>))"
    "same_step fd (close_connection fd (log_info m (v\<lparr>ordi := a\<rparr>))) (close_connection fd (log_info m (w\<lparr>ordi := b\<rparr>)))"
    "client_view fd (v\<lparr>ordi := a\<rparr>) = client_view fd (w\<lparr>ordi := b\<rparr>)"
    if "routines b (nat fd) = routines a (nat fd)" for a b m
    by (rule same_close, simp add: client_view_def view that)+ (simp add: client_view_def view that)
  show ?thesis
  proof (cases "hangup events")
    case True
    let ?k = "kill sw (nat fd) (Some (io_exn EpollError ''epollhup err'' 0))"
    obtain out a b where k: "?k (ordi v) = (out, a)" "?k (ordi w) = (out, b)" "routines b (nat fd) = routines a (nat fd)"
      using kill_same [OF v(1) w(1) v(2) view(2) surjective_pairing surjective_pairing, of sw "io_exn EpollError ''epollhup err'' 0"]
      by (metis surjective_pairing)
    have "out \<noteq> Undefined" using kill_inv [OF v(1) k(1)] by simp
    with True show ?thesis using close(1,3) [OF k(3)] by (cases out) (simp_all add: handle_client_def k(1,2))
  next
    case False
    obtain out a b where k: "resume sw (nat fd) (ordi v) = (out, a)" "resume sw (nat fd) (ordi w) = (out, b)"
      "routines b (nat fd) = routines a (nat fd)"
      using resume_elsewhere [OF v(1) w(1) v(2) view(2) surjective_pairing surjective_pairing, of sw] by (metis surjective_pairing)
    have "out \<noteq> Undefined" using resume_inv [OF v(1) k(1)] by simp
    with False show ?thesis using close [OF k(3)]
      by (cases out) (simp_all add: handle_client_def k client_view_def view)
  qed
qed

section \<open>The events of one client among those of all\<close>

text \<open>A loop that is not stopped handles the events it is told of as one list.\<close>

definition reported :: "(bool \<times> wait_answer) list \<Rightarrow> event list" where
  "reported rounds = concat (map (\<lambda>(st, a). case a of Wait_events evs \<Rightarrow> evs | Wait_error e \<Rightarrow> []) rounds)"

fun running_round :: "bool \<times> wait_answer \<Rightarrow> bool" where
  "running_round (st, Wait_error e) = (\<not> st \<and> e = EINTR)"
| "running_round (st, Wait_events evs) = (\<not> st \<and> list_all (\<lambda>x. \<not> ev_stopped x) evs)"

lemma handle_events_append:
  "list_all (\<lambda>x. \<not> ev_stopped x) xs \<Longrightarrow> handle_events se (xs @ ys) w =
     (case handle_events se xs w of Ok _ w \<Rightarrow> handle_events se ys w | r \<Rightarrow> r)"
  by (induction xs arbitrary: w) (simp_all split: step.split)

lemma event_loop_reported:
  "list_all running_round rounds \<Longrightarrow> event_loop se rounds w = handle_events se (reported rounds) w"
proof (induction rounds arbitrary: w)
  case (Cons r rounds)
  obtain st a where r: "r = (st, a)" by (cases r)
  show ?case
  proof (cases a)
    case (Wait_events evs)
    with Cons r show ?thesis by (auto simp: reported_def handle_events_append split: step.split)
  qed (use Cons r in \<open>simp_all add: reported_def\<close>)
qed (simp add: reported_def)

lemma own_events:
  assumes fd: "0 < fd"
  shows "solo_worker v \<Longrightarrow> solo_worker w \<Longrightarrow> client_view fd v = client_view fd w \<Longrightarrow> fd \<noteq> acceptor v \<Longrightarrow> fd \<noteq> acceptor w \<Longrightarrow>
    list_all event_ok evs \<Longrightarrow> list_all (\<lambda>x. \<not> ev_stopped x \<and> (ev_fd x = fd \<or> foreign fd x)) evs \<Longrightarrow> handle_events se evs v = Ok u v' \<Longrightarrow>
    \<exists>w'. handle_events se (filter (\<lambda>x. ev_fd x = fd) evs) w = Ok u w' \<and> client_view fd v' = client_view fd w' \<and> solo_worker v' \<and> solo_worker w'"
proof (induction evs arbitrary: v w)
  case (Cons x evs)
  show ?case
  proof (cases "ev_fd x = fd")
    case True
    let ?h = "handle_client se (ev_swapped x) fd (ev_events x)"
    from Cons.prems True obtain v1 where v1: "?h v = Ok () v1" "handle_events se evs v1 = Ok u v'"
      by (auto split: step.splits)
    with handle_client_own [OF Cons.prems(1-3), of se "ev_swapped x" "ev_events x"]
    obtain w1 where w1: "?h w = Ok () w1" "client_view fd v1 = client_view fd w1" by (cases "?h w") auto
    have "acceptor v1 = acceptor v" "acceptor w1 = acceptor w" using handle_client_ok v1(1) w1(1) by blast+
    with Cons.IH [of v1 w1] Cons.prems(4-7) v1(2) w1 solo_worker_step [OF Cons.prems(1) v1(1)] solo_worker_step [OF Cons.prems(2) w1(1)]
    show ?thesis by (simp add: True)
  next
    case False
    then have fo: "foreign fd x" using Cons.prems(7) by simp
    define v1r where "v1r = (if ev_fd x = acceptor v then accept_connections MAX_ACCEPTIONS_PER_LOOP (ev_accepts x) v
        else handle_client se (ev_swapped x) (ev_fd x) (ev_events x) v)"
    from Cons.prems(7,8) obtain v1 where v1: "v1r = Ok () v1" "handle_events se evs v1 = Ok u v'"
      by (cases v1r) (simp_all add: v1r_def [symmetric])
    have "client_view fd v1 = client_view fd v \<and> solo_worker v1 \<and> acceptor v1 = acceptor v"
    proof (cases "ev_fd x = acceptor v")
      case True
      show ?thesis by (rule accept_connections_other [OF fd Cons.prems(1)])
        (use v1(1) True fo Cons.prems(6) in \<open>simp_all add: v1r_def foreign_def event_ok_def\<close>)
    next
      case no: False
      show ?thesis by (rule handle_client_other [OF Cons.prems(1) fd False]) (use v1(1) no in \<open>simp add: v1r_def\<close>)
    qed
    with Cons.IH [of v1 w] Cons.prems(2-7) v1(2) False show ?thesis by simp
  qed
qed auto

text \<open>
  When an exception leaves the loop, the events handled before, and the one that it left from if that is an event
  of the client, are what the client has seen.
\<close>

lemma own_events_err:
  assumes fd: "0 < fd"
  shows "solo_worker v \<Longrightarrow> solo_worker w \<Longrightarrow> client_view fd v = client_view fd w \<Longrightarrow> fd \<noteq> acceptor v \<Longrightarrow> fd \<noteq> acceptor w \<Longrightarrow>
    list_all event_ok evs \<Longrightarrow> list_all (\<lambda>x. \<not> ev_stopped x \<and> (ev_fd x = fd \<or> foreign fd x)) evs \<Longrightarrow> handle_events se evs v = Err e v' \<Longrightarrow>
    \<exists>k \<le> length (filter (\<lambda>x. ev_fd x = fd) evs). \<exists>r w'. handle_events se (take k (filter (\<lambda>x. ev_fd x = fd) evs)) w = r
      \<and> (r = Ok () w' \<or> r = Err e w') \<and> client_view fd v' = client_view fd w'"
proof (induction evs arbitrary: v w)
  case (Cons x evs)
  show ?case
  proof (cases "ev_fd x = fd")
    case True
    have x: "filter (\<lambda>x. ev_fd x = fd) (x # evs) = x # filter (\<lambda>x. ev_fd x = fd) evs" "\<not> ev_stopped x" using True Cons.prems(7) by simp_all
    let ?h = "handle_client se (ev_swapped x) fd (ev_events x)"
    show ?thesis
    proof (cases "?h v")
      case (Ok u1 v1)
      with handle_client_own [OF Cons.prems(1-3), of se "ev_swapped x" "ev_events x"]
      obtain w1 where w1: "?h w = Ok () w1" "client_view fd v1 = client_view fd w1" by (cases "?h w") auto
      have a: "acceptor v1 = acceptor v" "acceptor w1 = acceptor w" using handle_client_ok Ok w1(1) by blast+
      have rest: "handle_events se evs v1 = Err e v'" using Cons.prems(4,8) Ok True x(2) by simp
      obtain k r w' where k: "k \<le> length (filter (\<lambda>x. ev_fd x = fd) evs)" "handle_events se (take k (filter (\<lambda>x. ev_fd x = fd) evs)) w1 = r"
        "r = Ok () w' \<or> r = Err e w'" "client_view fd v' = client_view fd w'"
        using Cons.IH [OF solo_worker_step [OF Cons.prems(1) Ok] solo_worker_step [OF Cons.prems(2) w1(1)] w1(2) _ _ _ _ rest] Cons.prems(4-7) a
        by auto
      have "handle_events se (take (Suc k) (filter (\<lambda>x. ev_fd x = fd) (x # evs))) w = r"
        using Cons.prems(5) k(2) w1(1) x(2) True by simp
      with k x(1) show ?thesis by (intro exI [of _ "Suc k"]) auto
    next
      case (Err d v1)
      then have "d = e" "v1 = v'" using Cons.prems(4,8) True x(2) by simp_all
      with Err handle_client_own [OF Cons.prems(1-3), of se "ev_swapped x" "ev_events x"]
      obtain w1 where w1: "?h w = Err e w1" "client_view fd v' = client_view fd w1" by (cases "?h w") auto
      have "handle_events se (take (Suc 0) (filter (\<lambda>x. ev_fd x = fd) (x # evs))) w = Err e w1"
        using Cons.prems(5) w1(1) x(2) True by simp
      with w1(2) x(1) show ?thesis by (intro exI [of _ "Suc 0"]) auto
    qed (use Cons.prems(4,8) True x(2) in simp)
  next
    case False
    then have fo: "foreign fd x" and st: "\<not> ev_stopped x" using Cons.prems(7) by simp_all
    define v1r where "v1r = (if ev_fd x = acceptor v then accept_connections MAX_ACCEPTIONS_PER_LOOP (ev_accepts x) v
        else handle_client se (ev_swapped x) (ev_fd x) (ev_events x) v)"
    have all: "list_all accept_ok (ev_accepts x)" "\<forall>a \<in> set (ev_accepts x). solo_accept a" "Some fd \<notin> accepted_fd ` set (ev_accepts x)"
      using fo Cons.prems(6) by (simp_all add: foreign_def event_ok_def)
    have view: "client_view fd v1 = client_view fd v" if "v1r = Err e v1" for v1
      using that accept_connections_err [OF fd Cons.prems(1) all] handle_client_view [OF Cons.prems(1) fd False, of se "ev_swapped x" "ev_events x" v1]
      by (auto simp: v1r_def split: if_splits)
    show ?thesis
    proof (cases v1r)
      case (Ok u1 v1)
      have v1: "client_view fd v1 = client_view fd v \<and> solo_worker v1 \<and> acceptor v1 = acceptor v"
        using accept_connections_other [OF fd Cons.prems(1) all] handle_client_other [OF Cons.prems(1) fd False] Ok
        by (auto simp: v1r_def split: if_splits)
      have "handle_events se evs v1 = Err e v'" using Cons.prems(8) st Ok by (simp add: v1r_def [symmetric])
      with Cons.IH [of v1 w] v1 Cons.prems(2-7) False show ?thesis by simp
    next
      case (Err d v1)
      then have "v1r = Err e v'" using Cons.prems(8) st by (simp add: v1r_def [symmetric])
      from view [OF this] Cons.prems(3) show ?thesis by (intro exI [of _ 0]) simp
    qed (use Cons.prems(8) st in \<open>simp add: v1r_def [symmetric]\<close>)
  qed
qed simp

section \<open>Resumes to spare\<close>

text \<open>A run that has ended does not change when it could be resumed more often.\<close>

fun run_suspended :: "'a run \<Rightarrow> bool" where
  "run_suspended (Suspended c) = True"
| "run_suspended r = False"

fun run_later :: "nat \<Rightarrow> 'a run \<Rightarrow> 'a run" where
  "run_later d (Done x n as c) = Done x (n + d) as c"
| "run_later d r = r"

fun sent_later :: "nat \<Rightarrow> send_run \<Rightarrow> send_run" where
  "sent_later d (Sent wire n as c) = Sent wire (n + d) as c"
| "sent_later d r = r"

lemma read_until_headers_end_later:
  "\<not> run_suspended (read_until_headers_end n as c) \<Longrightarrow>
   read_until_headers_end (n + d) as c = run_later d (read_until_headers_end n as c)"
proof (induction n arbitrary: as c)
  case 0
  then show ?case
    by (subst (asm) read_until_headers_end.simps, subst (1 2) read_until_headers_end.simps)
      (auto simp: Let_def split: prod.splits sum.splits if_splits option.splits)
next
  case (Suc n)
  from Suc.prems show ?case
    by (subst (asm) read_until_headers_end.simps, subst (1 2) read_until_headers_end.simps)
      (auto simp: Let_def Suc.IH split: prod.splits sum.splits if_splits option.splits)
qed

lemma read_body_loop_later:
  "\<not> run_suspended (read_body_loop body_len was_read n as c) \<Longrightarrow>
   read_body_loop body_len was_read (n + d) as c = run_later d (read_body_loop body_len was_read n as c)"
proof (induction n arbitrary: was_read as c)
  case 0
  then show ?case
    by (subst (asm) read_body_loop.simps, subst (1 2) read_body_loop.simps)
      (auto simp: Let_def split: prod.splits sum.splits if_splits option.splits)
next
  case (Suc n)
  from Suc.prems show ?case
    by (subst (asm) read_body_loop.simps, subst (1 2) read_body_loop.simps)
      (auto simp: Let_def Suc.IH split: prod.splits sum.splits if_splits option.splits)
qed

lemma send_loop_later:
  "\<not> suspended (send_loop piece amount written wire n as c) \<Longrightarrow>
   send_loop piece amount written wire (n + d) as c = sent_later d (send_loop piece amount written wire n as c)"
proof (induction n arbitrary: written wire as c)
  case 0
  then show ?case
    by (subst (asm) send_loop.simps, subst (1 2) send_loop.simps)
      (auto simp: Let_def split: prod.splits sum.splits if_splits)
next
  case (Suc n)
  from Suc.prems show ?case
    by (subst (asm) send_loop.simps, subst (1 2) send_loop.simps)
      (auto simp: Let_def Suc.IH split: prod.splits sum.splits if_splits)
qed

lemma sendfile_loop_later:
  "\<not> suspended (sendfile_loop file amount written offset wire n as c) \<Longrightarrow>
   sendfile_loop file amount written offset wire (n + d) as c = sent_later d (sendfile_loop file amount written offset wire n as c)"
proof (induction n arbitrary: written offset wire as c)
  case 0
  then show ?case
    by (subst (asm) sendfile_loop.simps, subst (1 2) sendfile_loop.simps)
      (auto simp: Let_def split: list.splits file_answer.splits if_splits)
next
  case (Suc n)
  from Suc.prems show ?case
    by (subst (asm) sendfile_loop.simps, subst (1 2) sendfile_loop.simps)
      (auto simp: Let_def Suc.IH split: list.splits file_answer.splits if_splits)
qed

lemma read_http_request_later:
  "\<not> run_suspended (read_http_request n as c) \<Longrightarrow> read_http_request (n + d) as c = run_later d (read_http_request n as c)"
proof -
  assume s: "\<not> run_suspended (read_http_request n as c)"
  have body: "read_announced_body h p (n + d) as c = run_later d (read_announced_body h p n as c)"
    if "\<not> run_suspended (read_announced_body h p n as c)" for h p n as c
    using that read_body_loop_later [of _ "int (length (io_buffer c)) - int (p + length headers_end)" n as c d]
    by (auto simp: read_announced_body_def read_body_def split: sum.splits run.splits if_splits)
  have "\<not> run_suspended (read_until_headers_end n as (clear_buffer c))"
    using s by (auto simp: read_http_request_def split: run.splits)
  from read_until_headers_end_later [OF this, of d] s show ?thesis
    by (auto simp: read_http_request_def Let_def body split: run.splits prod.splits sum.splits)
qed

lemma send_text_later:
  "\<not> suspended (send_text piece t n as c) \<Longrightarrow> send_text piece t (n + d) as c = sent_later d (send_text piece t n as c)"
  by (simp add: send_text_def Let_def send_loop_later)

lemma static_sender_later:
  "\<not> suspended (static_sender hord date open_file fas s response n as c) \<Longrightarrow>
   static_sender hord date open_file fas s response (n + d) as c = sent_later d (static_sender hord date open_file fas s response n as c)"
proof -
  let ?t = "\<lambda>t n. send_text FILE_WRITE_BYTES_PER_CALL t n as c"
  assume s: "\<not> suspended (static_sender hord date open_file fas s response n as c)"
  have "?t t (n + d) = sent_later d (?t t n)" if "\<not> suspended (?t t n)" for t
    by (rule send_text_later [OF that])
  with s show ?thesis
    by (auto simp: static_sender_def run_file_sender_def Let_def sendfile_loop_later split: sum.splits option.splits send_run.splits)
qed

lemma client_routine_later:
  assumes "\<not> suspended (fst (client_routine hord handler (static_sender hord date open_file fas) epoll mod_answer n ras sas client))"
  shows "fst (client_routine hord handler (static_sender hord date open_file fas) epoll mod_answer (n + d) ras sas client) =
      sent_later d (fst (client_routine hord handler (static_sender hord date open_file fas) epoll mod_answer n ras sas client))"
proof -
  have sh: "send_http_response hord response (n + d) as c = sent_later d (send_http_response hord response n as c)"
    if "\<not> suspended (send_http_response hord response n as c)" for response :: "file_sender http_response" and n as c
    using that send_text_later [of MAX_WRITE_BYTES_PER_CALL _ n as c d]
    by (auto simp: send_http_response_def split: sum.splits send_run.splits)
  have st: "static_sender hord date open_file fas s response (n + d) as c = sent_later d (static_sender hord date open_file fas s response n as c)"
    if "\<not> suspended (static_sender hord date open_file fas s response n as c)" for s response n as c
    by (rule static_sender_later [OF that])
  have "\<not> run_suspended (read_http_request n ras (cl_connection client))"
    using assms by (auto simp: client_routine_run split: run.splits)
  from read_http_request_later [OF this, of d] assms show ?thesis
    by (auto simp: client_routine_run sh st split: run.splits sum.splits option.splits send_run.splits)
qed

text \<open>So when enough resumes serve a client, it is served by the first resume after which it does not wait.\<close>

lemma served_at:
  assumes "\<And>n d. \<not> suspended (run n) \<Longrightarrow> run (n + d) = sent_later d (run n)" "run N = Sent wire m as c"
  obtains K m' where "K \<le> N" "\<forall>j < K. suspended (run j)" "run K = Sent wire m' as c"
proof -
  define K where "K = (LEAST k. \<not> suspended (run k))"
  have N: "\<not> suspended (run N)" using assms(2) by simp
  have K: "\<not> suspended (run K)" "K \<le> N" "\<forall>j < K. suspended (run j)"
    unfolding K_def by (rule LeastI [of "\<lambda>k. \<not> suspended (run k)", OF N], rule Least_le, rule N) (auto dest: not_less_Least)
  from assms(1) [OF K(1), of "N - K"] K(2) have "Sent wire m as c = sent_later (N - K) (run K)" using assms(2) by simp
  then obtain m' where "run K = Sent wire m' as c" by (cases "run K") auto
  then show thesis by (rule that [OF K(2,3)])
qed

section \<open>One client from its first event to its last\<close>

definition plain_event :: "int \<Rightarrow> event \<Rightarrow> bool" where
  "plain_event fd x \<longleftrightarrow> ev_fd x = fd \<and> \<not> hangup (ev_events x) \<and> ev_swapped x \<and> \<not> ev_stopped x"

text \<open>The first event of a waiting client that will be served.\<close>

lemma plain_event_handled:
  assumes "0 < fd" "\<forall>j < K. suspended (run j)" "run K = Sent wire m as c"
    and "worker_inv w" "clients w fd \<noteq> None" "routines (ordi w) (nat fd) = Some r" "waiting run n r" "n \<le> K"
    and "\<not> hangup events"
  obtains w1 where "handle_client se True fd events w = Ok () w1" "worker_inv w1" "acceptor w1 = acceptor w"
    "if n < K then clients w1 fd \<noteq> None \<and> (\<exists>r'. routines (ordi w1) (nat fd) = Some r' \<and> waiting run (Suc n) r')
     else clients w1 fd = None \<and> routines (ordi w1) (nat fd) = None"
proof -
  have o: "ord_inv (ordi w)" using assms(4) by (simp add: worker_inv_def)
  obtain out ord where res: "resume True (nat fd) (ordi w) = (out, ord)" by (cases "resume True (nat fd) (ordi w)")
  have fd0: "nat fd \<noteq> 0" using assms(1) by simp
  note step = waiting_resumed [OF o fd0 assms(6,7) res]
  have inv: "worker_inv w1" if "handle_client se True fd events w = Ok () w1" for w1
    using handle_client_inv [OF assms(4), of se True fd events] that by simp
  show thesis
  proof (cases "n < K")
    case True
    then have "suspended (run n)" using assms(2) by simp
    then have out: "out = Returns AGAIN" using step by (cases "run n") auto
    have "\<exists>r'. routines ord (nat fd) = Some r' \<and> waiting run (Suc n) r'" using step \<open>suspended (run n)\<close> by blast
    moreover have h: "handle_client se True fd events w = Ok () (w\<lparr>ordi := ord\<rparr>)" using assms(9) res out by (simp add: handle_client_def)
    ultimately show thesis using that [OF h inv [OF h]] True assms(5) by simp
  next
    case False
    then have out: "out = Returns FINISHED" using step assms(3,8) by simp
    obtain w1 where w1: "close_connection fd (w\<lparr>ordi := ord\<rparr>) = Ok () w1" using assms(5) by (auto simp: close_connection_def)
    have h: "handle_client se True fd events w = Ok () w1" using assms(9) res out w1 by (simp add: handle_client_def)
    have "routines ord (nat fd) = None" using resume_ends [OF o res fd0] assms(6) out by simp
    then show thesis using that [OF h inv [OF h]] False close_connection_sel [OF w1] by simp
  qed
qed

lemma plain_events:
  assumes "0 < fd" "\<forall>j < K. suspended (run j)" "run K = Sent wire m as c"
  shows "worker_inv w \<Longrightarrow> clients w fd \<noteq> None \<Longrightarrow> routines (ordi w) (nat fd) = Some r \<Longrightarrow> waiting run n r \<Longrightarrow> n \<le> K \<Longrightarrow>
    acceptor w = acc \<Longrightarrow> fd \<noteq> acc \<Longrightarrow> list_all (plain_event fd) evs \<Longrightarrow> left_with (handle_events se evs w) = Some w' \<Longrightarrow>
    (if n + length evs \<le> K then clients w' fd \<noteq> None else clients w' fd = None \<and> routines (ordi w') (nat fd) = None)
    \<and> (handle_events se evs w = Ok () w' \<longrightarrow> n + length evs \<le> Suc K)"
proof (induction evs arbitrary: w r n)
  case (Cons x evs)
  have x: "ev_fd x = fd" "\<not> hangup (ev_events x)" "ev_swapped x" "\<not> ev_stopped x" using Cons.prems(8) by (simp_all add: plain_event_def)
  obtain w1 where h: "handle_client se True fd (ev_events x) w = Ok () w1" and w1: "worker_inv w1" "acceptor w1 = acceptor w"
    "if n < K then clients w1 fd \<noteq> None \<and> (\<exists>r'. routines (ordi w1) (nat fd) = Some r' \<and> waiting run (Suc n) r')
     else clients w1 fd = None \<and> routines (ordi w1) (nat fd) = None"
    by (rule plain_event_handled [OF assms Cons.prems(1-5) x(2)])
  have rest: "handle_events se (x # evs) w = handle_events se evs w1" using x h Cons.prems(6,7) by simp
  show ?case
  proof (cases "n < K")
    case True
    then obtain r' where "routines (ordi w1) (nat fd) = Some r'" "waiting run (Suc n) r'" "clients w1 fd \<noteq> None" using w1(3) by auto
    from Cons.IH [OF w1(1) this(3,1,2)] Cons.prems(6-9) w1(2) True rest show ?thesis by simp
  next
    case False
    then have gone: "clients w1 fd = None" "routines (ordi w1) (nat fd) = None" "n = K" using w1(3) Cons.prems(5) by simp_all
    show ?thesis
    proof (cases evs)
      case Nil
      then show ?thesis using Cons.prems(9) rest gone by simp
    next
      case (Cons y ys)
      then have y: "ev_fd y = fd" "\<not> hangup (ev_events y)" "ev_swapped y" "\<not> ev_stopped y"
        using Cons.prems(8) by (simp_all add: plain_event_def)
      have "resume True (nat fd) (ordi w1) = (Throws (std_exn Out_of_range), ordi w1)"
        using gone(2) assms(1) by (simp add: resume_def)
      then have "handle_events se evs w1 = Err (std_exn Out_of_range) w1"
        using y Cons Cons.prems(6,7) w1(2)
        by (simp add: handle_client_def catches_def is_a_IoError is_a_EofError std_exn_def plain_exn_def)
      then show ?thesis using Cons.prems(9) rest gone by simp
    qed
  qed
qed auto

lemma own_stopped:
  assumes "list_all running_round rounds" "\<forall>x \<in> set (reported rounds). ev_fd x \<noteq> fd \<longrightarrow> foreign fd x"
  shows "list_all (\<lambda>x. \<not> ev_stopped x \<and> (ev_fd x = fd \<or> foreign fd x)) (reported rounds)"
proof -
  have "list_all (\<lambda>x. \<not> ev_stopped x) (reported rounds)"
    using assms(1) by (induction rounds rule: list.induct) (auto simp: reported_def elim!: running_round.elims)
  then show ?thesis using assms(2) by (auto simp: list_all_iff)
qed

lemma own_view:
  assumes "worker_inv w" "solo_ord (ordi w)" "0 < fd" "fd \<noteq> acceptor w"
    and "list_all running_round rounds" "list_all event_ok (reported rounds)"
    and "\<forall>x \<in> set (reported rounds). ev_fd x \<noteq> fd \<longrightarrow> foreign fd x"
    and "own = filter (\<lambda>x. ev_fd x = fd) (reported rounds)"
  shows "case event_loop se rounds w of
      Ok u w' \<Rightarrow> \<exists>w''. handle_events se own w = Ok () w'' \<and> clients w' fd = clients w'' fd \<and> routines (ordi w') (nat fd) = routines (ordi w'') (nat fd)
    | Err e w' \<Rightarrow> \<exists>k \<le> length own. \<exists>w''. (handle_events se (take k own) w = Ok () w'' \<or> handle_events se (take k own) w = Err e w'')
        \<and> clients w' fd = clients w'' fd \<and> routines (ordi w') (nat fd) = routines (ordi w'') (nat fd)
    | Undef \<Rightarrow> False"
proof -
  note evs = own_stopped [OF assms(5,7)]
  have w: "solo_worker w" using assms(1,2) by (simp add: solo_worker_def)
  have loop: "event_loop se rounds w = handle_events se (reported rounds) w" by (rule event_loop_reported [OF assms(5)])
  show ?thesis
  proof (cases "handle_events se (reported rounds) w")
    case (Ok u w')
    then show ?thesis
      using own_events [OF assms(3) w w refl assms(4,4,6) evs Ok] unfolding assms(8) by (auto simp: loop client_view_def)
  next
    case (Err e w')
    then show ?thesis
      using own_events_err [OF assms(3) w w refl assms(4,4,6) evs Err] unfolding assms(8) by (fastforce simp: loop client_view_def)
  next
    case Undef
    then show ?thesis using handle_events_inv [OF assms(1,6), of se] by simp
  qed
qed

lemma client_served:
  assumes "is_opened (cl_connection client)" "message_lines l ls" "HttpRequestLine l = Inr rl" "HttpHeaders (lines_text ls) = Inr h"
    and "announces h []" "list_all recv_goes_on ras" "recv_data ras = message_text l ls []"
    and "on_request fs date root \<lparr>rq_line = rl, rq_headers = h, rq_body = []\<rparr> = Inr response"
    and "rs_sender response = Some (g, length data)" "open_file g = Some data"
    and "response_to_string hord response = Inr head"
    and "list_all (takes_all FILE_WRITE_BYTES_PER_CALL) sas" "length head \<le> FILE_WRITE_BYTES_PER_CALL * length sas"
    and "list_all file_goes_on fas" "length data \<le> length (filter file_takes fas)"
    and "serve = (\<lambda>n. client_routine hord (on_request fs date root) (static_sender hord date open_file fas) epoll mod_answer n ras sas client)"
    and "run = (\<lambda>n. fst (serve n))"
    and "worker_inv w" "solo_ord (ordi w)" "clients w fd \<noteq> None" "fd \<noteq> acceptor w"
    and "routines (ordi w) (nat fd) = Some (Routine (Some (routine_body run)))"
    and "list_all running_round rounds" "list_all event_ok (reported rounds)"
    and "\<forall>x \<in> set (reported rounds). ev_fd x \<noteq> fd \<longrightarrow> foreign fd x"
    and "own = filter (\<lambda>x. ev_fd x = fd) (reported rounds)" "list_all (plain_event fd) own"
    and "result = event_loop se rounds w" "left_with result = Some w'"
  shows "\<exists>K n' c'. K \<le> length ras + length sas + length fas \<and> (\<forall>k < K. suspended (run k)) \<and> serve K = (Sent (head @ data) n' [] c', answer_events epoll mod_answer client)
    \<and> (\<exists>k \<le> length own. (if k \<le> K then clients w' fd \<noteq> None else clients w' fd = None \<and> routines (ordi w') (nat fd) = None)
      \<and> (result = Ok () w' \<longrightarrow> k = length own \<and> k \<le> Suc K))"
proof -
  let ?N = "length ras + length sas + length fas"
  obtain n' c' where N: "run ?N = Sent (head @ data) n' [] c'"
    using client_routine_serves [OF assms(1-7,8,9), of open_file hord head sas fas ?N epoll mod_answer] assms(10-15)
    unfolding assms(16,17) by auto
  have later: "run (n + d) = sent_later d (run n)" if "\<not> suspended (run n)" for n d
    using client_routine_later that unfolding assms(16,17) by blast
  obtain K m' where K: "K \<le> ?N" "\<forall>j < K. suspended (run j)" "run K = Sent (head @ data) m' [] c'"
    by (rule served_at [OF later N])
  have "serve K = (Sent (head @ data) m' [] c', answer_events epoll mod_answer client)"
    using K(3) client_routine_sent unfolding assms(16,17) by (intro prod_eqI) (simp, fastforce)
  have fd: "0 < fd" using assms(18,20) by (auto simp: worker_inv_def)
  note view = own_view [OF assms(18,19) fd assms(21,23-26), of se]
  obtain k w'' where k: "k \<le> length own" "left_with (handle_events se (take k own) w) = Some w''" "clients w' fd = clients w'' fd"
    "routines (ordi w') (nat fd) = routines (ordi w'') (nat fd)"
    "result = Ok () w' \<longrightarrow> k = length own \<and> handle_events se (take k own) w = Ok () w''"
  proof (cases "event_loop se rounds w")
    case (Ok u w1)
    with view assms(29) obtain w2 where "handle_events se own w = Ok () w2" "clients w' fd = clients w2 fd"
      "routines (ordi w') (nat fd) = routines (ordi w2) (nat fd)" by (auto simp: assms(28))
    then show ?thesis using that [of "length own" w2] by simp
  next
    case (Err e w1)
    with view assms(29) obtain k w2 where "k \<le> length own" "handle_events se (take k own) w = Ok () w2 \<or> handle_events se (take k own) w = Err e w2"
      "clients w' fd = clients w2 fd" "routines (ordi w') (nat fd) = routines (ordi w2) (nat fd)" by (auto simp: assms(28))
    then show ?thesis using that [of k w2] Err by (auto simp: assms(28))
  qed (use assms(29) in \<open>simp add: assms(28)\<close>)
  have wait: "waiting run 0 (Routine (Some (routine_body run)))" by (simp add: waiting_def Routine_def)
  have plain: "list_all (plain_event fd) (take k own)" using assms(27) by (auto simp: list_all_iff dest: in_set_takeD)
  have "length (take k own) = k" using k(1) by simp
  with plain_events [OF fd K(2,3) assms(18,20,22) wait _ refl assms(21) plain k(2)]
  have "(if k \<le> K then clients w'' fd \<noteq> None else clients w'' fd = None \<and> routines (ordi w'') (nat fd) = None)
    \<and> (handle_events se (take k own) w = Ok () w'' \<longrightarrow> k \<le> Suc K)" by simp
  with k(1,3-5) show ?thesis using K \<open>serve K = _\<close> by (intro exI [of _ K] exI [of _ m'] exI [of _ c']) auto
qed

text \<open>The first event of a client that will be served ends well.\<close>

lemma first_resume:
  assumes "\<And>n d. \<not> suspended (run n) \<Longrightarrow> run (n + d) = sent_later d (run n)" "run N = Sent wire m as c"
    and "worker_inv w" "clients w fd \<noteq> None" "routines (ordi w) (nat fd) = Some (Routine (Some (routine_body run)))"
    and "0 < fd" "\<not> hangup events"
  shows "\<exists>w'. handle_client se True fd events w = Ok () w'"
proof -
  obtain K m' where "\<forall>j < K. suspended (run j)" "run K = Sent wire m' as c"
    by (rule served_at [of run, OF assms(1,2)])
  then have out: "run_outcome (run 0) = Returns AGAIN \<or> run_outcome (run 0) = Returns FINISHED"
    by (cases K; cases "run 0") auto
  obtain o1 ord where res: "resume True (nat fd) (ordi w) = (o1, ord)" by (cases "resume True (nat fd) (ordi w)")
  have "o1 = run_outcome (run 0)"
    using waiting_resumed [OF _ _ assms(5) _ res, of run 0] assms(3,6) by (simp add: worker_inv_def waiting_def Routine_def)
  then show ?thesis using out res assms(4,7) by (auto simp: handle_client_def close_connection_def)
qed

text \<open>The acceptance of a client whose descriptor is free.\<close>

lemma accept_new:
  assumes "worker_inv w" "solo_ord (ordi w)" "solo b" "0 < fd" "clients w fd = None" "routines (ordi w) (nat fd) = None" "0 \<le> nb" "0 \<le> add"
    and "Connection_accepted name_answer (fst (Descriptor_int fd)) addr port = Inr c"
  obtains w1 where "accept_one (Accepted fd addr port nb name_answer add b) w = Ok True w1" "worker_inv w1" "solo_ord (ordi w1)"
    "clients w1 fd \<noteq> None" "routines (ordi w1) (nat fd) = Some (Routine (Some b))" "acceptor w1 = acceptor w"
proof -
  note fd = accepted_fd_kept [OF assms(9)]
  have inv: "slice_inv (ordi w)" using assms(1) by (simp add: worker_inv_def ord_inv_def)
  obtain m where r: "accept_one (Accepted fd addr port nb name_answer add b) w = Ok True (dropped [] (log_info m
      (w\<lparr>accepted := accepted w @ [fd], clients := (clients w)(fd \<mapsto> \<lparr>cl_connection = c, cl_events = EPOLLIN\<rparr>),
        ordi := created (nat fd) (Some b) (ordi w)\<rparr>)))"
    using assms(5,7,8) by (simp add: accept_one_def Let_def assms(9) add_to_event_loop_def fd create_created [OF inv])
  have "solo_ord (created (nat fd) (Some b) (ordi w))" using assms(2,3) by (auto simp: solo_ord_def solo_routine_def created_def Routine_def)
  moreover have "step_inv (accept_one (Accepted fd addr port nb name_answer add b) w)" using assms(4) by (intro accept_one_inv [OF assms(1)]) simp
  ultimately show ?thesis using that r assms(6) by (simp add: created_def)
qed

lemma accepted_opened:
  "Connection_accepted name_answer (fst (Descriptor_int fd)) addr port = Inr c \<Longrightarrow> 0 < fd \<Longrightarrow> is_opened c"
  by (auto simp: Connection_accepted_def set_src_endpoint_def connection_init_def Descriptor_int_def is_opened_def is_valid_def split: sum.splits)

section \<open>Properties\<close>

text \<open>
  C8: Clients do not interfere: whatever the other clients and the acceptor do, in any order, and whatever
  their routines are, a client's entry and routine are the same as if only its own events had been
  handled; and when an exception leaves the loop, as if those of its own events had been that were handled by
  then. The routine holds its whole run, with what it received and sent. This takes a kernel that gives no open
  descriptor to a new client, routines that create no others, and a loop that is not told to stop.
\<close>

theorem clients_do_not_interfere:
  assumes "worker_inv w" "solo_ord (ordi w)" "0 < fd" "fd \<noteq> acceptor w"
    and "list_all running_round rounds" "list_all event_ok (reported rounds)"
    and "\<forall>x \<in> set (reported rounds). ev_fd x \<noteq> fd \<longrightarrow> foreign fd x"
    and "own = filter (\<lambda>x. ev_fd x = fd) (reported rounds)"
  shows "case event_loop se rounds w of
      Ok u w' \<Rightarrow> \<exists>w''. handle_events se own w = Ok () w'' \<and> clients w' fd = clients w'' fd \<and> routines (ordi w') (nat fd) = routines (ordi w'') (nat fd)
    | Err e w' \<Rightarrow> \<exists>k \<le> length own. \<exists>w''. (handle_events se (take k own) w = Ok () w'' \<or> handle_events se (take k own) w = Err e w'')
        \<and> clients w' fd = clients w'' fd \<and> routines (ordi w') (nat fd) = routines (ordi w'') (nat fd)
    | Undef \<Rightarrow> False"
  using assms by (rule own_view)

text \<open>
  C2: A request for a file, without a body, is served in a worker full of other clients, from \<open>accept\<close> to the end. When a
  client is accepted under a free descriptor and entered into epoll, its request arrives whole, and the kernel takes the pieces of the head whole
  and gets on with the file, which is as long as it was, then there is a number of events of this client after which
  its routine has put the printed response and the contents of the file on the wire, at most one per answer of
  the kernel. Of its events (none a hang-up), \<open>k\<close> are handled: all of them, unless an exception, as another client can
  cause it, leaves the loop before. Until the number is reached the client stays, and with that event its connection is
  closed and its routine is gone, whatever events the others have in between. This takes a kernel that gives no open
  descriptor to a new client, routines that create no others, and a loop that is not told to stop.
\<close>

theorem client_served_among_others:
  assumes "message_lines l ls" "HttpRequestLine l = Inr rl" "HttpHeaders (lines_text ls) = Inr h"
    and "announces h []" "list_all recv_goes_on ras" "recv_data ras = message_text l ls []"
    and "on_request fs date root \<lparr>rq_line = rl, rq_headers = h, rq_body = []\<rparr> = Inr response"
    and "rs_sender response = Some (g, length data)" "open_file g = Some data"
    and "response_to_string hord response = Inr head"
    and "list_all (takes_all FILE_WRITE_BYTES_PER_CALL) sas" "length head \<le> FILE_WRITE_BYTES_PER_CALL * length sas"
    and "list_all file_goes_on fas" "length data \<le> length (filter file_takes fas)"
    and "Connection_accepted name_answer (fst (Descriptor_int fd)) addr port = Inr c" "0 \<le> nonblock" "0 \<le> added"
    and "serve = (\<lambda>n. client_routine hord (on_request fs date root) (static_sender hord date open_file fas) (epoll_fd w) mod_answer n ras sas
      \<lparr>cl_connection = c, cl_events = EPOLLIN\<rparr>)"
    and "run = (\<lambda>n. fst (serve n))"
    and "worker_inv w" "solo_ord (ordi w)" "0 < fd" "clients w fd = None" "routines (ordi w) (nat fd) = None" "fd \<noteq> acceptor w"
    and "\<not> ev_stopped arrival" "ev_fd arrival = acceptor w"
    and "ev_accepts arrival = Accepted fd addr port nonblock name_answer added (routine_body run) # others"
    and "list_all running_round rounds" "list_all event_ok (reported rounds)"
    and "\<forall>x \<in> set (reported rounds). ev_fd x \<noteq> fd \<longrightarrow> foreign fd x"
    and "own = filter (\<lambda>x. ev_fd x = fd) (reported rounds)" "list_all (plain_event fd) own"
    and "result = event_loop se ((False, Wait_events [arrival]) # rounds) w" "left_with result = Some w'"
  shows "\<exists>K n' c'. K \<le> length ras + length sas + length fas \<and> (\<forall>k < K. suspended (run k))
    \<and> serve K = (Sent (head @ data) n' [] c', if is_valid (epoll_fd w) \<and> mod_answer < 0 then EPOLLIN else EPOLLOUT)
    \<and> (\<exists>k \<le> length own. (if k \<le> K then clients w' fd \<noteq> None else clients w' fd = None \<and> routines (ordi w') (nat fd) = None)
      \<and> (result = Ok () w' \<longrightarrow> k = length own \<and> k \<le> Suc K))"
proof -
  obtain w1 where w1: "accept_one (Accepted fd addr port nonblock name_answer added (routine_body run)) w = Ok True w1" "worker_inv w1"
    "solo_ord (ordi w1)" "clients w1 fd \<noteq> None" "routines (ordi w1) (nat fd) = Some (Routine (Some (routine_body run)))" "acceptor w1 = acceptor w"
    by (rule accept_new [OF assms(20,21) routine_body_solo assms(22-24,16,17,15)])
  then have loop: "result = event_loop se rounds w1"
    using assms(26-28,34) by (simp add: MAX_ACCEPTIONS_PER_LOOP_def)
  have acc: "fd \<noteq> acceptor w1" using assms(25) w1(6) by simp
  have opened: "is_opened (cl_connection \<lparr>cl_connection = c, cl_events = EPOLLIN\<rparr>)" using accepted_opened [OF assms(15,22)] by simp
  from client_served [OF opened assms(1-14) assms(18,19) w1(2-4) acc w1(5) assms(29-33) loop assms(35)]
  show ?thesis by (simp only: answer_events_def client.simps)
qed

section \<open>Examples\<close>

abbreviation told :: "int \<Rightarrow> accept_answer list \<Rightarrow> event" where
  "told fd as \<equiv> \<lparr>ev_stopped = False, ev_fd = fd, ev_events = EPOLLIN, ev_accepts = as, ev_swapped = True\<rparr>"

definition one_client :: "body \<Rightarrow> worker" where
  "one_client b = example_worker\<lparr>clients := [5 \<mapsto> \<lparr>cl_connection = connection_init (fst (Descriptor_int 5)), cl_events = EPOLLIN\<rparr>],
      ordi := Ordinator\<lparr>routines := [5 \<mapsto> Routine (Some b)]\<rparr>\<rparr>"

lemma one_client_ok: "worker_inv (one_client b)" "solo b \<Longrightarrow> solo_ord (ordi (one_client b))"
  "acceptor (one_client b) = 3" "clients (one_client b) 5 \<noteq> None" "routines (ordi (one_client b)) 5 = Some (Routine (Some b))"
  by (simp_all add: one_client_def example_worker_def worker_inv_def ord_inv_def slice_inv_def Ordinator_def Routine_def
      connection_init_def Descriptor_int_def solo_ord_def solo_routine_def)

lemma once_solo: "solo once"
proof -
  have "solo (Body Ret)" "solo (Body (Thr e))" for e by (auto intro: solo.intros)
  then show ?thesis unfolding once_def by (intro solo.intros) (auto split: option.splits)
qed

text \<open>A second client, 7, comes in between the two events of client 5.\<close>

definition interleaved :: "(bool \<times> wait_answer) list" where
  "interleaved = [(False, Wait_events [told 5 [], told 3 [Accepted 7 ''1.2.3.4'' 99 0 (Inr (''0.0.0.0'', 80)) 0 once]]),
     (False, Wait_error EINTR), (False, Wait_events [told 7 [], told 5 []])]"

theorem clients_do_not_interfere_witness:
  "\<exists>w' w''. event_loop (\<lambda>_. []) interleaved (one_client once) = Ok () w'
     \<and> handle_events (\<lambda>_. []) [told 5 [], told 5 []] (one_client once) = Ok () w'' \<and> clients w' 5 = clients w'' 5
     \<and> clients w' 5 = None"
proof -
  have "case event_loop (\<lambda>_. []) interleaved (one_client once) of Ok _ w' \<Rightarrow> clients w' 5 = None | _ \<Rightarrow> False"
    by code_simp
  then obtain w' where w': "event_loop (\<lambda>_. []) interleaved (one_client once) = Ok () w'" "clients w' 5 = None"
    by (cases "event_loop (\<lambda>_. []) interleaved (one_client once)") auto
  have own: "filter (\<lambda>x. ev_fd x = 5) (reported interleaved) = [told 5 [], told 5 []]"
    by (simp add: interleaved_def reported_def)
  have "list_all running_round interleaved" "list_all event_ok (reported interleaved)"
    "\<forall>x \<in> set (reported interleaved). ev_fd x \<noteq> 5 \<longrightarrow> foreign 5 x"
    by (simp_all add: interleaved_def reported_def event_ok_def foreign_def once_solo)
  from clients_do_not_interfere [OF one_client_ok(1) one_client_ok(2) [OF once_solo] _ _ this refl, of "\<lambda>_. []"] w' show ?thesis
    by (auto simp: own once_solo one_client_ok(3))
qed

abbreviation accepted_five :: "body \<Rightarrow> accept_answer" where
  "accepted_five b \<equiv> Accepted 5 ''1.2.3.4'' 99 0 (Inr (''0.0.0.0'', 80)) 0 b"

lemma example_free: "solo_ord (ordi example_worker)" "clients example_worker 5 = None"
  "routines (ordi example_worker) (nat 5) = None" "acceptor example_worker = 3"
  by (simp_all add: example_worker_def Ordinator_def solo_ord_def)

lemma five_connected:
  obtains c where "Connection_accepted (Inr (''0.0.0.0'', 80)) (fst (Descriptor_int 5)) ''1.2.3.4'' 99 = Inr c"
  by (simp add: Connection_accepted_def set_src_endpoint_def)

lemma five_accepted:
  assumes "solo b"
  obtains w where "accept_one (accepted_five b) example_worker = Ok True w" "worker_inv w" "solo_ord (ordi w)" "clients w 5 \<noteq> None"
    "routines (ordi w) (nat 5) = Some (Routine (Some b))" "acceptor w = 3"
proof -
  obtain c where c: "Connection_accepted (Inr (''0.0.0.0'', 80)) (fst (Descriptor_int 5)) ''1.2.3.4'' 99 = Inr c"
    by (rule five_connected)
  show thesis
    by (rule accept_new [OF example_worker_inv example_free(1) assms _ example_free(2,3) order_refl order_refl c, unfolded example_free(4)])
      (use that in simp_all)
qed

theorem client_served_among_others_witness:
  "\<exists>head c K n' c' w' sas run. event_loop (\<lambda>_. [])
      [(False, Wait_events [told 3 [accepted_five (routine_body run)]]), (False, Wait_events [told 5 []])]
      example_worker = Ok () w' \<and> (1 \<le> K \<and> clients w' 5 \<noteq> None \<or> K = 0 \<and> clients w' 5 = None)
    \<and> run = (\<lambda>n. fst (client_routine id (on_request open_fs ''now'' ''/w'') (static_sender id ''now'' (\<lambda>p. Some ''abc'')
      [File_taken 2, File_error EAGAIN ''again'', File_taken 1, File_taken 1]) (epoll_fd example_worker) 0 n
      [Received (message_text ''GET /a HTTP/1.0'' [] [])] sas \<lparr>cl_connection = c, cl_events = EPOLLIN\<rparr>)) \<and> run K = Sent (head @ ''abc'') n' [] c'"
proof -
  obtain response head where r: "on_request open_fs ''now'' ''/w'' \<lparr>rq_line = example_line, rq_headers = [], rq_body = []\<rparr> = Inr response"
    "rs_sender response = Some (''/w/a'', length ''abc'')" and h: "response_to_string id response = Inr head"
    by (rule example_file_response)
  obtain c where c: "Connection_accepted (Inr (''0.0.0.0'', 80)) (fst (Descriptor_int 5)) ''1.2.3.4'' 99 = Inr c"
    by (rule five_connected)
  let ?sas = "replicate (length head) (Taken FILE_WRITE_BYTES_PER_CALL)"
    and ?ras = "[Received (message_text ''GET /a HTTP/1.0'' [] [])]" and ?fas = "[File_taken 2, File_error EAGAIN ''again'', File_taken 1, File_taken 1]"
    and ?rounds = "[(False, Wait_events [told 5 []])]"
  let ?client = "\<lparr>cl_connection = c, cl_events = EPOLLIN\<rparr>"
  define serve where "serve = (\<lambda>n. client_routine id (on_request open_fs ''now'' ''/w'') (static_sender id ''now'' (\<lambda>p. Some ''abc'')
      ?fas) (epoll_fd example_worker) 0 n ?ras ?sas ?client)"
  define run where "run = (\<lambda>n. fst (serve n))"
  let ?arrival = "told 3 [accepted_five (routine_body run)]"
  have sas: "list_all (takes_all FILE_WRITE_BYTES_PER_CALL) ?sas" "length head \<le> FILE_WRITE_BYTES_PER_CALL * length ?sas"
    by (simp_all add: list_all_iff FILE_WRITE_BYTES_PER_CALL_def)
  have ras: "list_all recv_goes_on ?ras" "recv_data ?ras = message_text ''GET /a HTTP/1.0'' [] []"
    and fas: "list_all file_goes_on ?fas" "length ''abc'' \<le> length (filter file_takes ?fas)"
    by (simp_all add: message_text_def)
  obtain w1 where w1: "accept_one (accepted_five (routine_body run)) example_worker = Ok True w1" "worker_inv w1" "solo_ord (ordi w1)"
    "clients w1 5 \<noteq> None" "routines (ordi w1) (nat 5) = Some (Routine (Some (routine_body run)))" "acceptor w1 = 3"
    by (rule five_accepted [OF routine_body_solo])
  have opened: "is_opened (cl_connection ?client)" using accepted_opened [OF c zero_less_numeral] by simp
  have "\<exists>n' c'. run (length ?ras + length ?sas + length ?fas) = Sent (head @ ''abc'') n' [] c'"
    using client_routine_serves [OF opened example_head_parts(5,1-3) ras r(1,2) _ h sas fas order_refl, where open_file = "\<lambda>p. Some ''abc''"
      and epoll = "epoll_fd example_worker" and mod_answer = 0]
    unfolding run_def serve_def by fastforce
  then obtain n' c' where N: "run (length ?ras + length ?sas + length ?fas) = Sent (head @ ''abc'') n' [] c'" by blast
  have later: "run (n + d) = sent_later d (run n)" if "\<not> suspended (run n)" for n d
    using client_routine_later that unfolding run_def serve_def by blast
  have "\<exists>w2. handle_client (\<lambda>_. []) True 5 EPOLLIN w1 = Ok () w2"
    by (rule first_resume [of run, OF later N w1(2,4,5)]) (simp_all add: hangup_def EPOLLIN_def EPOLLHUP_def EPOLLERR_def)
  then obtain w' where w': "event_loop (\<lambda>_. []) ((False, Wait_events [?arrival]) # ?rounds) example_worker = Ok () w'"
    by (auto simp: example_free(4) w1(1,6) MAX_ACCEPTIONS_PER_LOOP_def)
  have rounds: "list_all running_round ?rounds" "list_all event_ok (reported ?rounds)"
    "\<forall>x \<in> set (reported ?rounds). ev_fd x \<noteq> 5 \<longrightarrow> foreign 5 x"
    "[told 5 []] = filter (\<lambda>x. ev_fd x = 5) (reported ?rounds)" "list_all (plain_event 5) [told 5 []]"
    by (simp_all add: reported_def event_ok_def foreign_def plain_event_def hangup_def EPOLLIN_def EPOLLHUP_def EPOLLERR_def)
  have arrival: "(5 :: int) \<noteq> acceptor example_worker" "\<not> ev_stopped ?arrival" "ev_fd ?arrival = acceptor example_worker"
    "ev_accepts ?arrival = [accepted_five (routine_body run)]" by (simp_all add: example_free(4))
  have left: "left_with (event_loop (\<lambda>_. []) ((False, Wait_events [?arrival]) # ?rounds) example_worker) = Some w'" by (simp only: w' left_with.simps)
  from client_served_among_others [OF example_head_parts(5,1-3) ras r(1,2) _ h sas fas c order_refl order_refl serve_def run_def
      example_worker_inv example_free(1) zero_less_numeral example_free(2,3) arrival rounds refl left] w'
  obtain K2 n2 c2 ev2 where "serve K2 = (Sent (head @ ''abc'') n2 [] c2, ev2)"
    and K2: "if length [told 5 []] \<le> K2 then clients w' 5 \<noteq> None else clients w' 5 = None" "length [told 5 []] \<le> Suc K2"
    by fastforce
  then have sent: "run K2 = Sent (head @ ''abc'') n2 [] c2" by (simp add: run_def)
  from K2 have "1 \<le> K2 \<and> clients w' 5 \<noteq> None \<or> K2 = 0 \<and> clients w' 5 = None" by (cases K2) simp_all
  with w' sent run_def serve_def show ?thesis by blast
qed

end
