(* ===== verification/ShmAllocator.thy ===== *)
theory ShmAllocator imports Prelude begin

text \<open>
  \<open>shmem/allocators/linear_allocator\<close> and \<open>shmem/shared_memory\<close>: addresses and sizes are 64-bit
  words, so sums and products wrap around where the code's do. The state is the one in shared memory,
  which all copies of an allocator point to; the size of the element type is an argument.
\<close>

section \<open>The allocator\<close>

record linear_allocator =
  start_addr :: "64 word"
  end_addr :: "64 word"
  free_addr :: "64 word"

datatype alloc_error = Bad_alloc | DeallocateError string

definition shared_state_size :: "64 word" where
  "shared_state_size = 24"

definition LinearAllocator :: "64 word \<Rightarrow> 64 word \<Rightarrow> alloc_error + linear_allocator" where
  "LinearAllocator mmap_address mmap_size =
     (if mmap_address + shared_state_size > mmap_address + mmap_size then Inl Bad_alloc
      else Inr \<lparr>start_addr = mmap_address + shared_state_size, end_addr = mmap_address + mmap_size,
                free_addr = mmap_address + shared_state_size\<rparr>)"

text \<open>The null pointer is \<open>0\<close>.\<close>

definition allocate :: "64 word \<Rightarrow> 64 word \<Rightarrow> linear_allocator \<Rightarrow> alloc_error + 64 word \<times> linear_allocator" where
  "allocate sizeof_T n la =
     (if n = 0 then Inr (0, la)
      else let new_free_mem_addr = free_addr la + n * sizeof_T in
        if new_free_mem_addr > end_addr la then Inl Bad_alloc
        else Inr (free_addr la, la\<lparr>free_addr := new_free_mem_addr\<rparr>))"

definition deallocate :: "64 word \<Rightarrow> 64 word \<Rightarrow> 64 word \<Rightarrow> linear_allocator \<Rightarrow> alloc_error + linear_allocator" where
  "deallocate sizeof_T ptr n la =
     (if ptr = 0 then Inr la
      else if ptr > end_addr la \<or> ptr < start_addr la
        then Inl (DeallocateError ''invalid address for deallocate shared memory'')
      else if ptr = free_addr la then Inr (la\<lparr>free_addr := free_addr la - n * sizeof_T\<rparr>)
      else Inr la)"

text \<open>
  An allocator object is a pointer to the shared state (\<open>'a\<close> is the type of addresses) or null; copies
  share the state. Moving from another object leaves that null.
\<close>

definition allocator_copy :: "'a option \<Rightarrow> 'a option" where
  "allocator_copy other = other"

definition allocator_swap :: "'a option \<Rightarrow> 'a option \<Rightarrow> 'a option \<times> 'a option" where
  "allocator_swap this other = (other, this)"

definition allocator_move :: "'a option \<Rightarrow> 'a option \<times> 'a option" where
  "allocator_move other = allocator_swap None other"

definition allocator_move_assign :: "'a option \<Rightarrow> 'a option \<Rightarrow> 'a option \<times> 'a option" where
  "allocator_move_assign this other =
     (let (temp, this) = allocator_swap None this in allocator_swap this other)"

lemma allocator_moves:
  "allocator_move other = (other, None)" "allocator_move_assign this other = (other, None)"
  by (simp_all add: allocator_move_def allocator_move_assign_def allocator_swap_def)

section \<open>Shared memory\<close>

text \<open>
  \<open>create_shmem\<close>: the answer of \<open>mmap\<close>, if it succeeds; the address, the bytes mapped and the bytes that
  the deleter of the pointer will unmap.
\<close>

definition create_shmem :: "64 word \<Rightarrow> 64 word \<Rightarrow> 64 word option \<Rightarrow> alloc_error + 64 word \<times> 64 word \<times> 64 word" where
  "create_shmem sizeof_T n answer =
     (case answer of None \<Rightarrow> Inl Bad_alloc | Some p \<Rightarrow> Inr (p, sizeof_T * n, n))"

section \<open>Bounds\<close>

text \<open>User-space memory: nothing wraps around below half of the address space.\<close>

definition la_inv :: "linear_allocator \<Rightarrow> bool" where
  "la_inv la \<longleftrightarrow> 0 < unat (start_addr la) \<and> unat (start_addr la) \<le> unat (free_addr la)
     \<and> unat (free_addr la) \<le> unat (end_addr la) \<and> unat (end_addr la) \<le> 2 ^ 63"

definition room :: "linear_allocator \<Rightarrow> nat" where
  "room la = unat (end_addr la) - unat (free_addr la)"

lemma unat_add_small: "unat (a :: 64 word) + unat b < 2 ^ 64 \<Longrightarrow> unat (a + b) = unat a + unat b"
  using unat_add_lem [of a b] by simp

lemma unat_mult_small: "unat (a :: 64 word) * unat b < 2 ^ 64 \<Longrightarrow> unat (a * b) = unat a * unat b"
  using unat_mult_lem [of a b] by simp

lemma LinearAllocator_inv:
  assumes "unat a + unat sz \<le> 2 ^ 63" "LinearAllocator a sz = Inr la"
  shows "la_inv la \<and> free_addr la = start_addr la \<and> unat (start_addr la) = unat a + 24 \<and> unat (end_addr la) = unat a + unat sz"
proof -
  have "unat (a + sz) = unat a + unat sz" "unat (a + 24) = unat a + 24"
    using unat_add_small [of a sz] unat_add_small [of a 24] assms(1) by simp_all
  with assms show ?thesis
    by (auto simp: LinearAllocator_def shared_state_size_def la_inv_def word_le_nat_alt word_less_nat_alt not_less split: if_splits)
qed

text \<open>A request whose size in bytes does not wrap around.\<close>

definition fits :: "64 word \<Rightarrow> 64 word \<Rightarrow> bool" where
  "fits sizeof_T n \<longleftrightarrow> unat n * unat sizeof_T < 2 ^ 63"

lemma allocate_eq:
  assumes "la_inv la" "fits sizeof_T n" "n \<noteq> 0"
  shows "allocate sizeof_T n la =
    (if unat n * unat sizeof_T \<le> room la
     then Inr (free_addr la, la\<lparr>free_addr := free_addr la + n * sizeof_T\<rparr>) else Inl Bad_alloc)
    \<and> unat (free_addr la + n * sizeof_T) = unat (free_addr la) + unat n * unat sizeof_T"
proof -
  have "unat (n * sizeof_T) = unat n * unat sizeof_T" using assms(2) by (intro unat_mult_small) (simp add: fits_def)
  then have f: "unat (free_addr la + n * sizeof_T) = unat (free_addr la) + unat n * unat sizeof_T"
    using unat_add_small [of "free_addr la" "n * sizeof_T"] assms(1,2) by (simp add: fits_def la_inv_def)
  have "free_addr la + n * sizeof_T > end_addr la \<longleftrightarrow> \<not> unat n * unat sizeof_T \<le> room la"
    unfolding word_less_nat_alt f room_def using assms(1) by (auto simp: la_inv_def)
  with assms(3) f show ?thesis by (simp add: allocate_def Let_def)
qed

lemma deallocate_other:
  assumes "start_addr la \<le> ptr" "ptr < free_addr la" "la_inv la"
  shows "deallocate sizeof_T ptr n la = Inr la"
proof -
  have "ptr \<le> end_addr la" using assms by (simp add: la_inv_def word_le_nat_alt word_less_nat_alt)
  with assms(1,2) show ?thesis by (auto simp: deallocate_def)
qed

section \<open>Programs of allocations\<close>

text \<open>
  A program allocates, and gives back blocks it got, by their position among all it ever got. What it
  gets are address, element size and count; a request that throws leaves everything as it was.
\<close>

datatype alloc_req = Allocate "64 word" "64 word" | Deallocate nat

type_synonym block = "64 word \<times> 64 word \<times> 64 word"

definition block_bytes :: "block \<Rightarrow> nat" where
  "block_bytes b = (case b of (p, s, n) \<Rightarrow> unat n * unat s)"

fun alloc_step :: "alloc_req \<Rightarrow> linear_allocator \<times> block list \<Rightarrow> linear_allocator \<times> block list" where
  "alloc_step (Allocate s n) (la, bs) =
     (case allocate s n la of Inl e \<Rightarrow> (la, bs) | Inr (p, la) \<Rightarrow> (la, bs @ [(p, s, n)]))"
| "alloc_step (Deallocate i) (la, bs) =
     (if i < length bs then
        (case bs ! i of (p, s, n) \<Rightarrow> (case deallocate s p n la of Inl e \<Rightarrow> (la, bs) | Inr la \<Rightarrow> (la, bs)))
      else (la, bs))"

fun req_ok :: "alloc_req \<Rightarrow> bool" where
  "req_ok (Allocate s n) = (fits s n \<and> n \<noteq> 0 \<and> s \<noteq> 0)"
| "req_ok (Deallocate i) = True"

text \<open>The blocks lie one after the other from the start to the free address.\<close>

fun packed :: "nat \<Rightarrow> block list \<Rightarrow> nat \<Rightarrow> bool" where
  "packed from [] to \<longleftrightarrow> from = to"
| "packed from (b # bs) to \<longleftrightarrow> unat (fst b) = from \<and> 0 < block_bytes b \<and> packed (from + block_bytes b) bs to"

lemma packed_append: "packed from (bs @ [b]) to \<longleftrightarrow> (\<exists>m. packed from bs m \<and> unat (fst b) = m \<and> 0 < block_bytes b \<and> m + block_bytes b = to)"
  by (induction bs arbitrary: "from") auto

lemma packed_sum: "packed from bs to \<Longrightarrow> to = from + sum_list (map block_bytes bs)"
proof (induction bs arbitrary: "from")
  case (Cons b bs)
  from Cons.IH [of "from + block_bytes b"] Cons.prems show ?case by simp
qed simp

lemma packed_range: "packed from bs to \<Longrightarrow> b \<in> set bs \<Longrightarrow> from \<le> unat (fst b) \<and> unat (fst b) + block_bytes b \<le> to \<and> 0 < block_bytes b"
proof (induction bs arbitrary: "from")
  case (Cons c bs)
  show ?case
  proof (cases "b = c")
    case True
    then show ?thesis using Cons.prems(1) packed_sum [of "from + block_bytes c" bs to] by auto
  next
    case False
    with Cons.IH [of "from + block_bytes c"] Cons.prems show ?thesis by auto
  qed
qed simp

lemma packed_disjoint:
  "packed from bs to \<Longrightarrow> i < j \<Longrightarrow> j < length bs \<Longrightarrow> unat (fst (bs ! i)) + block_bytes (bs ! i) \<le> unat (fst (bs ! j))"
proof (induction bs arbitrary: "from" i j)
  case (Cons c bs)
  obtain k where k: "j = Suc k" using Cons.prems(2) by (cases j) auto
  show ?case
  proof (cases i)
    case 0
    have "bs ! k \<in> set bs" using Cons.prems(3) k by simp
    with packed_range [of "from + block_bytes c" bs to "bs ! k"] Cons.prems(1) 0 k show ?thesis by auto
  next
    case (Suc l)
    with Cons.IH [of "from + block_bytes c" l k] Cons.prems k show ?thesis by simp
  qed
qed simp

definition alloc_inv :: "linear_allocator \<Rightarrow> linear_allocator \<times> block list \<Rightarrow> bool" where
  "alloc_inv la0 = (\<lambda>(la, bs). la_inv la \<and> start_addr la = start_addr la0 \<and> end_addr la = end_addr la0
     \<and> packed (unat (start_addr la)) bs (unat (free_addr la)))"

lemma dealloc_step: "alloc_inv la0 (la, bs) \<Longrightarrow> alloc_step (Deallocate i) (la, bs) = (la, bs)"
proof (cases "i < length bs")
  assume inv: "alloc_inv la0 (la, bs)" and i: "i < length bs"
  obtain p t n where b: "bs ! i = (p, t, n)" by (cases "bs ! i")
  have "bs ! i \<in> set bs" using i by simp
  moreover from inv have la: "la_inv la" "packed (unat (start_addr la)) bs (unat (free_addr la))"
    by (auto simp: alloc_inv_def)
  ultimately have "start_addr la \<le> p" "p < free_addr la"
    using packed_range [OF la(2)] b by (fastforce simp: word_le_nat_alt word_less_nat_alt)+
  then show ?thesis using deallocate_other [of la p t n] la(1) i b by simp
qed simp

lemma alloc_step_inv:
  assumes "alloc_inv la0 s" "req_ok r"
  shows "alloc_inv la0 (alloc_step r s)"
proof -
  obtain la bs where s: "s = (la, bs)" by (cases s)
  have inv: "la_inv la" "start_addr la = start_addr la0" "end_addr la = end_addr la0"
    "packed (unat (start_addr la)) bs (unat (free_addr la))"
    using assms(1) by (auto simp: s alloc_inv_def)
  show ?thesis
  proof (cases r)
    case (Allocate t n)
    then have ok: "fits t n" "n \<noteq> 0" "t \<noteq> 0" using assms(2) by simp_all
    note eq = allocate_eq [OF inv(1) ok(1,2)]
    show ?thesis
    proof (cases "unat n * unat t \<le> room la")
      case True
      have "la_inv (la\<lparr>free_addr := free_addr la + n * t\<rparr>)"
        using inv(1) eq True by (auto simp: la_inv_def room_def)
      moreover have "0 < unat n * unat t" using ok(2,3) by (simp add: unat_gt_0)
      moreover have "packed (unat (start_addr la)) (bs @ [(free_addr la, t, n)]) (unat (free_addr la + n * t))"
        unfolding packed_append using inv(4) eq calculation(2) by (simp add: block_bytes_def)
      ultimately show ?thesis using inv(2,3) True eq by (simp add: s Allocate alloc_inv_def)
    next
      case False
      with eq assms(1) show ?thesis by (simp add: s Allocate)
    qed
  next
    case (Deallocate i)
    with assms(1) show ?thesis by (simp only: s Deallocate dealloc_step)
  qed
qed

lemma alloc_steps_inv: "alloc_inv la0 s \<Longrightarrow> list_all req_ok rs \<Longrightarrow> alloc_inv la0 (fold alloc_step rs s)"
  by (induction rs arbitrary: s) (simp_all add: alloc_step_inv)

lemma LinearAllocator_alloc_inv:
  assumes "unat a + unat sz \<le> 2 ^ 63" "LinearAllocator a sz = Inr la"
  shows "alloc_inv la (la, [])"
  using LinearAllocator_inv [OF assms] by (simp add: alloc_inv_def)

section \<open>Properties\<close>

text \<open>
  C17: In any program of allocations and deallocations of its own blocks, on memory in the lower half
  of the address space and with requests whose size does not wrap around, every block lies inside the
  memory behind the shared state, and two blocks never overlap.
\<close>

theorem allocations_disjoint:
  assumes "unat a + unat sz \<le> 2 ^ 63" "LinearAllocator a sz = Inr la" "list_all req_ok rs"
  defines "bs \<equiv> snd (fold alloc_step rs (la, []))"
  shows "(\<forall>b \<in> set bs. unat a + 24 \<le> unat (fst b) \<and> unat (fst b) + block_bytes b \<le> unat a + unat sz)
    \<and> (\<forall>i j. i < j \<and> j < length bs \<longrightarrow> unat (fst (bs ! i)) + block_bytes (bs ! i) \<le> unat (fst (bs ! j)))"
proof -
  obtain la' where s: "fold alloc_step rs (la, []) = (la', bs)" by (metis bs_def prod.collapse)
  from alloc_steps_inv [OF LinearAllocator_alloc_inv [OF assms(1,2)] assms(3)]
  have inv: "la_inv la'" "start_addr la' = start_addr la" "end_addr la' = end_addr la"
    "packed (unat (start_addr la')) bs (unat (free_addr la'))"
    by (auto simp: s alloc_inv_def)
  note base = LinearAllocator_inv [OF assms(1,2)]
  have "unat (free_addr la') \<le> unat a + unat sz" using inv(1,3) base by (simp add: la_inv_def)
  then have "\<forall>b \<in> set bs. unat a + 24 \<le> unat (fst b) \<and> unat (fst b) + block_bytes b \<le> unat a + unat sz"
    using packed_range [OF inv(4)] inv(2) base by fastforce
  with packed_disjoint [OF inv(4)] show ?thesis by blast
qed

definition example_reqs :: "alloc_req list" where
  "example_reqs = [Allocate 8 2, Allocate 1 5, Deallocate 1, Allocate 40 1]"

theorem allocations_disjoint_witness:
  "\<exists>la. LinearAllocator 0x7000 1024 = Inr la
     \<and> snd (fold alloc_step example_reqs (la, [])) = [(0x7018, 8, 2), (0x7028, 1, 5), (0x702D, 40, 1)]
     \<and> unat (0x702D :: 64 word) + 40 \<le> unat (0x7000 :: 64 word) + 1024"
proof -
  obtain la where la: "LinearAllocator 0x7000 1024 = Inr la" "la = \<lparr>start_addr = 0x7018, end_addr = 0x7400, free_addr = 0x7018\<rparr>"
    by (simp add: LinearAllocator_def shared_state_size_def)
  have r: "snd (fold alloc_step example_reqs (la, [])) = [(0x7018, 8, 2), (0x7028, 1, 5), (0x702D, 40, 1)]"
    by (simp add: la(2) example_reqs_def allocate_def deallocate_def)
  have "list_all req_ok example_reqs" by (simp add: example_reqs_def fits_def)
  from allocations_disjoint [OF _ la(1) this] r la(1) show ?thesis by (simp add: block_bytes_def)
qed

text \<open>
  The allocator refines a counter: it takes a request exactly when its bytes are at most what is
  left, which is what all blocks it ever gave out left of the memory. Giving blocks back, in whatever
  order, changes nothing, so the memory of a long-lived map runs out.
\<close>

theorem allocator_is_a_counter:
  assumes "unat a + unat sz \<le> 2 ^ 63" "LinearAllocator a sz = Inr la" "list_all req_ok rs" "fits s n" "n \<noteq> 0"
    and "fold alloc_step rs (la, []) = (la', bs)"
  shows "((\<exists>r. allocate s n la' = Inr r) \<longleftrightarrow> sum_list (map block_bytes bs) + unat n * unat s \<le> unat sz - 24)
    \<and> fst (fold alloc_step (map Deallocate is) (la', bs)) = la'"
proof -
  have inv: "alloc_inv la (la', bs)"
    using alloc_steps_inv [OF LinearAllocator_alloc_inv [OF assms(1,2)] assms(3)] assms(6) by simp
  then have i: "la_inv la'" "start_addr la' = start_addr la" "end_addr la' = end_addr la"
    "packed (unat (start_addr la')) bs (unat (free_addr la'))"
    by (auto simp: alloc_inv_def)
  note base = LinearAllocator_inv [OF assms(1,2)]
  have "room la' = unat sz - 24 - sum_list (map block_bytes bs)"
    using packed_sum [OF i(4)] i(2,3) base by (simp add: room_def)
  moreover have "sum_list (map block_bytes bs) \<le> unat sz - 24"
    using packed_sum [OF i(4)] i base by (simp add: la_inv_def)
  moreover have "fst (fold alloc_step (map Deallocate is) (la', bs)) = la'"
    by (induction "is") (simp_all add: dealloc_step [OF inv] del: alloc_step.simps)
  ultimately show ?thesis using allocate_eq [OF i(1) assms(4,5)] by auto
qed

theorem allocator_is_a_counter_witness:
  "\<exists>la la' bs. LinearAllocator 0x7000 1024 = Inr la \<and> fold alloc_step example_reqs (la, []) = (la', bs)
     \<and> (\<exists>r. allocate 1 939 la' = Inr r) \<and> \<not> (\<exists>r. allocate 1 940 la' = Inr r)"
proof -
  obtain la where la: "LinearAllocator 0x7000 1024 = Inr la" "la = \<lparr>start_addr = 0x7018, end_addr = 0x7400, free_addr = 0x7018\<rparr>"
    by (simp add: LinearAllocator_def shared_state_size_def)
  obtain la' where r: "fold alloc_step example_reqs (la, []) = (la', [(0x7018, 8, 2), (0x7028, 1, 5), (0x702D, 40, 1)])"
    by (simp add: la(2) example_reqs_def allocate_def deallocate_def)
  have "list_all req_ok example_reqs" by (simp add: example_reqs_def fits_def)
  note counter = allocator_is_a_counter [OF _ la(1) this _ _ r]
  from counter [of 1 939] counter [of 1 940] la(1) r show ?thesis by (auto simp: fits_def block_bytes_def)
qed

text \<open>
  The size in bytes is not checked for wrapping around: for every element size that is a power of
  two there is a number of elements for which \<open>allocate\<close> succeeds and takes no memory at all, so the
  next block has the same address.
\<close>

theorem allocate_wraps_around:
  assumes "0 < k" "k < 64" "la_inv la" "free_addr la < end_addr la"
  shows "\<exists>n. n \<noteq> 0 \<and> allocate (2 ^ k) n la = Inr (free_addr la, la)"
proof (intro exI conjI)
  have "(2 :: 64 word) ^ (64 - k) * 2 ^ k = 2 ^ 64" using assms(2) by (simp flip: power_add)
  also have "(2 :: 64 word) ^ 64 = 0" by simp
  finally have z: "(2 :: 64 word) ^ (64 - k) * 2 ^ k = 0" .
  show n: "(2 :: 64 word) ^ (64 - k) \<noteq> 0" using assms(1,2) by (simp add: exp_eq_zero_iff)
  show "allocate (2 ^ k) (2 ^ (64 - k)) la = Inr (free_addr la, la)"
    using n z assms(4) by (simp add: allocate_def Let_def)
qed

theorem allocate_wraps_around_witness:
  "\<exists>n. n \<noteq> 0 \<and> allocate 8 n \<lparr>start_addr = 0x7018, end_addr = 0x7400, free_addr = 0x7018\<rparr> =
     Inr (0x7018, \<lparr>start_addr = 0x7018, end_addr = 0x7400, free_addr = 0x7018\<rparr>)"
  using allocate_wraps_around [of 3 "\<lparr>start_addr = 0x7018, end_addr = 0x7400, free_addr = 0x7018\<rparr>"]
  by (simp add: la_inv_def)

text \<open>
  The deleter of \<open>create_shmem\<close> passes \<open>munmap\<close> the number of elements, not of bytes: the length is that
  of the mapping only for elements of one byte, and less for all others.
\<close>

theorem create_shmem_unmaps:
  assumes "create_shmem sizeof_T n answer = Inr (p, mapped, unmapped)" "fits sizeof_T n" "sizeof_T \<noteq> 0" "n \<noteq> 0"
  shows "unat unmapped \<le> unat mapped \<and> (unmapped = mapped \<longleftrightarrow> sizeof_T = 1)"
proof -
  have m: "unat mapped = unat sizeof_T * unat n" "unmapped = n"
    using assms(1,2) unat_mult_small [of sizeof_T n] by (auto simp: create_shmem_def fits_def mult.commute split: option.splits)
  have "unat sizeof_T > 0" "unat n > 0" using assms(3,4) by (simp_all add: unat_gt_0)
  then show ?thesis using m by (auto simp: word_unat_eq_iff)
qed

theorem create_shmem_unmaps_witness:
  "\<exists>m u. create_shmem 8 1024 (Some 0x7000) = Inr (0x7000, m, u) \<and> u \<noteq> m"
proof -
  obtain m u where r: "create_shmem 8 1024 (Some 0x7000) = Inr (0x7000, m, u)" by (simp add: create_shmem_def)
  from create_shmem_unmaps [OF r] r show ?thesis by (simp add: fits_def)
qed

end
