(* ===== verification/ShmSync.thy ===== *)
theory ShmSync imports NetIO begin

text \<open>
  \<open>shmem/concurrentsync\<close>: \<open>Semaphore\<close> and \<open>Mutex\<close> on POSIX semaphores in shared memory, and the
  critical sections of processes that use a mutex through \<open>std::lock_guard\<close>. A semaphore is its
  value; a call that would block is no step.
\<close>

section \<open>POSIX semaphores\<close>

definition SEM_VALUE_MAX :: nat where
  "SEM_VALUE_MAX = 2147483647"

text \<open>\<open>err\<close> is an error the call fails with for reasons of its own, such as a signal.\<close>

datatype sem_result = Sem_done nat | Sem_blocks | Sem_fails int

definition EOVERFLOW :: int where
  "EOVERFLOW = 75"

definition EINVAL :: int where
  "EINVAL = 22"

definition sem_init :: "nat \<Rightarrow> sem_result" where
  "sem_init v = (if v \<le> SEM_VALUE_MAX then Sem_done v else Sem_fails EINVAL)"

definition sem_wait :: "int option \<Rightarrow> nat \<Rightarrow> sem_result" where
  "sem_wait err v = (case err of Some e \<Rightarrow> Sem_fails e | None \<Rightarrow> if 0 < v then Sem_done (v - 1) else Sem_blocks)"

definition sem_trywait :: "int option \<Rightarrow> nat \<Rightarrow> sem_result" where
  "sem_trywait err v = (case err of Some e \<Rightarrow> Sem_fails e | None \<Rightarrow> if 0 < v then Sem_done (v - 1) else Sem_fails EAGAIN)"

definition sem_post :: "nat \<Rightarrow> sem_result" where
  "sem_post v = (if v < SEM_VALUE_MAX then Sem_done (v + 1) else Sem_fails EOVERFLOW)"

section \<open>\<open>Semaphore\<close> and \<open>Mutex\<close>\<close>

datatype sync_error =
    SemaphoreInitError string
  | SemaphoreWaitError string
  | SemaphoreTryWaitError string
  | SemaphorePostError string
  | MutexInitError string
  | MutexLockError string
  | MutexTryLockError string
  | MutexUnlockError string

record semaphore =
  sem_value :: nat
  sem_empty :: bool

datatype 'a sync = Synced 'a semaphore | Sync_blocks | Sync_threw sync_error semaphore

definition semaphore_empty :: semaphore where
  "semaphore_empty = \<lparr>sem_value = 0, sem_empty = True\<rparr>"

definition Semaphore :: "nat \<Rightarrow> sync_error + semaphore" where
  "Semaphore v = (case sem_init v of
     Sem_done v \<Rightarrow> Inr \<lparr>sem_value = v, sem_empty = False\<rparr>
   | _ \<Rightarrow> Inl (SemaphoreInitError ''cannot init unix semaphore''))"

definition semaphore_wait :: "int option \<Rightarrow> semaphore \<Rightarrow> unit sync" where
  "semaphore_wait err s = (case sem_wait err (sem_value s) of
     Sem_done v \<Rightarrow> Synced () (s\<lparr>sem_value := v\<rparr>)
   | Sem_blocks \<Rightarrow> Sync_blocks
   | Sem_fails e \<Rightarrow> Sync_threw (SemaphoreWaitError ''semaphore wait error'') s)"

definition semaphore_try_wait :: "int option \<Rightarrow> semaphore \<Rightarrow> bool sync" where
  "semaphore_try_wait err s = (case sem_trywait err (sem_value s) of
     Sem_done v \<Rightarrow> Synced True (s\<lparr>sem_value := v\<rparr>)
   | Sem_blocks \<Rightarrow> Sync_blocks
   | Sem_fails e \<Rightarrow> if e \<noteq> EAGAIN then Sync_threw (SemaphoreTryWaitError ''semaphore try_wait error'') s else Synced False s)"

definition semaphore_post :: "semaphore \<Rightarrow> unit sync" where
  "semaphore_post s = (case sem_post (sem_value s) of
     Sem_done v \<Rightarrow> Synced () (s\<lparr>sem_value := v\<rparr>)
   | _ \<Rightarrow> Sync_threw (SemaphorePostError ''semaphore post error'') s)"

definition semaphore_swap :: "semaphore \<Rightarrow> semaphore \<Rightarrow> semaphore \<times> semaphore" where
  "semaphore_swap a b = (b, a)"

text \<open>The destructors: whether they call \<open>sem_destroy\<close>.\<close>

definition semaphore_destroy :: "semaphore \<Rightarrow> bool" where
  "semaphore_destroy s = True"

type_synonym mutex = semaphore

definition Mutex :: "sync_error + mutex" where
  "Mutex = (case sem_init 1 of
     Sem_done v \<Rightarrow> Inr \<lparr>sem_value = v, sem_empty = False\<rparr>
   | _ \<Rightarrow> Inl (MutexInitError ''cannot init unix mutex''))"

definition mutex_lock :: "int option \<Rightarrow> mutex \<Rightarrow> unit sync" where
  "mutex_lock err m = (case sem_wait err (sem_value m) of
     Sem_done v \<Rightarrow> Synced () (m\<lparr>sem_value := v\<rparr>)
   | Sem_blocks \<Rightarrow> Sync_blocks
   | Sem_fails e \<Rightarrow> Sync_threw (MutexLockError ''mutex lock error'') m)"

definition mutex_try_lock :: "int option \<Rightarrow> mutex \<Rightarrow> bool sync" where
  "mutex_try_lock err m = (case sem_trywait err (sem_value m) of
     Sem_done v \<Rightarrow> Synced True (m\<lparr>sem_value := v\<rparr>)
   | Sem_blocks \<Rightarrow> Sync_blocks
   | Sem_fails e \<Rightarrow> if e \<noteq> EAGAIN then Sync_threw (MutexTryLockError ''mutex try_lock error'') m else Synced False m)"

definition mutex_unlock :: "mutex \<Rightarrow> unit sync" where
  "mutex_unlock m = (case sem_post (sem_value m) of
     Sem_done v \<Rightarrow> Synced () (m\<lparr>sem_value := v\<rparr>)
   | _ \<Rightarrow> Sync_threw (MutexUnlockError ''mutex unlock error'') m)"

definition mutex_swap :: "mutex \<Rightarrow> mutex \<Rightarrow> mutex \<times> mutex" where
  "mutex_swap a b = (b, a)"

definition mutex_destroy :: "mutex \<Rightarrow> bool" where
  "mutex_destroy m = (\<not> sem_empty m)"

text \<open>Both move assignments: the old value goes to a temporary that is destroyed, then they swap.\<close>

definition sync_move_assign :: "(semaphore \<Rightarrow> bool) \<Rightarrow> semaphore \<Rightarrow> semaphore \<Rightarrow> semaphore \<times> semaphore \<times> bool" where
  "sync_move_assign destroy this other =
     (let (tmp, this) = semaphore_swap semaphore_empty this; destroyed = destroy tmp;
          (this, other) = semaphore_swap this other
      in (this, other, destroyed))"

section \<open>Critical sections\<close>

text \<open>
  What a lock promises: a free lock is taken, a held one is not, and giving it back frees it. A process
  runs its section, a list of actions on the shared state, between the two.
\<close>

datatype 's process_at = Waiting "('s \<Rightarrow> 's) list" | Inside "('s \<Rightarrow> 's) list" | Done_with

record ('l, 's) sections =
  the_lock :: 'l
  shared :: 's
  at :: "nat \<Rightarrow> 's process_at"

inductive section_step ::
  "('l \<Rightarrow> 'l option) \<Rightarrow> ('l \<Rightarrow> 'l option) \<Rightarrow> ('l, 's) sections \<Rightarrow> ('s \<Rightarrow> 's) list option \<Rightarrow> ('l, 's) sections \<Rightarrow> bool"
  for acquire release where
  Enter: "at c p = Waiting as \<Longrightarrow> acquire (the_lock c) = Some l \<Longrightarrow>
    section_step acquire release c (Some as) (c\<lparr>the_lock := l, at := (at c)(p := Inside as)\<rparr>)"
| Act: "at c p = Inside (a # as) \<Longrightarrow>
    section_step acquire release c None (c\<lparr>shared := a (shared c), at := (at c)(p := Inside as)\<rparr>)"
| Leave: "at c p = Inside [] \<Longrightarrow> release (the_lock c) = Some l \<Longrightarrow>
    section_step acquire release c None (c\<lparr>the_lock := l, at := (at c)(p := Done_with)\<rparr>)"
| Come: "at c p = Done_with \<Longrightarrow>
    section_step acquire release c None (c\<lparr>at := (at c)(p := Waiting as)\<rparr>)"

text \<open>A run, with the sections in the order in which they were entered.\<close>

inductive section_run ::
  "('l \<Rightarrow> 'l option) \<Rightarrow> ('l \<Rightarrow> 'l option) \<Rightarrow> ('l, 's) sections \<Rightarrow> ('s \<Rightarrow> 's) list list \<Rightarrow> ('l, 's) sections \<Rightarrow> bool"
  for acquire release where
  No_step: "section_run acquire release c [] c"
| One_more: "section_run acquire release c es c' \<Longrightarrow> section_step acquire release c' e c'' \<Longrightarrow>
    section_run acquire release c (es @ (case e of None \<Rightarrow> [] | Some as \<Rightarrow> [as])) c''"

definition run_section :: "('s \<Rightarrow> 's) list \<Rightarrow> 's \<Rightarrow> 's" where
  "run_section as s = fold (\<lambda>a s. a s) as s"

definition nobody_inside :: "('l, 's) sections \<Rightarrow> bool" where
  "nobody_inside c \<longleftrightarrow> (\<forall>p as. at c p \<noteq> Inside as)"

locale lock =
  fixes acquire :: "'l \<Rightarrow> 'l option"
    and release :: "'l \<Rightarrow> 'l option"
    and is_free :: "'l \<Rightarrow> bool"
    and is_held :: "'l \<Rightarrow> bool"
  assumes acquire_free: "acquire l = Some l' \<Longrightarrow> is_free l \<or> is_held l \<Longrightarrow> is_free l \<and> is_held l'"
    and release_held: "release l = Some l' \<Longrightarrow> is_held l \<Longrightarrow> is_free l'"
    and not_both: "\<not> (is_free l \<and> is_held l)"
begin

text \<open>
  At most one process is inside, and the lock is held just then; the shared state will be, when it has
  left, what the sections entered so far make of the first state one after the other.
\<close>

definition inv :: "'s \<Rightarrow> ('l, 's) sections \<Rightarrow> bool" where
  "inv final c \<longleftrightarrow>
     (if nobody_inside c then is_free (the_lock c) \<and> shared c = final
      else is_held (the_lock c) \<and> (\<exists>p as. at c p = Inside as \<and> (\<forall>q bs. at c q = Inside bs \<longrightarrow> q = p) \<and> run_section as (shared c) = final))"

lemma inv_inside:
  "inv final c \<Longrightarrow> at c p = Inside as \<Longrightarrow>
   is_held (the_lock c) \<and> (\<forall>q bs. at c q = Inside bs \<longrightarrow> q = p) \<and> run_section as (shared c) = final"
  unfolding inv_def nobody_inside_def by (metis process_at.inject(2))

lemma insideI:
  "is_held (the_lock c) \<Longrightarrow> at c p = Inside as \<Longrightarrow> \<forall>q bs. at c q = Inside bs \<longrightarrow> q = p \<Longrightarrow> run_section as (shared c) = final \<Longrightarrow> inv final c"
  unfolding inv_def nobody_inside_def by metis

lemma step_inv:
  "section_step acquire release c e c' \<Longrightarrow> inv final c \<Longrightarrow> inv (case e of None \<Rightarrow> final | Some as \<Rightarrow> run_section as final) c'"
proof (induction rule: section_step.induct)
  case (Enter c p as l)
  have free: "is_free (the_lock c)" "is_held l"
    using acquire_free [OF Enter(2)] Enter(3) by (auto simp: inv_def split: if_splits)
  then have "nobody_inside c" "shared c = final"
    using Enter(3) not_both by (auto simp: inv_def split: if_splits)
  with free show ?case by (auto simp: nobody_inside_def intro!: insideI [of _ p as] split: if_splits)
next
  case (Act c p a as)
  from inv_inside [OF Act(2,1)] show ?case
    by (auto simp: run_section_def intro!: insideI [of _ p as] split: if_splits)
next
  case (Leave c p l)
  from inv_inside [OF Leave(3,1)] release_held [OF Leave(2)] show ?case
    by (auto simp: inv_def nobody_inside_def run_section_def)
next
  case (Come c p as)
  show ?case
  proof (cases "nobody_inside c")
    case True
    with Come show ?thesis by (auto simp: inv_def nobody_inside_def)
  next
    case False
    with Come(2) obtain q bs where q: "at c q = Inside bs" by (auto simp: nobody_inside_def)
    then have "q \<noteq> p" using Come(1) by auto
    with inv_inside [OF Come(2) q] q show ?thesis by (auto intro!: insideI [of _ q bs] split: if_splits)
  qed
qed

lemma run_inv:
  "section_run acquire release c es c' \<Longrightarrow> inv final c \<Longrightarrow> inv (fold run_section es final) c'"
proof (induction rule: section_run.induct)
  case (One_more c es c' e c'')
  with step_inv [OF One_more(2)] show ?case by (cases e) simp_all
qed simp

lemma sections_in_order:
  assumes "section_run acquire release c es c'" "is_free (the_lock c)" "nobody_inside c"
  shows "(\<forall>p q as bs. at c' p = Inside as \<longrightarrow> at c' q = Inside bs \<longrightarrow> p = q)
    \<and> (nobody_inside c' \<longrightarrow> is_free (the_lock c') \<and> shared c' = fold run_section es (shared c))"
proof -
  have "inv (shared c) c" using assms(2,3) by (simp add: inv_def)
  from run_inv [OF assms(1) this] inv_inside [of _ c'] show ?thesis by (auto simp: inv_def)
qed

end

text \<open>The steps of a process that locks and unlocks a \<open>Mutex\<close>.\<close>

definition locked :: "unit sync \<Rightarrow> mutex option" where
  "locked r = (case r of Synced _ m \<Rightarrow> Some m | _ \<Rightarrow> None)"

interpretation shm_mutex: lock "\<lambda>m. locked (mutex_lock None m)" "\<lambda>m. locked (mutex_unlock m)"
  "\<lambda>m. sem_value m = 1" "\<lambda>m. sem_value m = 0"
  by unfold_locales
    (auto simp: locked_def mutex_lock_def mutex_unlock_def sem_wait_def sem_post_def SEM_VALUE_MAX_def split: if_splits)

section \<open>Programs of semaphore operations\<close>

datatype sem_op = Wait | Try_wait | Post

fun sem_op_step :: "sem_op \<Rightarrow> semaphore \<Rightarrow> bool sync" where
  "sem_op_step Wait s = (case semaphore_wait None s of Synced _ s \<Rightarrow> Synced True s | Sync_blocks \<Rightarrow> Sync_blocks | Sync_threw e s \<Rightarrow> Sync_threw e s)"
| "sem_op_step Try_wait s = semaphore_try_wait None s"
| "sem_op_step Post s = (case semaphore_post s of Synced _ s \<Rightarrow> Synced True s | Sync_blocks \<Rightarrow> Sync_blocks | Sync_threw e s \<Rightarrow> Sync_threw e s)"

text \<open>The operations that returned true, out of those that were begun while none blocked.\<close>

fun sem_run :: "sem_op list \<Rightarrow> semaphore \<Rightarrow> sem_op list \<times> semaphore" where
  "sem_run [] s = ([], s)"
| "sem_run (op # ops) s = (case sem_op_step op s of
     Synced r s \<Rightarrow> (let (done, s) = sem_run ops s in (if r then op # done else done, s))
   | Sync_threw e s \<Rightarrow> sem_run ops s
   | Sync_blocks \<Rightarrow> ([], s))"

section \<open>Properties\<close>

text \<open>
  C16: Sections between the \<open>lock\<close> and the \<open>unlock\<close> of one \<open>Mutex\<close> exclude each other, and in every
  interleaving of any number of processes the shared state is, whenever nobody is inside, what the
  sections make of it one after the other in the order of their locks.
\<close>

theorem mutex_sections_in_order:
  assumes "Mutex = Inr m" "the_lock c = m" "nobody_inside c"
    and "section_run (\<lambda>m. locked (mutex_lock None m)) (\<lambda>m. locked (mutex_unlock m)) c es c'"
  shows "(\<forall>p q as bs. at c' p = Inside as \<longrightarrow> at c' q = Inside bs \<longrightarrow> p = q)
    \<and> (nobody_inside c' \<longrightarrow> shared c' = fold run_section es (shared c))"
proof -
  have "sem_value (the_lock c) = 1" using assms(1,2) by (auto simp: Mutex_def sem_init_def SEM_VALUE_MAX_def)
  from shm_mutex.sections_in_order [OF assms(4) this assms(3)] show ?thesis by blast
qed

definition two_increments :: "(mutex, nat) sections" where
  "two_increments = \<lparr>the_lock = \<lparr>sem_value = 1, sem_empty = False\<rparr>, shared = 0,
     at = (\<lambda>p. if p = 0 then Waiting [\<lambda>n. n + 1, \<lambda>n. 2 * n] else Done_with)\<rparr>"

theorem mutex_sections_in_order_witness:
  "\<exists>c'. section_run (\<lambda>m. locked (mutex_lock None m)) (\<lambda>m. locked (mutex_unlock m)) two_increments
      [[\<lambda>n. n + 1, \<lambda>n. 2 * n]] c' \<and> shared c' = 2"
proof -
  let ?acq = "\<lambda>m. locked (mutex_lock None m)" and ?rel = "\<lambda>m. locked (mutex_unlock m)" and ?as = "[\<lambda>n :: nat. n + 1, \<lambda>n. 2 * n]"
  define c1 where "c1 = two_increments\<lparr>the_lock := \<lparr>sem_value = 0, sem_empty = False\<rparr>, at := (at two_increments)(0 := Inside ?as)\<rparr>"
  define c2 where "c2 = c1\<lparr>shared := 1, at := (at c1)(0 := Inside [\<lambda>n. 2 * n])\<rparr>"
  define c3 where "c3 = c2\<lparr>shared := 2, at := (at c2)(0 := Inside [])\<rparr>"
  define c4 where "c4 = c3\<lparr>the_lock := \<lparr>sem_value = 1, sem_empty = False\<rparr>, at := (at c3)(0 := Done_with)\<rparr>"
  have "section_step ?acq ?rel two_increments (Some ?as) c1" unfolding c1_def
    by (rule section_step.Enter) (simp_all add: two_increments_def locked_def mutex_lock_def sem_wait_def)
  from One_more [OF No_step this] have r1: "section_run ?acq ?rel two_increments [?as] c1" by simp
  have "section_step ?acq ?rel c1 None c2" "section_step ?acq ?rel c2 None c3"
    using section_step.Act [of c1 0 "\<lambda>n. n + 1" "[\<lambda>n. 2 * n]" ?acq ?rel] section_step.Act [of c2 0 "\<lambda>n. 2 * n" "[]" ?acq ?rel]
    by (simp_all add: c1_def c2_def c3_def two_increments_def)
  moreover have "section_step ?acq ?rel c3 None c4" unfolding c4_def
    by (rule section_step.Leave)
      (simp_all add: c1_def c2_def c3_def locked_def mutex_unlock_def sem_post_def SEM_VALUE_MAX_def)
  ultimately have r: "section_run ?acq ?rel two_increments [?as] c4"
    using One_more [OF One_more [OF One_more [OF r1]], of None c2 None c3 None c4] by simp
  have "Mutex = Inr \<lparr>sem_value = 1, sem_empty = False\<rparr>" by (simp add: Mutex_def sem_init_def SEM_VALUE_MAX_def)
  from mutex_sections_in_order [OF this _ _ r] have "nobody_inside c4 \<Longrightarrow> shared c4 = 2"
    by (simp add: two_increments_def nobody_inside_def run_section_def)
  moreover have "nobody_inside c4" by (simp add: nobody_inside_def c4_def c3_def c2_def c1_def two_increments_def)
  ultimately show ?thesis using r by blast
qed

text \<open>
  A semaphore counts: after any sequence of its operations that the system lets succeed, its value
  is the first value, plus the posts, minus the waits that got through; \<open>wait\<close> never returns when it is
  zero and \<open>post\<close> throws at its maximum.
\<close>

theorem semaphore_counts:
  assumes "Semaphore v = Inr s" "sem_run ops s = (done, s')"
  shows "sem_value s' + length (filter (\<lambda>op. op \<noteq> Post) done) = v + length (filter (\<lambda>op. op = Post) done)
    \<and> sem_value s' \<le> SEM_VALUE_MAX"
proof -
  have "sem_run ops s = (done, s') \<Longrightarrow> sem_value s \<le> SEM_VALUE_MAX \<Longrightarrow>
      sem_value s' + length (filter (\<lambda>op. op \<noteq> Post) done) = sem_value s + length (filter (\<lambda>op. op = Post) done)
      \<and> sem_value s' \<le> SEM_VALUE_MAX" for s
  proof (induction ops arbitrary: s "done")
    case (Cons op ops)
    show ?case
    proof (cases "sem_op_step op s")
      case (Synced r s1)
      obtain d1 s2 where d: "sem_run ops s1 = (d1, s2)" by (cases "sem_run ops s1")
      with Cons.prems Synced have e: "s2 = s'" "done = (if r then op # d1 else d1)" by auto
      from Cons.IH [OF d [unfolded e(1)]] Synced Cons.prems(2) e show ?thesis
        by (cases op) (auto simp: semaphore_wait_def semaphore_try_wait_def semaphore_post_def sem_wait_def
            sem_trywait_def sem_post_def split: if_splits)
    next
      case (Sync_threw e s1)
      then have "s1 = s"
        by (cases op) (auto simp: semaphore_wait_def semaphore_try_wait_def semaphore_post_def sem_wait_def
            sem_trywait_def sem_post_def split: if_splits)
      with Cons Sync_threw show ?thesis by simp
    qed (use Cons.prems in simp)
  qed simp
  moreover have "sem_value s = v" "v \<le> SEM_VALUE_MAX"
    using assms(1) by (auto simp: Semaphore_def sem_init_def split: if_splits)
  ultimately show ?thesis using assms(2) by blast
qed

theorem semaphore_counts_witness:
  "\<exists>s d s'. Semaphore 1 = Inr s \<and> sem_run [Wait, Try_wait, Post, Post, Wait] s = (d, s') \<and> d = [Wait, Post, Post, Wait] \<and> sem_value s' = 1"
proof -
  obtain s where s: "Semaphore 1 = Inr s" by (simp add: Semaphore_def sem_init_def SEM_VALUE_MAX_def)
  obtain d s' where r: "sem_run [Wait, Try_wait, Post, Post, Wait] s = (d, s')" by (cases "sem_run [Wait, Try_wait, Post, Post, Wait] s")
  from semaphore_counts [OF s r] r s show ?thesis
    by (auto simp: Semaphore_def sem_init_def SEM_VALUE_MAX_def semaphore_wait_def semaphore_try_wait_def semaphore_post_def
        sem_wait_def sem_trywait_def sem_post_def EAGAIN_def)
qed

end
