(* ===== verification/ShmMap.thy ===== *)
theory ShmMap imports ShmAllocator ShmSync CppStd begin

text \<open>
  \<open>shmem/containers/map\<close>: a \<open>std::map\<close> in shared memory whose nodes come from the linear allocator,
  every operation under the mutex of the map. Parameters are the size of a node, how many characters a copy
  of a key and of a value takes from the allocator (none for a plain type), and whether an assignment over
  an old value needs new memory. An exception inside an operation leaves through the \<open>lock_guard\<close>.
\<close>

section \<open>State\<close>

datatype map_error =
    Map_alloc alloc_error
  | Map_out_of_range
  | Map_sync sync_error

datatype 'a map_result = Map_returns 'a | Map_throws map_error | Map_blocks

text \<open>A node: key, value, its own blocks with those of the key, and the blocks of the value.\<close>

type_synonym ('k, 'v) nodes = "('k \<times> 'v \<times> block list \<times> block list) list"

record ('k, 'v) shm_map =
  sm_mutex :: mutex
  sm_alloc :: linear_allocator
  sm_nodes :: "('k, 'v) nodes"

definition lookup_node :: "('k, 'v) nodes \<Rightarrow> 'k \<Rightarrow> 'v option" where
  "lookup_node ns k = map_option fst (map_of ns k)"

section \<open>Blocks of memory\<close>

definition give_back :: "block list \<Rightarrow> linear_allocator \<Rightarrow> linear_allocator" where
  "give_back bs la = fold (\<lambda>(p, s, n) la. case deallocate s p n la of Inl e \<Rightarrow> la | Inr la \<Rightarrow> la) bs la"

text \<open>
  Blocks of the given element sizes and counts, one after the other; when one cannot be had, those
  before it go back, the last one first.
\<close>

fun take_blocks ::
  "(64 word \<times> 64 word) list \<Rightarrow> block list \<Rightarrow> linear_allocator \<Rightarrow> (alloc_error + block list) \<times> linear_allocator" where
  "take_blocks [] got la = (Inr (rev got), la)"
| "take_blocks ((s, n) # xs) got la =
     (case allocate s n la of
        Inl e \<Rightarrow> (Inl e, give_back got la)
      | Inr (p, la) \<Rightarrow> take_blocks xs ((p, s, n) # got) la)"

section \<open>Construction\<close>

text \<open>
  The constructor allocates the mutex and the map object and gives them back when a later step throws;
  \<open>init\<close> is whether \<open>sem_init\<close> succeeds.
\<close>

definition Map ::
  "64 word \<Rightarrow> 64 word \<Rightarrow> bool \<Rightarrow> linear_allocator \<Rightarrow> (map_error + ('k, 'v) shm_map) \<times> linear_allocator" where
  "Map mutex_size map_size init la =
     (case allocate mutex_size 1 la of
        Inl e \<Rightarrow> (Inl (Map_alloc e), la)
      | Inr (mutex_mem, la) \<Rightarrow>
          (case allocate map_size 1 la of
             Inl e \<Rightarrow> (Inl (Map_alloc e), give_back [(mutex_mem, mutex_size, 1)] la)
           | Inr (map_mem, la) \<Rightarrow>
               (case (if init then Mutex else Inl (MutexInitError ''cannot init unix mutex'')) of
                  Inl e \<Rightarrow> (Inl (Map_sync e), give_back [(map_mem, map_size, 1), (mutex_mem, mutex_size, 1)] la)
                | Inr m \<Rightarrow> (Inr \<lparr>sm_mutex = m, sm_alloc = la, sm_nodes = []\<rparr>, la))))"

section \<open>Operations\<close>

text \<open>
  A key is passed as the key type itself, or as another type of which \<open>get_obj_copy\<close> makes a key that goes
  when the operation is over.
\<close>

datatype 'k key_arg = Same (the_key: 'k) | Converted (the_key: 'k)

definition copy_blocks :: "('a \<Rightarrow> 64 word) \<Rightarrow> 'a \<Rightarrow> (64 word \<times> 64 word) list" where
  "copy_blocks bytes x = (if bytes x = 0 then [] else [(1, bytes x)])"

definition with_copy ::
  "('a \<Rightarrow> 64 word) \<Rightarrow> 'a key_arg \<Rightarrow> ('a \<Rightarrow> ('k, 'v) shm_map \<Rightarrow> (map_error + 'b) \<times> ('k, 'v) shm_map)
    \<Rightarrow> ('k, 'v) shm_map \<Rightarrow> (map_error + 'b) \<times> ('k, 'v) shm_map" where
  "with_copy bytes arg f m =
     (case arg of
        Same x \<Rightarrow> f x m
      | Converted x \<Rightarrow>
          (case take_blocks (copy_blocks bytes x) [] (sm_alloc m) of
             (Inl e, la) \<Rightarrow> (Inl (Map_alloc e), m\<lparr>sm_alloc := la\<rparr>)
           | (Inr bs, la) \<Rightarrow>
               let (r, m) = f x (m\<lparr>sm_alloc := la\<rparr>) in (r, m\<lparr>sm_alloc := give_back bs (sm_alloc m)\<rparr>)))"

text \<open>
  \<open>at\<close> copies the value: by the key type itself the copy is what the caller gets, otherwise it is a local
  variable that the result is made of.
\<close>

definition map_at :: "('v \<Rightarrow> 64 word) \<Rightarrow> bool \<Rightarrow> 'k \<Rightarrow> ('k, 'v) shm_map \<Rightarrow> (map_error + 'v) \<times> ('k, 'v) shm_map" where
  "map_at vs returned k m =
     (case lookup_node (sm_nodes m) k of
        None \<Rightarrow> (Inl Map_out_of_range, m)
      | Some v \<Rightarrow>
          (case take_blocks (copy_blocks vs v) [] (sm_alloc m) of
             (Inl e, la) \<Rightarrow> (Inl (Map_alloc e), m\<lparr>sm_alloc := la\<rparr>)
           | (Inr bs, la) \<Rightarrow> (Inr v, m\<lparr>sm_alloc := (if returned then la else give_back bs la)\<rparr>)))"

text \<open>
  \<open>insert\<close> copies key and value and moves the copies into the node that \<open>std::map::emplace\<close> makes first,
  and drops when the key is there.
\<close>

definition map_insert ::
  "64 word \<Rightarrow> ('k \<Rightarrow> 64 word) \<Rightarrow> ('v \<Rightarrow> 64 word) \<Rightarrow> 'k \<Rightarrow> 'v \<Rightarrow> ('k, 'v) shm_map \<Rightarrow> (map_error + unit) \<times> ('k, 'v) shm_map" where
  "map_insert node_size ks vs k v m =
     (case take_blocks (copy_blocks ks k @ copy_blocks vs v @ [(node_size, 1)]) [] (sm_alloc m) of
        (Inl e, la) \<Rightarrow> (Inl (Map_alloc e), m\<lparr>sm_alloc := la\<rparr>)
      | (Inr bs, la) \<Rightarrow>
          let nk = length (copy_blocks ks k); nv = length (copy_blocks vs v) in
          if lookup_node (sm_nodes m) k = None
          then (Inr (), m\<lparr>sm_alloc := la, sm_nodes := sm_nodes m @ [(k, v, take nk bs @ drop (nk + nv) bs, take nv (drop nk bs))]\<rparr>)
          else (Inr (), m\<lparr>sm_alloc := give_back bs la\<rparr>))"

text \<open>
  \<open>std::map::insert_or_assign\<close> makes a node only for a new key, and copies key and value into it; the value
  of an old key is assigned, in its own memory when that is enough.
\<close>

definition map_assign ::
  "64 word \<Rightarrow> ('k \<Rightarrow> 64 word) \<Rightarrow> ('v \<Rightarrow> 64 word) \<Rightarrow> ('v \<Rightarrow> 'v \<Rightarrow> bool) \<Rightarrow> 'v \<Rightarrow> 'k \<Rightarrow> ('k, 'v) shm_map
    \<Rightarrow> (map_error + unit) \<times> ('k, 'v) shm_map" where
  "map_assign node_size ks vs grows v k m =
     (case map_of (sm_nodes m) k of
        Some (w, bs, vbs) \<Rightarrow>
          if grows w v then
            (case take_blocks (copy_blocks vs v) [] (sm_alloc m) of
               (Inl e, la) \<Rightarrow> (Inl (Map_alloc e), m\<lparr>sm_alloc := la\<rparr>)
             | (Inr new, la) \<Rightarrow>
                 (Inr (), m\<lparr>sm_nodes := AList.update k (v, bs, new) (sm_nodes m), sm_alloc := give_back vbs la\<rparr>))
          else (Inr (), m\<lparr>sm_nodes := AList.update k (v, bs, vbs) (sm_nodes m)\<rparr>)
      | None \<Rightarrow>
          (case take_blocks ((node_size, 1) # copy_blocks ks k @ copy_blocks vs v) [] (sm_alloc m) of
             (Inl e, la) \<Rightarrow> (Inl (Map_alloc e), m\<lparr>sm_alloc := la\<rparr>)
           | (Inr bs, la) \<Rightarrow>
               let nk = 1 + length (copy_blocks ks k) in
               (Inr (), m\<lparr>sm_alloc := la, sm_nodes := sm_nodes m @ [(k, v, take nk bs, drop nk bs)]\<rparr>)))"

definition map_erase :: "'k \<Rightarrow> ('k, 'v) shm_map \<Rightarrow> (map_error + nat) \<times> ('k, 'v) shm_map" where
  "map_erase k m =
     (case map_of (sm_nodes m) k of
        None \<Rightarrow> (Inr 0, m)
      | Some (v, bs, vbs) \<Rightarrow>
          (Inr 1, m\<lparr>sm_nodes := AList.delete k (sm_nodes m), sm_alloc := give_back (vbs @ bs) (sm_alloc m)\<rparr>))"

text \<open>The node leaves the map and belongs to the caller.\<close>

definition map_extract :: "'k \<Rightarrow> ('k, 'v) shm_map \<Rightarrow> (map_error + 'v option) \<times> ('k, 'v) shm_map" where
  "map_extract k m = (Inr (lookup_node (sm_nodes m) k), m\<lparr>sm_nodes := AList.delete k (sm_nodes m)\<rparr>)"

definition map_clear :: "('k, 'v) shm_map \<Rightarrow> (map_error + unit) \<times> ('k, 'v) shm_map" where
  "map_clear m =
     (Inr (), m\<lparr>sm_nodes := [], sm_alloc := give_back (concat (map (\<lambda>(k, v, bs, vbs). vbs @ bs) (sm_nodes m))) (sm_alloc m)\<rparr>)"

definition map_contains :: "'k \<Rightarrow> ('k, 'v) shm_map \<Rightarrow> (map_error + bool) \<times> ('k, 'v) shm_map" where
  "map_contains k m = (Inr (lookup_node (sm_nodes m) k \<noteq> None), m)"

definition map_empty :: "('k, 'v) shm_map \<Rightarrow> (map_error + bool) \<times> ('k, 'v) shm_map" where
  "map_empty m = (Inr (sm_nodes m = []), m)"

definition map_count :: "'k \<Rightarrow> ('k, 'v) shm_map \<Rightarrow> (map_error + nat) \<times> ('k, 'v) shm_map" where
  "map_count k m = (Inr (if lookup_node (sm_nodes m) k = None then 0 else 1), m)"

definition map_size :: "('k, 'v) shm_map \<Rightarrow> (map_error + nat) \<times> ('k, 'v) shm_map" where
  "map_size m = (Inr (length (sm_nodes m)), m)"

text \<open>The \<open>lock_guard\<close>: the body runs with the lock and the guard unlocks whichever way it ends.\<close>

definition guarded_by ::
  "int option \<Rightarrow> (('k, 'v) shm_map \<Rightarrow> (map_error + 'a) \<times> ('k, 'v) shm_map) \<Rightarrow> ('k, 'v) shm_map
    \<Rightarrow> 'a map_result \<times> ('k, 'v) shm_map" where
  "guarded_by err body m =
     (case mutex_lock err (sm_mutex m) of
        Sync_blocks \<Rightarrow> (Map_blocks, m)
      | Sync_threw e mx \<Rightarrow> (Map_throws (Map_sync e), m\<lparr>sm_mutex := mx\<rparr>)
      | Synced _ mx \<Rightarrow>
          (case body (m\<lparr>sm_mutex := mx\<rparr>) of
             (r, m) \<Rightarrow>
               (case r of Inl e \<Rightarrow> Map_throws e | Inr x \<Rightarrow> Map_returns x,
                case mutex_unlock (sm_mutex m) of Synced _ mx \<Rightarrow> m\<lparr>sm_mutex := mx\<rparr> | _ \<Rightarrow> m)))"

text \<open>
  A map object holds the pointers to its mutex and map, or nulls. \<open>destroy\<close>, without the lock: how often it
  destroys the semaphore of the mutex, and what the pointers of the object then lead to, as they stay what
  they are. The destructor only clears the pointers.
\<close>

definition map_destroy :: "block \<Rightarrow> block \<Rightarrow> ('k, 'v) shm_map option \<Rightarrow> nat \<times> ('k, 'v) shm_map option" where
  "map_destroy map_mem mutex_mem this =
     (case this of
        None \<Rightarrow> (0, None)
      | Some m \<Rightarrow>
          let m = snd (map_clear m)
          in (if mutex_destroy (sm_mutex m) then 1 else 0, Some (m\<lparr>sm_alloc := give_back [map_mem, mutex_mem] (sm_alloc m)\<rparr>)))"

definition map_end :: "'m option \<Rightarrow> 'm option" where
  "map_end this = None"

text \<open>The moves between two objects are made of \<open>swap\<close>.\<close>

definition map_swap :: "'m option \<Rightarrow> 'm option \<Rightarrow> 'm option \<times> 'm option" where
  "map_swap this other = (other, this)"

definition map_move :: "'m option \<Rightarrow> 'm option \<times> 'm option" where
  "map_move other = map_swap None other"

definition map_move_assign :: "'m option \<Rightarrow> 'm option \<Rightarrow> 'm option \<times> 'm option" where
  "map_move_assign this other = (let (temp, this) = map_swap None this in map_swap this other)"

lemma map_moves: "map_move other = (other, None)" "map_move_assign this other = (other, None)"
  by (simp_all add: map_move_def map_move_assign_def map_swap_def)

section \<open>Requests\<close>

datatype ('k, 'v) map_req =
    At "'k key_arg"
  | Insert 'k 'v
  | Insert_or_assign 'k 'v
  | Insert_or_assign_forward 'k 'v
  | Erase "'k key_arg"
  | Extract "'k key_arg"
  | Clear
  | Empty
  | Size
  | Count 'k
  | Contains "'k key_arg"

datatype 'v map_answer = Unit | Value 'v | Maybe "'v option" | Number nat | Truth bool

definition answer :: "('a \<Rightarrow> 'v map_answer) \<Rightarrow> (map_error + 'a) \<times> 'm \<Rightarrow> (map_error + 'v map_answer) \<times> 'm" where
  "answer f r = (case r of (Inl e, m) \<Rightarrow> (Inl e, m) | (Inr x, m) \<Rightarrow> (Inr (f x), m))"

text \<open>How much memory a program's types take.\<close>

record ('k, 'v) sizes =
  node_size :: "64 word"
  key_size :: "'k \<Rightarrow> 64 word"
  value_size :: "'v \<Rightarrow> 64 word"
  value_grows :: "'v \<Rightarrow> 'v \<Rightarrow> bool"

fun map_body :: "('k, 'v) sizes \<Rightarrow> ('k, 'v) map_req \<Rightarrow> ('k, 'v) shm_map \<Rightarrow> (map_error + 'v map_answer) \<times> ('k, 'v) shm_map" where
  "map_body z (At k) m = with_copy (key_size z) k
     (\<lambda>k' m. answer Value (map_at (value_size z) (case k of Same _ \<Rightarrow> True | Converted _ \<Rightarrow> False) k' m)) m"
| "map_body z (Insert k v) m = answer (\<lambda>_. Unit) (map_insert (node_size z) (key_size z) (value_size z) k v m)"
| "map_body z (Insert_or_assign k v) m = with_copy (key_size z) (Converted k)
     (\<lambda>k m. with_copy (value_size z) (Converted v)
       (\<lambda>v m. answer (\<lambda>_. Unit) (map_assign (node_size z) (key_size z) (value_size z) (value_grows z) v k m)) m) m"
| "map_body z (Insert_or_assign_forward k v) m = with_copy (key_size z) (Converted k)
     (\<lambda>k m. answer (\<lambda>_. Unit) (map_assign (node_size z) (key_size z) (value_size z) (value_grows z) v k m)) m"
| "map_body z (Erase k) m = with_copy (key_size z) k (\<lambda>k m. answer Number (map_erase k m)) m"
| "map_body z (Extract k) m = with_copy (key_size z) k (\<lambda>k m. answer Maybe (map_extract k m)) m"
| "map_body z Clear m = answer (\<lambda>_. Unit) (map_clear m)"
| "map_body z Empty m = answer Truth (map_empty m)"
| "map_body z Size m = answer Number (map_size m)"
| "map_body z (Count k) m = answer Number (map_count k m)"
| "map_body z (Contains k) m = with_copy (key_size z) k (\<lambda>k m. answer Truth (map_contains k m)) m"

definition map_step :: "('k, 'v) sizes \<Rightarrow> ('k, 'v) map_req \<Rightarrow> ('k, 'v) shm_map \<Rightarrow> 'v map_answer map_result \<times> ('k, 'v) shm_map" where
  "map_step z r m = guarded_by None (map_body z r) m"

text \<open>Types that hold no memory of their own, such as numbers.\<close>

definition plain_sizes :: "64 word \<Rightarrow> ('k, 'v) sizes" where
  "plain_sizes n = \<lparr>node_size = n, key_size = (\<lambda>_. 0), value_size = (\<lambda>_. 0), value_grows = (\<lambda>_ _. False)\<rparr>"

text \<open>The specification: what a finite map answers and becomes.\<close>

fun spec_step :: "('k, 'v) map_req \<Rightarrow> ('k \<Rightarrow> 'v option) \<Rightarrow> 'v map_answer map_result \<times> ('k \<Rightarrow> 'v option)" where
  "spec_step (At k) f = (case f (the_key k) of None \<Rightarrow> Map_throws Map_out_of_range | Some v \<Rightarrow> Map_returns (Value v), f)"
| "spec_step (Insert k v) f = (Map_returns Unit, if f k = None then f(k \<mapsto> v) else f)"
| "spec_step (Insert_or_assign k v) f = (Map_returns Unit, f(k \<mapsto> v))"
| "spec_step (Insert_or_assign_forward k v) f = (Map_returns Unit, f(k \<mapsto> v))"
| "spec_step (Erase k) f = (Map_returns (Number (if f (the_key k) = None then 0 else 1)), f(the_key k := None))"
| "spec_step (Extract k) f = (Map_returns (Maybe (f (the_key k))), f(the_key k := None))"
| "spec_step Clear f = (Map_returns Unit, \<lambda>_. None)"
| "spec_step Empty f = (Map_returns (Truth (f = (\<lambda>_. None))), f)"
| "spec_step Size f = (Map_returns (Number (card (dom f))), f)"
| "spec_step (Count k) f = (Map_returns (Number (if f k = None then 0 else 1)), f)"
| "spec_step (Contains k) f = (Map_returns (Truth (f (the_key k) \<noteq> None)), f)"

section \<open>Lemmas\<close>

definition map_inv :: "('k, 'v) shm_map \<Rightarrow> bool" where
  "map_inv m \<longleftrightarrow> sem_value (sm_mutex m) = 1 \<and> distinct (map fst (sm_nodes m))"

lemma lookup_node_append:
  "lookup_node ns k = None \<Longrightarrow> lookup_node (ns @ [(k, v, p)]) = (lookup_node ns)(k \<mapsto> v)"
  by (auto simp: lookup_node_def map_add_def fun_eq_iff split: option.splits)

lemma lookup_node_update: "lookup_node (AList.update k (v, p) ns) = (lookup_node ns)(k \<mapsto> v)"
  by (auto simp: lookup_node_def update_conv fun_eq_iff)

lemma lookup_node_delete: "lookup_node (AList.delete k ns) = (lookup_node ns)(k := None)"
  by (auto simp: lookup_node_def delete_conv fun_eq_iff)

lemma lookup_node_None: "lookup_node ns k = None \<longleftrightarrow> k \<notin> fst ` set ns"
  by (auto simp: lookup_node_def map_of_eq_None_iff)

lemma lookup_node_Nil [simp]: "lookup_node [] = (\<lambda>_. None)"
  by (simp add: lookup_node_def fun_eq_iff)

lemma card_lookup_node: "distinct (map fst ns) \<Longrightarrow> card (dom (lookup_node ns)) = length ns"
proof -
  assume d: "distinct (map fst ns)"
  have "dom (lookup_node ns) = fst ` set ns" using lookup_node_None [of ns] by (auto simp: dom_def)
  with d show ?thesis by (metis distinct_card list.set_map length_map)
qed

interpretation shm_dict: dict_store "\<lambda>k. k" "lookup_node :: (string, 'v) nodes \<Rightarrow> string \<Rightarrow> 'v option"
  "\<lambda>k v ns. if lookup_node ns k = None then ns @ [(k, v, [], [])] else ns"
  "\<lambda>k v ns. AList.update k (v, [], []) ns" "AList.delete" "[]"
  by unfold_locales (auto simp: lookup_node_append lookup_node_update lookup_node_delete)

text \<open>What a body does: it answers as the specification says, or fails to allocate and keeps the content.\<close>

definition body_ok ::
  "('k, 'v) map_req \<Rightarrow> ('k, 'v) shm_map \<Rightarrow> (map_error + 'v map_answer) \<times> ('k, 'v) shm_map \<Rightarrow> bool" where
  "body_ok req m out \<longleftrightarrow>
     (case out of (r, m') \<Rightarrow>
        sm_mutex m' = sm_mutex m \<and> distinct (map fst (sm_nodes m')) \<and>
        ((case r of Inl e \<Rightarrow> Map_throws e | Inr x \<Rightarrow> Map_returns x, lookup_node (sm_nodes m')) = spec_step req (lookup_node (sm_nodes m))
         \<or> (\<exists>e. r = Inl (Map_alloc e)) \<and> lookup_node (sm_nodes m') = lookup_node (sm_nodes m)))"

lemma body_ok_same:
  "sm_mutex m' = sm_mutex m \<Longrightarrow> sm_nodes m' = sm_nodes m \<Longrightarrow> body_ok req m = body_ok req m'"
  by (simp add: body_ok_def fun_eq_iff)

lemma with_copy_ok:
  assumes "\<And>m'. sm_mutex m' = sm_mutex m \<Longrightarrow> sm_nodes m' = sm_nodes m \<Longrightarrow> body_ok req m (f (the_key arg) m')"
    and "distinct (map fst (sm_nodes m))"
  shows "body_ok req m (with_copy ks arg f m)"
proof (cases arg)
  case (Same k)
  with assms(1) [of m] show ?thesis by (simp add: with_copy_def)
next
  case (Converted k)
  obtain r la where t: "take_blocks (copy_blocks ks k) [] (sm_alloc m) = (r, la)" by fastforce
  show ?thesis
  proof (cases r)
    case (Inl e)
    with assms(2) t show ?thesis by (simp add: with_copy_def Converted body_ok_def)
  next
    case (Inr bs)
    obtain x m' where f: "f k (m\<lparr>sm_alloc := la\<rparr>) = (x, m')" by fastforce
    with assms(1) [of "m\<lparr>sm_alloc := la\<rparr>"] t Inr show ?thesis
      by (simp add: with_copy_def Converted body_ok_def)
  qed
qed

lemma distinct_append_new: "lookup_node ns k = None \<Longrightarrow> distinct (map fst ns) \<Longrightarrow> distinct (map fst (ns @ [(k, x)]))"
  by (auto simp: lookup_node_None)

lemma map_of_lookup: "map_of ns k = Some (v, bs) \<Longrightarrow> lookup_node ns k = Some v"
  "map_of ns k = None \<Longrightarrow> lookup_node ns k = None"
  by (simp_all add: lookup_node_def)

lemma lookup_empty: "(lookup_node ns = (\<lambda>_. None)) = (ns = [])"
  by (cases ns) (auto simp: lookup_node_def fun_eq_iff)

lemmas node_lemmas = lookup_node_append lookup_node_update lookup_node_delete distinct_append_new
  distinct_update distinct_delete map_of_lookup

lemma at_ok:
  "distinct (map fst (sm_nodes m)) \<Longrightarrow> sm_mutex m' = sm_mutex m \<Longrightarrow> sm_nodes m' = sm_nodes m \<Longrightarrow>
   body_ok (At k) m (answer Value (map_at vs ret (the_key k) m'))"
  by (auto simp: body_ok_def answer_def map_at_def split: option.splits prod.splits sum.splits)

lemma insert_ok:
  "distinct (map fst (sm_nodes m)) \<Longrightarrow> body_ok (Insert k v) m (answer (\<lambda>_. Unit) (map_insert ns ks vs k v m))"
  by (auto simp: body_ok_def answer_def map_insert_def node_lemmas Let_def split: prod.splits sum.splits)

lemma assign_ok:
  assumes "distinct (map fst (sm_nodes m))" "sm_mutex m' = sm_mutex m" "sm_nodes m' = sm_nodes m"
  shows "body_ok (Insert_or_assign k v) m (answer (\<lambda>_. Unit) (map_assign ns ks vs grows v k m'))"
    "body_ok (Insert_or_assign_forward k v) m (answer (\<lambda>_. Unit) (map_assign ns ks vs grows v k m'))"
  using assms
  by (auto simp: body_ok_def answer_def map_assign_def node_lemmas Let_def split: prod.splits sum.splits option.splits)

lemma erase_ok:
  assumes "distinct (map fst (sm_nodes m))" "sm_mutex m' = sm_mutex m" "sm_nodes m' = sm_nodes m"
  shows "body_ok (Erase k) m (answer Number (map_erase (the_key k) m'))"
proof (cases "map_of (sm_nodes m) (the_key k)")
  case None
  with assms show ?thesis using map_of_lookup(2) [OF None]
    by (simp add: body_ok_def answer_def map_erase_def fun_upd_idem)
next
  case (Some x)
  obtain v bs vbs where x: "x = (v, bs, vbs)" by (cases x)
  with Some assms show ?thesis using map_of_lookup(1) [of "sm_nodes m" "the_key k" v "(bs, vbs)"]
    by (simp add: body_ok_def answer_def map_erase_def node_lemmas)
qed

lemma others_ok:
  assumes "distinct (map fst (sm_nodes m))" "sm_mutex m' = sm_mutex m" "sm_nodes m' = sm_nodes m"
  shows "body_ok (Extract k) m (answer Maybe (map_extract (the_key k) m'))"
    "body_ok (Contains k) m (answer Truth (map_contains (the_key k) m'))"
    "body_ok (Count j) m (answer Number (map_count j m))"
    "body_ok Clear m (answer (\<lambda>_. Unit) (map_clear m))"
    "body_ok Empty m (answer Truth (map_empty m))"
    "body_ok Size m (answer Number (map_size m))"
  using assms
  by (simp_all add: body_ok_def answer_def map_extract_def map_contains_def map_count_def map_clear_def map_empty_def
      map_size_def node_lemmas lookup_empty card_lookup_node)

lemma map_body_ok: "distinct (map fst (sm_nodes m)) \<Longrightarrow> body_ok req m (map_body z req m)"
proof (cases req)
  case (Insert_or_assign k v)
  assume d: "distinct (map fst (sm_nodes m))"
  have "body_ok req m (with_copy (value_size z) (Converted v)
      (\<lambda>v m. answer (\<lambda>_. Unit) (map_assign (node_size z) (key_size z) (value_size z) (value_grows z) v k m)) m')"
    if "sm_mutex m' = sm_mutex m" "sm_nodes m' = sm_nodes m" for m'
    unfolding body_ok_same [OF that] Insert_or_assign using d that
    by (intro with_copy_ok) (auto intro!: assign_ok)
  then show ?thesis using d unfolding Insert_or_assign map_body.simps by (intro with_copy_ok) auto
next
  case (Insert_or_assign_forward k v)
  assume "distinct (map fst (sm_nodes m))"
  then show ?thesis using Insert_or_assign_forward by (auto intro!: with_copy_ok assign_ok)
qed (auto intro!: with_copy_ok at_ok insert_ok erase_ok others_ok)

text \<open>An insertion and the erasure of the same plain key in an empty map.\<close>

definition churn :: "64 word \<Rightarrow> 'k \<Rightarrow> 'v \<Rightarrow> ('k, 'v) shm_map \<Rightarrow> ('k, 'v) shm_map" where
  "churn ns k v m = snd (map_step (plain_sizes ns) (Erase (Same k)) (snd (map_step (plain_sizes ns) (Insert k v) m)))"

lemmas step_simps = map_step_def guarded_by_def mutex_lock_def sem_wait_def mutex_unlock_def sem_post_def
  SEM_VALUE_MAX_def answer_def

definition unlocked_empty :: "('k, 'v) shm_map \<Rightarrow> bool" where
  "unlocked_empty m \<longleftrightarrow> sem_value (sm_mutex m) = 1 \<and> sm_nodes m = [] \<and> la_inv (sm_alloc m)"

lemma insert_into_empty:
  assumes "unlocked_empty m" "fits ns 1"
  shows "map_step (plain_sizes ns) (Insert k v) m =
    (if unat ns \<le> room (sm_alloc m)
     then (Map_returns Unit, m\<lparr>sm_alloc := (sm_alloc m)\<lparr>free_addr := free_addr (sm_alloc m) + ns\<rparr>,
             sm_nodes := [(k, v, [(free_addr (sm_alloc m), ns, 1)], [])]\<rparr>)
     else (Map_throws (Map_alloc alloc_error.Bad_alloc), m))"
  using assms allocate_eq [of "sm_alloc m" ns 1]
  by (simp add: unlocked_empty_def step_simps map_insert_def copy_blocks_def lookup_node_def give_back_def plain_sizes_def)

lemma churn_step:
  assumes "unlocked_empty m" "fits ns 1" "ns \<noteq> 0" "unat ns \<le> room (sm_alloc m)"
  shows "unlocked_empty (churn ns k v m) \<and> room (sm_alloc (churn ns k v m)) = room (sm_alloc m) - unat ns"
proof -
  define la where "la = (sm_alloc m)\<lparr>free_addr := free_addr (sm_alloc m) + ns\<rparr>"
  have inv: "la_inv (sm_alloc m)" using assms(1) by (simp add: unlocked_empty_def)
  have f: "unat (free_addr la) = unat (free_addr (sm_alloc m)) + unat ns"
    using allocate_eq [OF inv assms(2)] by (simp add: la_def)
  have la: "la_inv la" "room la = room (sm_alloc m) - unat ns"
    using f assms(4) inv by (auto simp: la_inv_def room_def la_def)
  have "deallocate ns (free_addr (sm_alloc m)) 1 la = Inr la"
    using la(1) f assms(3) inv
    by (intro deallocate_other) (simp_all add: la_inv_def la_def word_less_nat_alt word_le_nat_alt unat_gt_0)
  then have "churn ns k v m = m\<lparr>sm_alloc := la\<rparr>"
    using assms(1) insert_into_empty [OF assms(1,2), of k v] assms(4)
    by (simp add: churn_def la_def [symmetric] unlocked_empty_def step_simps with_copy_def map_erase_def give_back_def plain_sizes_def)
  with assms(1) la show ?thesis by (simp add: unlocked_empty_def)
qed

lemma churn_steps:
  assumes "unlocked_empty m" "fits ns 1" "ns \<noteq> 0" "j * unat ns \<le> room (sm_alloc m)"
  shows "unlocked_empty ((churn ns k v ^^ j) m) \<and> room (sm_alloc ((churn ns k v ^^ j) m)) = room (sm_alloc m) - j * unat ns"
  using assms(4)
proof (induction j)
  case (Suc j)
  then show ?case using churn_step [of "(churn ns k v ^^ j) m" ns k v] assms(2,3) by simp
qed (simp add: assms(1))

text \<open>
  Nothing tells a second \<open>destroy\<close>, through the same object or that of another process, that the map is gone:
  it destroys the mutex once more.
\<close>

lemma map_destroyed_again:
  assumes "mutex_destroy (sm_mutex m)" "map_destroy map_mem mutex_mem (Some m) = (n, this)"
  shows "n = 1 \<and> fst (map_destroy map_mem mutex_mem this) = 1"
  using assms by (auto simp: map_destroy_def map_clear_def mutex_destroy_def)

section \<open>Properties\<close>

text \<open>
  C4: Every operation on a map whose mutex is free returns or throws with the mutex free again, and
  answers and changes the content as the same operation on a finite map; the only other outcome is that
  it throws because the allocator has no room, and then the content is what it was.
\<close>

theorem map_refines_dictionary:
  assumes "map_inv m" "map_step z req m = (r, m')"
  shows "map_inv m'
    \<and> ((r, lookup_node (sm_nodes m')) = spec_step req (lookup_node (sm_nodes m))
       \<or> (\<exists>e. r = Map_throws (Map_alloc e)) \<and> lookup_node (sm_nodes m') = lookup_node (sm_nodes m))"
proof -
  have inv: "sem_value (sm_mutex m) = 1" "distinct (map fst (sm_nodes m))" using assms(1) by (auto simp: map_inv_def)
  define m0 where "m0 = m\<lparr>sm_mutex := (sm_mutex m)\<lparr>sem_value := 0\<rparr>\<rparr>"
  have nodes: "sm_nodes m0 = sm_nodes m" "sem_value (sm_mutex m0) = 0" by (simp_all add: m0_def)
  have lock: "mutex_lock None (sm_mutex m) = Synced () (sm_mutex m0)"
    using inv(1) by (simp add: mutex_lock_def sem_wait_def m0_def)
  have unlock: "mutex_unlock mx = Synced () (mx\<lparr>sem_value := 1\<rparr>)" if "sem_value mx = 0" for mx
    using that by (simp add: mutex_unlock_def sem_post_def SEM_VALUE_MAX_def)
  obtain x m1 where body: "map_body z req m0 = (x, m1)" by fastforce
  have ok: "body_ok req m0 (x, m1)" using map_body_ok [of m0 req z] inv(2) nodes body by simp
  then have mx: "sem_value (sm_mutex m1) = 0" using nodes(2) by (simp add: body_ok_def)
  have "m\<lparr>sm_mutex := sm_mutex m0\<rparr> = m0" by (simp add: m0_def)
  then have "r = (case x of Inl e \<Rightarrow> Map_throws e | Inr x \<Rightarrow> Map_returns x) \<and> m' = m1\<lparr>sm_mutex := (sm_mutex m1)\<lparr>sem_value := 1\<rparr>\<rparr>"
    using assms(2) by (simp add: map_step_def guarded_by_def lock body unlock [OF mx])
  with ok nodes(1) show ?thesis by (auto simp: body_ok_def map_inv_def)
qed

definition example_map :: "(nat, nat) shm_map" where
  "example_map = \<lparr>sm_mutex = \<lparr>sem_value = 1, sem_empty = False\<rparr>,
     sm_alloc = \<lparr>start_addr = 0x7018, end_addr = 0x7040, free_addr = 0x7018\<rparr>, sm_nodes = []\<rparr>"

theorem map_refines_dictionary_witness:
  "\<exists>r m' r' m''. map_step (plain_sizes 40) (Insert 1 5) example_map = (r, m') \<and> map_step (plain_sizes 40) (Insert 2 6) m' = (r', m'')
     \<and> lookup_node (sm_nodes m') = [1 \<mapsto> 5] \<and> r' = Map_throws (Map_alloc alloc_error.Bad_alloc) \<and> map_inv m''"
proof -
  have i: "map_inv example_map" by (simp add: map_inv_def example_map_def)
  obtain r m' where 1: "map_step (plain_sizes 40) (Insert 1 5) example_map = (r, m')" by fastforce
  obtain r' m'' where 2: "map_step (plain_sizes 40) (Insert 2 6) m' = (r', m'')" by fastforce
  have m': "m' = example_map\<lparr>sm_alloc := \<lparr>start_addr = 0x7018, end_addr = 0x7040, free_addr = 0x7040\<rparr>, sm_nodes := [(1, 5, [(0x7018, 40, 1)], [])]\<rparr>"
    using 1 by (simp add: map_step_def guarded_by_def mutex_lock_def sem_wait_def example_map_def map_insert_def copy_blocks_def plain_sizes_def
        allocate_def lookup_node_def answer_def mutex_unlock_def sem_post_def SEM_VALUE_MAX_def)
  have "r' = Map_throws (Map_alloc alloc_error.Bad_alloc)"
    using 2 by (simp add: m' map_step_def guarded_by_def mutex_lock_def sem_wait_def example_map_def map_insert_def copy_blocks_def plain_sizes_def
        allocate_def lookup_node_def answer_def mutex_unlock_def sem_post_def SEM_VALUE_MAX_def)
  moreover have "lookup_node (sm_nodes m') = [1 \<mapsto> 5]" by (auto simp: m' lookup_node_def)
  ultimately show ?thesis using map_refines_dictionary [OF i 1] map_refines_dictionary [OF _ 2] 1 2 by blast
qed

text \<open>
  Erasing gives no memory back. When a program inserts one key into an empty map and erases it, over
  and over, the insertion after \<open>j\<close> rounds succeeds only when all the nodes that were ever made and one
  more fit into the memory together; the round that they do not fit for throws \<open>bad_alloc\<close>, though the
  map is empty.
\<close>

theorem erase_leaks_nodes:
  assumes "unlocked_empty m" "fits ns 1" "ns \<noteq> 0" "j * unat ns \<le> room (sm_alloc m)"
  shows "sm_nodes ((churn ns k v ^^ j) m) = []
    \<and> fst (map_step (plain_sizes ns) (Insert k v) ((churn ns k v ^^ j) m)) =
      (if Suc j * unat ns \<le> room (sm_alloc m) then Map_returns Unit else Map_throws (Map_alloc alloc_error.Bad_alloc))"
proof -
  have c: "unlocked_empty ((churn ns k v ^^ j) m)"
    "room (sm_alloc ((churn ns k v ^^ j) m)) = room (sm_alloc m) - j * unat ns"
    using churn_steps [OF assms] by auto
  from insert_into_empty [OF c(1) assms(2)] c assms(4) show ?thesis by (auto simp: unlocked_empty_def)
qed

theorem erase_leaks_nodes_witness:
  "sm_nodes ((churn 20 1 5 ^^ 2) example_map) = []
    \<and> fst (map_step (plain_sizes 20) (Insert 1 5) ((churn 20 1 5 ^^ 2) example_map)) = Map_throws (Map_alloc alloc_error.Bad_alloc)"
proof -
  have "unlocked_empty example_map" by (simp add: unlocked_empty_def example_map_def la_inv_def)
  from erase_leaks_nodes [OF this, of 20 2 1 5] show ?thesis by (simp add: fits_def example_map_def room_def)
qed

end
