(* ===== verification/ExactIO.thy ===== *)
theory ExactIO imports NetIO begin

text \<open>
  The loops \<open>write_exact\<close> and \<open>read_exact\<close>, which \<open>linuxproc::Process\<close> and the synchronous
  \<open>tcpcon\<close> connection have in common, over the single read and write of each class. Both loops hand
  the same address to every call: the pointer does not move on. A run is given the answers of the
  system calls; when none is left the call blocks.
\<close>

section \<open>The loops\<close>

datatype 'e write_run =
    Written string "send_answer list"
  | Write_threw 'e string
  | Write_blocked string

text \<open>\<open>wire\<close> is what the other side has been sent; \<open>nothing\<close> is the exception for a write of no bytes.\<close>

fun write_exact_loop ::
  "(send_answer \<Rightarrow> string \<Rightarrow> 'e + nat) \<Rightarrow> 'e \<Rightarrow> string \<Rightarrow> nat \<Rightarrow> string \<Rightarrow> send_answer list \<Rightarrow> 'e write_run" where
  "write_exact_loop write_some nothing buf len wire [] = (if len \<noteq> 0 then Write_blocked wire else Written wire [])"
| "write_exact_loop write_some nothing buf len wire (a # as) =
     (if len \<noteq> 0 then
        (case write_some a (take len buf) of
           Inl e \<Rightarrow> Write_threw e wire
         | Inr bytes_written \<Rightarrow>
             let len = len - bytes_written; wire = wire @ take bytes_written buf in
             if bytes_written = 0 \<and> len \<noteq> 0 then Write_threw nothing wire
             else write_exact_loop write_some nothing buf len wire as)
      else Written wire (a # as))"

datatype ('e, 'c) read_run =
    Filled string 'c "recv_answer list"
  | Read_threw 'e string 'c
  | Read_blocked string 'c

text \<open>What a read of some bytes does to the memory at the address.\<close>

definition store :: "string \<Rightarrow> string \<Rightarrow> string" where
  "store bytes mem = bytes @ drop (length bytes) mem"

fun read_exact_loop ::
  "(recv_answer \<Rightarrow> nat \<Rightarrow> 'c \<Rightarrow> 'e + string \<times> 'c) \<Rightarrow> ('c \<Rightarrow> bool) \<Rightarrow> 'e \<Rightarrow> nat \<Rightarrow> string \<Rightarrow> 'c \<Rightarrow> recv_answer list
    \<Rightarrow> ('e, 'c) read_run" where
  "read_exact_loop read_some readable eof len mem c [] =
     (if len = 0 then Filled mem c [] else if \<not> readable c then Read_threw eof mem c else Read_blocked mem c)"
| "read_exact_loop read_some readable eof len mem c (a # as) =
     (if len = 0 then Filled mem c (a # as)
      else if \<not> readable c then Read_threw eof mem c
      else (case read_some a len c of
          Inl e \<Rightarrow> Read_threw e mem c
        | Inr (bytes, c) \<Rightarrow> read_exact_loop read_some readable eof (len - length bytes) (store bytes mem) c as))"

section \<open>What a class with these loops provides\<close>

locale exact_writer =
  fixes usable :: "'c \<Rightarrow> bool"
    and write_some :: "'c \<Rightarrow> send_answer \<Rightarrow> string \<Rightarrow> 'e + nat"
  assumes write_taken: "usable c \<Longrightarrow> write_some c (Taken k) buf = Inr (taken (length buf) k)"
    and write_fails: "usable c \<Longrightarrow> \<exists>e. write_some c (Send_error err) buf = Inl e"
begin

text \<open>
  What is sent when a run ends well: pieces that all begin where the buffer begins, of the right
  total length. One piece is the buffer.
\<close>

lemma write_exact_pieces:
  assumes "usable c" "len \<le> length buf" "write_exact_loop (write_some c) nothing buf len wire as = Written wire' rest"
  shows "\<exists>ns. wire' = wire @ concat (map (\<lambda>n. take n buf) ns) \<and> sum_list ns = len \<and> (\<forall>n \<in> set ns. 0 < n)"
  using assms(2,3)
proof (induction as arbitrary: len wire)
  case (Cons a as)
  show ?case
  proof (cases "len = 0")
    case False
    show ?thesis
    proof (cases a)
      case (Send_error err)
      with False Cons.prems write_fails [OF assms(1), of err "take len buf"] show ?thesis by auto
    next
      case (Taken k)
      define m where "m = min len k"
      have w: "write_some c a (take len buf) = Inr m"
        using write_taken [OF assms(1), of k "take len buf"] Cons.prems(1) Taken by (simp add: taken_def m_def)
      with False Cons.prems(2) have m: "m > 0" "m \<le> len" by (cases k; simp add: m_def Let_def)+
      from w m False Cons.prems(2)
      have r: "write_exact_loop (write_some c) nothing buf (len - m) (wire @ take m buf) as = Written wire' rest" by simp
      have "len - m \<le> length buf" using Cons.prems(1) by simp
      from Cons.IH [OF this r] obtain ns where
        ns: "wire' = (wire @ take m buf) @ concat (map (\<lambda>n. take n buf) ns)" "sum_list ns = len - m" "\<forall>n \<in> set ns. 0 < n" by blast
      show ?thesis by (rule exI [of _ "m # ns"]) (use ns m in auto)
    qed
  qed (use Cons.prems in \<open>auto intro: exI [of _ "[]"]\<close>)
qed (auto intro: exI [of _ "[]"] split: if_splits)

lemma write_exact_answers:
  assumes "usable c" "\<forall>k \<in> set ks. 0 < k" "sum_list ks = len" "len \<le> length buf"
  shows "write_exact_loop (write_some c) nothing buf len wire (map Taken ks) =
    Written (wire @ concat (map (\<lambda>n. take n buf) ks)) []"
  using assms(2-4)
proof (induction ks arbitrary: len wire)
  case (Cons k ks)
  then have "taken (length (take len buf)) k = k" by (simp add: taken_def)
  with Cons show ?case by (simp add: write_taken [OF assms(1)])
qed simp

text \<open>
  The loops end: every call that does not throw moves at least one byte, or is the last one. As many
  answers as there are bytes are enough for each.
\<close>

lemma write_exact_over:
  assumes "usable c" "len \<le> length as" "len \<le> length buf"
  shows "write_exact_loop (write_some c) nothing buf len wire as \<noteq> Write_blocked wire'"
  using assms(2,3)
proof (induction as arbitrary: len wire)
  case (Cons a as)
  show ?case
  proof (cases a)
    case (Send_error err)
    with write_fails [OF assms(1), of err "take len buf"] show ?thesis by auto
  next
    case (Taken k)
    then have w: "write_some c a (take len buf) = Inr (min len k)"
      using write_taken [OF assms(1), of k "take len buf"] Cons.prems(2) by (simp add: taken_def)
    have "len - min len k \<le> length as" if "k \<noteq> 0" using Cons.prems(1) that by auto
    with Cons.IH [of "len - min len k"] Cons.prems(2) w show ?thesis by (cases "k = 0") (auto simp: Let_def)
  qed
qed simp

end

locale exact_reader =
  fixes usable :: "'c \<Rightarrow> bool"
    and readable :: "'c \<Rightarrow> bool"
    and read_some :: "recv_answer \<Rightarrow> nat \<Rightarrow> 'c \<Rightarrow> 'e + string \<times> 'c"
  assumes read_received: "usable c \<Longrightarrow> readable c \<Longrightarrow> bs \<noteq> [] \<Longrightarrow> length bs \<le> len \<Longrightarrow> read_some (Received bs) len c = Inr (bs, c)"
    and read_eof: "usable c \<Longrightarrow> readable c \<Longrightarrow> len \<noteq> 0 \<Longrightarrow>
      \<exists>c'. read_some (Received []) len c = Inr ([], c') \<and> \<not> readable c'"
    and read_fails: "usable c \<Longrightarrow> readable c \<Longrightarrow> len \<noteq> 0 \<Longrightarrow> \<exists>e. read_some (Recv_error err) len c = Inl e"
begin

lemma read_exact_over:
  assumes "usable c" "len \<le> length as" "length (recv_data as) \<le> len"
  shows "read_exact_loop read_some readable eof len mem c as \<noteq> Read_blocked mem' c'"
proof (cases "readable c")
  case True
  then show ?thesis using assms(2,3)
  proof (induction as arbitrary: len mem)
    case (Cons a as)
    show ?case
    proof (cases "len = 0")
      case False
      show ?thesis
      proof (cases a)
        case (Recv_error err)
        with read_fails [OF assms(1) True False, of err] False show ?thesis by auto
      next
        case (Received bs)
        show ?thesis
        proof (cases "bs = []")
          case True
          from read_eof [OF assms(1) \<open>readable c\<close> False] obtain d where
            "read_some (Received []) len c = Inr ([], d)" "\<not> readable d" by blast
          with Received True False show ?thesis by (cases as) auto
        next
          case bs: False
          with Cons.prems Received have "read_some a len c = Inr (bs, c)"
            using read_received [OF assms(1) True bs, of len] by simp
          moreover have "1 \<le> length bs" using bs by (simp add: Suc_leI)
          moreover have "read_exact_loop read_some readable eof (len - length bs) (store bs mem) c as \<noteq> Read_blocked mem' c'"
            using Cons.prems Received \<open>1 \<le> length bs\<close> by (intro Cons.IH) auto
          ultimately show ?thesis using Cons.prems False by simp
        qed
      qed
    qed simp
  qed simp
next
  case False
  then show ?thesis by (cases as) simp_all
qed

text \<open>A run that reads it all: every piece is stored over the one before it.\<close>

lemma read_exact_pieces:
  assumes "usable c" "readable c" "\<forall>d \<in> set ds. d \<noteq> []" "length (concat ds) = len"
  shows "read_exact_loop read_some readable eof len mem c (map Received ds @ rest) = Filled (fold store ds mem) c rest"
  using assms(3,4)
proof (induction ds arbitrary: len mem)
  case Nil
  then show ?case by (cases rest) simp_all
next
  case (Cons d ds)
  then have "read_some (Received d) len c = Inr (d, c)" by (intro read_received [OF assms(1,2)]) simp_all
  with Cons assms(2) show ?case by auto
qed

text \<open>The end of the stream before the last byte is an error.\<close>

lemma read_exact_eof:
  assumes "usable c" "readable c" "\<forall>d \<in> set ds. d \<noteq> []" "length (concat ds) < len"
  shows "\<exists>c'. read_exact_loop read_some readable eof len mem c (map Received ds @ Received [] # rest) =
    Read_threw eof (fold store ds mem) c'"
  using assms(3,4)
proof (induction ds arbitrary: len mem)
  case Nil
  then obtain c' where "read_some (Received []) len c = Inr ([], c')" "\<not> readable c'"
    using read_eof [OF assms(1,2), of len] by auto
  with Nil assms(2) show ?case by (cases rest) (auto simp: store_def)
next
  case (Cons d ds)
  then have "read_some (Received d) len c = Inr (d, c)" by (intro read_received [OF assms(1,2)]) simp_all
  with Cons assms(2) show ?case by auto
qed

end

text \<open>A class whose reads and writes need the same.\<close>

locale exact_io = exact_writer usable write_some + exact_reader usable readable read_some
  for usable :: "'c \<Rightarrow> bool"
    and readable :: "'c \<Rightarrow> bool"
    and write_some :: "'c \<Rightarrow> send_answer \<Rightarrow> string \<Rightarrow> 'e + nat"
    and read_some :: "recv_answer \<Rightarrow> nat \<Rightarrow> 'c \<Rightarrow> 'e + string \<times> 'c"
begin

text \<open>So both loops end.\<close>

lemma exact_calls_end:
  assumes "usable c" "length buf \<le> length as" "len \<le> length bs" "length (recv_data bs) \<le> len"
  shows "((\<exists>wire rest. write_exact_loop (write_some c) nothing buf (length buf) [] as = Written wire rest)
      \<or> (\<exists>e wire. write_exact_loop (write_some c) nothing buf (length buf) [] as = Write_threw e wire))
    \<and> ((\<exists>mem' c' rest. read_exact_loop read_some readable eof len mem c bs = Filled mem' c' rest)
      \<or> (\<exists>e mem' c'. read_exact_loop read_some readable eof len mem c bs = Read_threw e mem' c'))"
  using write_exact_over [OF assms(1,2) order_refl] read_exact_over [OF assms(1,3,4)]
  by (intro conjI) (metis write_run.exhaust, metis read_run.exhaust)

end

lemma store_whole: "length bytes = length mem \<Longrightarrow> store bytes mem = bytes"
  by (simp add: store_def)

text \<open>
  The memory as a C string. A text of different characters that was read in more than one piece is
  not there: the memory begins with the beginning of the last piece.
\<close>

definition c_string :: "string \<Rightarrow> string" where
  "c_string mem = takeWhile (\<lambda>c. c \<noteq> CHR 0x00) mem"

lemma c_string_terminated: "CHR 0x00 \<notin> set s \<Longrightarrow> c_string (s @ CHR 0x00 # t) = s" "CHR 0x00 \<notin> set s \<Longrightarrow> c_string s = s"
  by (auto simp: c_string_def takeWhile_tail takeWhile_eq_all_conv)

lemma fold_store_snoc: "fold store (ds @ [d]) mem = d @ drop (length d) (fold store ds mem)"
  by (simp add: store_def)

lemma pieces_overwrite:
  assumes "\<forall>d \<in> set ds. d \<noteq> []" "distinct (concat ds)" "1 < length ds"
  shows "hd (fold store ds mem) \<noteq> hd (concat ds)"
proof -
  from assms(3) obtain es d where ds: "ds = es @ [d]" "es \<noteq> []" by (cases ds rule: rev_cases) auto
  then have "concat es \<noteq> []" "d \<noteq> []" using assms(1) by (cases es; auto)+
  moreover have "set (concat es) \<inter> set d = {}" using assms(2) by (auto simp: ds)
  ultimately have "hd (concat es) \<noteq> hd d" by (metis disjoint_iff hd_in_set)
  then show ?thesis using \<open>concat es \<noteq> []\<close> \<open>d \<noteq> []\<close> by (simp add: ds fold_store_snoc store_def)
qed

text \<open>So it is there exactly when it came in one piece.\<close>

lemma pieces_intact:
  assumes "\<forall>d \<in> set ds. d \<noteq> []" "concat ds = s @ z" "distinct (s @ z)" "s \<noteq> []" "CHR 0x00 \<notin> set s"
    and "length z \<le> 1" "set z \<subseteq> {CHR 0x00}" "c_string (drop (length (s @ z)) mem) = [] \<or> z \<noteq> []"
  shows "c_string (fold store ds mem) = s \<longleftrightarrow> length ds = 1"
proof
  assume eq: "c_string (fold store ds mem) = s"
  have "hd (fold store ds mem) = hd s"
    using eq assms(4) by (cases "fold store ds mem") (auto simp: c_string_def split: if_splits)
  moreover have "hd (concat ds) = hd s" using assms(2,4) by simp
  moreover have "ds \<noteq> []" using assms(2,4) by auto
  ultimately show "length ds = 1"
    using pieces_overwrite [OF assms(1), of mem] assms(2,3) by (cases ds; cases "tl ds") auto
next
  assume "length ds = 1"
  then have "fold store ds mem = s @ z @ drop (length (s @ z)) mem" using assms(2) by (cases ds) (auto simp: store_def)
  moreover have "c_string (s @ z @ drop (length (s @ z)) mem) = s"
    using assms(5-8) by (cases z) (auto simp: c_string_def takeWhile_append)
  ultimately show "c_string (fold store ds mem) = s" by simp
qed

end
