(* ===== verification/LinuxProc.thy ===== *)
theory LinuxProc imports UnixPrim ExactIO begin

text \<open>
  \<open>lib/linuxproc\<close>: \<open>Process\<close>, a child process with pipes to its standard input and from its
  standard output. Operations take the answers of the system calls and return, beside their result,
  the calls they make; \<open>execv\<close> either does not return or fails.
\<close>

section \<open>State and errors\<close>

datatype proc_error =
    WriteToClosedEndpointError string
  | WriteError string
  | ReadError string
  | EofError string
  | ForkError string
  | ExecError string
  | DupError string
  | CloseError string
  | PipeError unix_error

record process =
  pr_pid :: int
  pr_readable :: bool
  pr_to :: descriptor
  pr_from :: descriptor

definition Process_empty :: process where
  "Process_empty = \<lparr>pr_pid = -1, pr_readable = True, pr_to = Descriptor, pr_from = Descriptor\<rparr>"

section \<open>Reading and writing\<close>

definition process_write :: "process \<Rightarrow> send_answer \<Rightarrow> string \<Rightarrow> proc_error + nat" where
  "process_write p answer buf =
     (if \<not> is_valid (pr_to p) then Inl (WriteToClosedEndpointError ''pipe write endpoint already closed'')
      else case answer of
        Taken n \<Rightarrow> Inr (taken (length buf) n)
      | Send_error err \<Rightarrow> Inl (WriteError ''write error occurs while writing to process pipe''))"

definition process_write_exact :: "process \<Rightarrow> string \<Rightarrow> send_answer list \<Rightarrow> proc_error write_run" where
  "process_write_exact p buf as =
     write_exact_loop (process_write p) (WriteError ''nothing was written to process pipe'') buf (length buf) [] as"

definition process_read :: "recv_answer \<Rightarrow> nat \<Rightarrow> process \<Rightarrow> proc_error + string \<times> process" where
  "process_read answer len p =
     (if pr_readable p \<and> len \<noteq> 0 then
        (case answer of
           Received bs \<Rightarrow> Inr (bs, if bs = [] then p\<lparr>pr_readable := False\<rparr> else p)
         | Recv_error err \<Rightarrow> Inl (ReadError ''read error occurs while reading from process pipe''))
      else Inr ([], p))"

definition process_read_exact :: "nat \<Rightarrow> string \<Rightarrow> process \<Rightarrow> recv_answer list \<Rightarrow> (proc_error, process) read_run" where
  "process_read_exact len mem p as =
     read_exact_loop process_read pr_readable (EofError ''EOF reached'') len mem p as"

definition close_stdin :: "int \<Rightarrow> process \<Rightarrow> proc_error option \<times> process \<times> sys_call list" where
  "close_stdin answer p =
     (if is_valid (pr_to p) then
        let (status, d, calls) = descriptor_close answer (pr_to p) in
        (if status \<noteq> 0 then Some (CloseError ''close error occurs while closing write pipe for process'') else None,
         p\<lparr>pr_to := d\<rparr>, calls)
      else (None, p, []))"

section \<open>Life and death\<close>

text \<open>The members that \<open>swap\<close> exchanges; \<open>is_readable_\<close> is not among them.\<close>

definition process_swap :: "process \<Rightarrow> process \<Rightarrow> process \<times> process" where
  "process_swap a b =
     (a\<lparr>pr_pid := pr_pid b, pr_to := pr_to b, pr_from := pr_from b\<rparr>,
      b\<lparr>pr_pid := pr_pid a, pr_to := pr_to a, pr_from := pr_from a\<rparr>)"

text \<open>The destructor, with the destructors of its members in the reverse order of their declaration.\<close>

definition process_destroy :: "process \<Rightarrow> sys_call list" where
  "process_destroy p =
     (if pr_pid p \<noteq> -1 then [Kill (pr_pid p) SIGTERM, Waitpid (pr_pid p)] else [])
     @ descriptor_destroy (pr_from p) @ descriptor_destroy (pr_to p)"

definition process_move :: "process \<Rightarrow> process \<times> process" where
  "process_move other = process_swap Process_empty other"

definition process_move_assign :: "process \<Rightarrow> process \<Rightarrow> process \<times> process \<times> sys_call list" where
  "process_move_assign this other =
     (let (tmp, this) = process_swap Process_empty this;
          calls = process_destroy tmp;
          (this, other) = process_swap this other
      in (this, other, calls))"

text \<open>
  In the child: the answers are those of \<open>dup\<close> and of the two \<open>dup2\<close>. The duplicate of the standard
  input is closed on every way out.
\<close>

definition prepare_to_exec :: "int \<Rightarrow> int \<Rightarrow> int \<Rightarrow> int \<Rightarrow> pipe \<Rightarrow> pipe \<Rightarrow> proc_error option \<times> sys_call list" where
  "prepare_to_exec dup_answer dup2_in dup2_out dup2_back to_child from_child =
     (let stdin_dup = fst (Descriptor_int dup_answer) in
      if d_fd stdin_dup = -1 then (Some (DupError ''cannot dup STDIN_FILENO''), [Dup 0])
      else
        let (status, calls) = descriptor_dup2 dup2_in 0 (p_read_end to_child) in
        if status = -1
        then (Some (DupError (''cannot dup2 descriptor '' @ to_dec (nat (d_fd (p_read_end to_child))) @ ''STDIN_FILENO'')),
              Dup 0 # calls @ descriptor_destroy stdin_dup)
        else
          let (status, calls') = descriptor_dup2 dup2_out 1 (p_write_end from_child) in
          if status = -1
          then (Some (DupError (''cannot dup2 descriptor '' @ to_dec (nat (d_fd (p_write_end from_child))) @ ''STDOUT_FILENO'')),
                Dup 0 # calls @ calls' @ snd (descriptor_dup2 dup2_back 0 stdin_dup) @ descriptor_destroy stdin_dup)
          else (None, Dup 0 # calls @ calls' @ descriptor_destroy stdin_dup))"

datatype child_end = Executed | Child_threw proc_error

datatype create_result =
    Parent process "sys_call list"
  | Create_threw proc_error "sys_call list"
  | Child child_end "sys_call list"

definition pipe_destroy :: "pipe \<Rightarrow> sys_call list" where
  "pipe_destroy p = descriptor_destroy (p_write_end p) @ descriptor_destroy (p_read_end p)"

text \<open>
  \<open>create_proc\<close>: what \<open>pipe\<close> stores, twice, what \<open>fork\<close> returns, and for the child the answers above and
  whether \<open>execv\<close> fails. After \<open>execv\<close> succeeds no destructor runs.
\<close>

definition create_proc ::
  "(int \<times> int) option \<Rightarrow> (int \<times> int) option \<Rightarrow> int \<Rightarrow> int \<times> int \<times> int \<times> int \<Rightarrow> bool \<Rightarrow> string \<Rightarrow> create_result" where
  "create_proc pipe1 pipe2 fork_answer child_answers exec_fails path =
     (case Pipe pipe1 of
        Inl e \<Rightarrow> Create_threw (PipeError e) []
      | Inr to_child \<Rightarrow>
          (case Pipe pipe2 of
             Inl e \<Rightarrow> Create_threw (PipeError e) (pipe_destroy to_child)
           | Inr from_child \<Rightarrow>
               let cleanup = pipe_destroy from_child @ pipe_destroy to_child in
               if fork_answer = -1 then Create_threw (ForkError ''cannot fork to create new process'') cleanup
               else if fork_answer = 0 then
                 (let (dup_answer, dup2_in, dup2_out, dup2_back) = child_answers in
                  case prepare_to_exec dup_answer dup2_in dup2_out dup2_back to_child from_child of
                    (Some e, calls) \<Rightarrow> Child (Child_threw e) (calls @ cleanup)
                  | (None, calls) \<Rightarrow>
                      if exec_fails
                      then Child (Child_threw (ExecError (''exec new process fails with process path='' @ path))) (calls @ cleanup)
                      else Child Executed calls)
               else
                 (let (to, w, calls) = descriptor_move_assign Descriptor (p_write_end to_child);
                      (from, r, calls') = descriptor_move_assign Descriptor (p_read_end from_child)
                  in Parent \<lparr>pr_pid = fork_answer, pr_readable = True, pr_to = to, pr_from = from\<rparr>
                       (calls @ calls' @ pipe_destroy (from_child\<lparr>p_read_end := r\<rparr>)
                          @ pipe_destroy (to_child\<lparr>p_write_end := w\<rparr>)))))"

section \<open>The loops\<close>

lemma process_write_simps:
  "is_valid (pr_to p) \<Longrightarrow> process_write p (Taken k) buf = Inr (taken (length buf) k)"
  "is_valid (pr_to p) \<Longrightarrow> \<exists>e. process_write p (Send_error err) buf = Inl e"
  by (simp_all add: process_write_def)

lemma process_read_simps:
  "pr_readable p \<Longrightarrow> bs \<noteq> [] \<Longrightarrow> length bs \<le> len \<Longrightarrow> process_read (Received bs) len p = Inr (bs, p)"
  "pr_readable p \<Longrightarrow> len \<noteq> 0 \<Longrightarrow> process_read (Received []) len p = Inr ([], p\<lparr>pr_readable := False\<rparr>)"
  "pr_readable p \<Longrightarrow> len \<noteq> 0 \<Longrightarrow> \<exists>e. process_read (Recv_error err) len p = Inl e"
  by (cases bs; simp add: process_read_def)+

text \<open>The two directions are separate: reading goes on after \<open>close_stdin\<close>.\<close>

interpretation process_out: exact_writer "\<lambda>p. is_valid (pr_to p)" process_write
  by unfold_locales (use process_write_simps(2) in \<open>auto simp: process_write_simps\<close>)

interpretation process_in: exact_reader "\<lambda>p. True" pr_readable process_read
  by unfold_locales (use process_read_simps(3) in \<open>auto simp: process_read_simps\<close>)

section \<open>Open files\<close>

text \<open>
  What the descriptors of one process stand for, and what a call that succeeds makes of them; \<open>dup\<close> gives
  the number \<open>dup_fd\<close>. A fork gives the child the same table, and \<open>execv\<close> keeps it, as no end of
  these pipes is marked to be closed.
\<close>

datatype open_file = To_child_read | To_child_write | From_child_read | From_child_write | Older nat

fun after_call :: "int \<Rightarrow> sys_call \<Rightarrow> (int \<Rightarrow> open_file option) \<Rightarrow> int \<Rightarrow> open_file option" where
  "after_call dup_fd (Close fd) t = t(fd := None)"
| "after_call dup_fd (Dup fd) t = t(dup_fd := t fd)"
| "after_call dup_fd (Dup2 fd new) t = t(new := t fd)"
| "after_call dup_fd (Kill pid sig) t = t"
| "after_call dup_fd (Waitpid pid) t = t"

definition after_calls :: "int \<Rightarrow> sys_call list \<Rightarrow> (int \<Rightarrow> open_file option) \<Rightarrow> int \<Rightarrow> open_file option" where
  "after_calls dup_fd calls t = fold (after_call dup_fd) calls t"

definition held_as :: "open_file \<Rightarrow> (int \<Rightarrow> open_file option) \<Rightarrow> int set" where
  "held_as f t = {fd. t fd = Some f}"

section \<open>Properties\<close>

text \<open>
  What \<open>write_exact\<close> sends when it returns: as many bytes as asked for, in pieces that each start
  at the beginning of the buffer again, so only a write that took all at once sent the buffer.
\<close>

theorem process_write_exact_sends:
  assumes "is_valid (pr_to p)" "process_write_exact p buf as = Written wire rest"
  shows "\<exists>ns. wire = concat (map (\<lambda>n. take n buf) ns) \<and> sum_list ns = length buf \<and> (\<forall>n \<in> set ns. 0 < n)
    \<and> (length ns \<le> 1 \<longrightarrow> wire = buf)"
proof -
  obtain ns where ns: "wire = concat (map (\<lambda>n. take n buf) ns)" "sum_list ns = length buf" "\<forall>n \<in> set ns. 0 < n"
    using process_out.write_exact_pieces [OF assms(1), of "length buf" buf _ "[]" as wire rest] assms(2)
    by (auto simp: process_write_exact_def)
  then show ?thesis by (intro exI [of _ ns]) (cases ns; auto)
qed

theorem process_write_exact_sends_witness:
  "\<exists>wire. process_write_exact \<lparr>pr_pid = 7, pr_readable = True, pr_to = \<lparr>d_fd = 4\<rparr>, pr_from = \<lparr>d_fd = 5\<rparr>\<rparr> ''12345678''
      [Taken 5, Taken 8] = Written wire [] \<and> length wire = 8 \<and> wire \<noteq> ''12345678''"
proof -
  let ?p = "\<lparr>pr_pid = 7, pr_readable = True, pr_to = \<lparr>d_fd = 4\<rparr>, pr_from = \<lparr>d_fd = 5\<rparr>\<rparr> :: process"
  have v: "is_valid (pr_to ?p)" by (simp add: is_valid_def)
  have r: "process_write_exact ?p ''12345678'' [Taken 5, Taken 8] = Written ''12345123'' []"
    by (simp add: process_write_exact_def process_write_def is_valid_def taken_def)
  from process_write_exact_sends [OF v r] r show ?thesis by simp
qed

text \<open>
  What \<open>read_exact\<close> leaves in the memory when it returns: the pieces it read, each stored over the
  one before it; and an end of the stream before the last byte is an \<open>EofError\<close>.
\<close>

theorem process_read_exact_reads:
  assumes "pr_readable p" "\<forall>d \<in> set ds. d \<noteq> []" "len = length mem"
  shows "(length (concat ds) = len \<longrightarrow> process_read_exact len mem p (map Received ds) = Filled (fold store ds mem) p []
      \<and> (length ds = 1 \<longrightarrow> fold store ds mem = concat ds))
    \<and> (length (concat ds) < len \<longrightarrow> (\<exists>p'. process_read_exact len mem p (map Received ds @ [Received []]) =
        Read_threw (EofError ''EOF reached'') (fold store ds mem) p'))"
proof (intro conjI impI)
  assume l: "length (concat ds) = len"
  from process_in.read_exact_pieces [OF TrueI assms(1,2) this, of _ mem "[]"]
  show "process_read_exact len mem p (map Received ds) = Filled (fold store ds mem) p []"
    by (simp add: process_read_exact_def)
  show "fold store ds mem = concat ds" if "length ds = 1"
    using that l assms(3) by (cases ds) (auto simp: store_whole)
next
  assume "length (concat ds) < len"
  from process_in.read_exact_eof [OF TrueI assms(1,2) this] show
    "\<exists>p'. process_read_exact len mem p (map Received ds @ [Received []]) =
        Read_threw (EofError ''EOF reached'') (fold store ds mem) p'"
    by (simp add: process_read_exact_def)
qed

theorem process_read_exact_reads_witness:
  "process_read_exact 4 ''....'' \<lparr>pr_pid = 7, pr_readable = True, pr_to = \<lparr>d_fd = 4\<rparr>, pr_from = \<lparr>d_fd = 5\<rparr>\<rparr>
     [Received ''abc'', Received ''d''] = Filled ''dbc.'' \<lparr>pr_pid = 7, pr_readable = True, pr_to = \<lparr>d_fd = 4\<rparr>, pr_from = \<lparr>d_fd = 5\<rparr>\<rparr> []"
  using process_read_exact_reads [of "\<lparr>pr_pid = 7, pr_readable = True, pr_to = \<lparr>d_fd = 4\<rparr>, pr_from = \<lparr>d_fd = 5\<rparr>\<rparr>"
      "[''abc'', ''d'']" 4 "''....''"]
  by (simp add: is_valid_def store_def)

text \<open>
  C38: The descriptors of a created process. On two new pipes, whose numbers were free, with open standard
  streams, and when \<open>fork\<close>, the duplications and the execution succeed, the parent ends with the descriptors it had before and its two ends, and closing its standard
  input for the child leaves it with no write end of that pipe. The child that executes the program has the
  pipes at its standard streams, and besides all the ends it inherited: it holds the write end of its
  own standard input, so the \<open>close_stdin\<close> of the parent alone does not end that input.
\<close>

theorem created_process_descriptors:
  assumes "r1 \<ge> 0" "w1 \<ge> 0" "r2 \<ge> 0" "w2 \<ge> 0" "distinct [r1, w1, r2, w2]" "pid > 0" "dup_fd \<ge> 0"
    and "\<forall>fd \<in> {r1, w1, r2, w2}. t fd = None" "t 0 \<noteq> None" "t 1 \<noteq> None" "\<forall>fd. t fd \<in> {None} \<union> range (Some \<circ> Older)"
    and "with_pipes = t(r1 \<mapsto> To_child_read, w1 \<mapsto> To_child_write, r2 \<mapsto> From_child_read, w2 \<mapsto> From_child_write)"
    and "with_pipes dup_fd = None"
  shows "(\<exists>p calls. create_proc (Some (r1, w1)) (Some (r2, w2)) pid ans exec_fails path = Parent p calls \<and> pr_pid p = pid
      \<and> after_calls dup_fd calls with_pipes = t(d_fd (pr_to p) \<mapsto> To_child_write, d_fd (pr_from p) \<mapsto> From_child_read)
      \<and> held_as To_child_write (after_calls dup_fd (calls @ snd (snd (close_stdin 0 p))) with_pipes) = {})
    \<and> (\<exists>calls. create_proc (Some (r1, w1)) (Some (r2, w2)) 0 (dup_fd, 0, 1, back) False path = Child Executed calls
      \<and> after_calls dup_fd calls with_pipes = with_pipes(0 \<mapsto> To_child_read, 1 \<mapsto> From_child_write)
      \<and> held_as To_child_write (after_calls dup_fd calls with_pipes) = {w1})"
proof -
  let ?p = "\<lparr>pr_pid = pid, pr_readable = True, pr_to = \<lparr>d_fd = w1\<rparr>, pr_from = \<lparr>d_fd = r2\<rparr>\<rparr>"
  have std: "{0, 1} \<inter> {r1, w1, r2, w2, dup_fd} = {}" "dup_fd \<notin> {r1, w1, r2, w2}"
    using assms(8-10,12,13) by (auto split: if_splits)
  have old: "t fd \<noteq> Some To_child_write" for fd
  proof -
    have "t fd \<in> {None} \<union> range (Some \<circ> Older)" using assms(11) by blast
    then show ?thesis by auto
  qed
  have create: "create_proc (Some (r1, w1)) (Some (r2, w2)) pid ans exec_fails path = Parent ?p [Close w2, Close r1]"
    "create_proc (Some (r1, w1)) (Some (r2, w2)) 0 (dup_fd, 0, 1, back) False path = Child Executed [Dup 0, Dup2 r1 0, Dup2 w2 1, Close dup_fd]"
    using assms(1-7) by (simp_all add: create_proc_def Pipe_def fd_simps pipe_destroy_def prepare_to_exec_def descriptor_dup2_def Let_def)
  have parent: "after_calls dup_fd [Close w2, Close r1] with_pipes = t(w1 \<mapsto> To_child_write, r2 \<mapsto> From_child_read)"
    using assms(5,8,12) by (auto simp: after_calls_def fun_eq_iff)
  have "snd (snd (close_stdin 0 ?p)) = [Close w1]" using assms(2) by (simp add: close_stdin_def fd_simps)
  then have "after_calls dup_fd ([Close w2, Close r1] @ snd (snd (close_stdin 0 ?p))) with_pipes = t(r2 \<mapsto> From_child_read)"
    using assms(5,8,12) by (auto simp: after_calls_def fun_eq_iff)
  then have closed: "held_as To_child_write (after_calls dup_fd ([Close w2, Close r1] @ snd (snd (close_stdin 0 ?p))) with_pipes) = {}"
    using old by (auto simp: held_as_def)
  have child: "after_calls dup_fd [Dup 0, Dup2 r1 0, Dup2 w2 1, Close dup_fd] with_pipes = with_pipes(0 \<mapsto> To_child_read, 1 \<mapsto> From_child_write)"
    using assms(5,12,13) std by (auto simp: after_calls_def fun_eq_iff)
  have "held_as To_child_write (with_pipes(0 \<mapsto> To_child_read, 1 \<mapsto> From_child_write)) = {w1}"
    using old assms(5,12) std by (auto simp: held_as_def)
  then show ?thesis using create parent closed child by simp
qed

theorem created_process_descriptors_witness:
  "\<exists>calls. create_proc (Some (3, 4)) (Some (5, 6)) 0 (7, 0, 1, 0) False ''/bin/cat'' = Child Executed calls
     \<and> held_as To_child_write (after_calls 7 calls ([0 \<mapsto> Older 0, 1 \<mapsto> Older 1, 2 \<mapsto> Older 2, 3 \<mapsto> To_child_read, 4 \<mapsto> To_child_write,
         5 \<mapsto> From_child_read, 6 \<mapsto> From_child_write])) = {4}"
proof -
  let ?t = "[0 \<mapsto> Older 0, 1 \<mapsto> Older 1, 2 \<mapsto> Older 2] :: int \<Rightarrow> open_file option"
  have "\<forall>fd. ?t fd \<in> {None} \<union> range (Some \<circ> Older)" by auto
  note r = created_process_descriptors [OF _ _ _ _ _ _ _ _ _ _ this refl, of 3 4 5 6 1 7 "(0, 0, 0, 0)" False "''/bin/cat''" 0]
  have "\<exists>p calls. create_proc (Some (3, 4)) (Some (5, 6)) 1 (0, 0, 0, 0) False ''/bin/cat'' = Parent p calls" "distinct [3 :: int, 4, 5, 6]"
    "\<forall>fd \<in> {3, 4, 5, 6}. ?t fd = None" "?t 0 \<noteq> None" "?t 1 \<noteq> None"
    "(?t(3 \<mapsto> To_child_read, 4 \<mapsto> To_child_write, 5 \<mapsto> From_child_read, 6 \<mapsto> From_child_write)) 7 = None"
    by (simp_all add: create_proc_def Pipe_def fd_simps)
  with r show ?thesis by fastforce
qed

text \<open>
  \<open>swap\<close> leaves out \<open>is_readable_\<close>: a process moved into an object whose own process had come to
  its end is never readable, whatever it writes.
\<close>

theorem process_move_assign_readable:
  assumes "process_move_assign this other = (this', other', calls)"
  shows "pr_readable this' = pr_readable this \<and> pr_pid this' = pr_pid other
    \<and> (\<not> pr_readable this \<longrightarrow> len \<noteq> 0 \<longrightarrow> process_read answer len this' = Inr ([], this')
        \<and> process_read_exact len mem this' as = Read_threw (EofError ''EOF reached'') mem this')"
  using assms
  by (cases as) (auto simp: process_move_assign_def process_swap_def Process_empty_def process_read_def process_read_exact_def)

definition ended_process :: process where
  "ended_process = \<lparr>pr_pid = 7, pr_readable = False, pr_to = \<lparr>d_fd = 4\<rparr>, pr_from = \<lparr>d_fd = 5\<rparr>\<rparr>"

definition live_process :: process where
  "live_process = \<lparr>pr_pid = 8, pr_readable = True, pr_to = \<lparr>d_fd = 6\<rparr>, pr_from = \<lparr>d_fd = 9\<rparr>\<rparr>"

theorem process_move_assign_readable_witness:
  "\<exists>p. fst (process_move_assign ended_process live_process) = p \<and> pr_pid p = 8 \<and> process_read (Received ''data'') 4 p = Inr ([], p)"
proof -
  obtain p other calls where m: "process_move_assign ended_process live_process = (p, other, calls)"
    by (cases "process_move_assign ended_process live_process")
  from process_move_assign_readable [OF m, of 4 "Received ''data''"] m show ?thesis
    by (simp add: ended_process_def live_process_def)
qed

end
