(* ===== verification/TcpErrors.thy ===== *)
theory TcpErrors imports UnixPrim begin

text \<open>
  \<open>tcpcon/errors\<close>: the exception classes of the \<open>tcpcon\<close> library, their inheritance, and the answers of
  the socket calls that its constructors make. \<open>errno\<close> is captured when the exception is made.
\<close>

section \<open>Classes\<close>

datatype tcp_class =
    Std_runtime_error
  | RuntimeError
  | ServerError | BindError | ListenError | AcceptError | ServerCloseError
  | EventLoopError | BadHandlerError
  | EpollError | EpollCreateError | EpollWaitError
  | EpollCtlError | EpollAddError | EpollModError | EpollDelError
  | ConnectionError | IoServiceError | TimeoutSetError
  | ConnOpenError | ConnCloseError | InvalidAddressError
  | IoError | ClosedEndpointError | WriteError | ReadError | EofError

fun tcp_base :: "tcp_class \<Rightarrow> tcp_class option" where
  "tcp_base Std_runtime_error = None"
| "tcp_base RuntimeError = Some Std_runtime_error"
| "tcp_base ServerError = Some RuntimeError"
| "tcp_base BindError = Some ServerError"
| "tcp_base ListenError = Some ServerError"
| "tcp_base AcceptError = Some ServerError"
| "tcp_base ServerCloseError = Some ServerError"
| "tcp_base EventLoopError = Some ServerError"
| "tcp_base BadHandlerError = Some EventLoopError"
| "tcp_base EpollError = Some EventLoopError"
| "tcp_base EpollCreateError = Some EpollError"
| "tcp_base EpollWaitError = Some EpollError"
| "tcp_base EpollCtlError = Some EpollError"
| "tcp_base EpollAddError = Some EpollCtlError"
| "tcp_base EpollModError = Some EpollCtlError"
| "tcp_base EpollDelError = Some EpollCtlError"
| "tcp_base ConnectionError = Some RuntimeError"
| "tcp_base IoServiceError = Some ConnectionError"
| "tcp_base TimeoutSetError = Some IoServiceError"
| "tcp_base ConnOpenError = Some ConnectionError"
| "tcp_base ConnCloseError = Some ConnectionError"
| "tcp_base InvalidAddressError = Some ConnOpenError"
| "tcp_base IoError = Some RuntimeError"
| "tcp_base ClosedEndpointError = Some IoError"
| "tcp_base WriteError = Some IoError"
| "tcp_base ReadError = Some IoError"
| "tcp_base EofError = Some ReadError"

text \<open>A class and its bases, up to the root; the height of a class bounds the recursion.\<close>

fun tcp_height :: "tcp_class \<Rightarrow> nat" where
  "tcp_height Std_runtime_error = 0"
| "tcp_height RuntimeError = 1"
| "tcp_height c =
     (if c \<in> {ServerError, ConnectionError, IoError} then 2
      else if c \<in> {BadHandlerError, EpollError} then 4
      else if c \<in> {EpollCreateError, EpollWaitError, EpollCtlError} then 5
      else if c \<in> {EpollAddError, EpollModError, EpollDelError} then 6
      else if c \<in> {TimeoutSetError, InvalidAddressError, EofError} then 4 else 3)"

lemma tcp_height_base: "tcp_base c = Some b \<Longrightarrow> tcp_height b < tcp_height c"
  by (cases c) auto

function tcp_bases :: "tcp_class \<Rightarrow> tcp_class list" where
  "tcp_bases c = c # (case tcp_base c of None \<Rightarrow> [] | Some b \<Rightarrow> tcp_bases b)"
  by auto
termination by (relation "measure tcp_height") (auto simp: tcp_height_base)

declare tcp_bases.simps [simp del]

record tcp_exn =
  te_class :: tcp_class
  te_what :: string
  te_errno :: int

text \<open>Which handlers take an exception.\<close>

definition tcp_caught :: "tcp_class \<Rightarrow> tcp_exn \<Rightarrow> bool" where
  "tcp_caught c e \<longleftrightarrow> c \<in> set (tcp_bases (te_class e))"

definition throw_tcp :: "tcp_class \<Rightarrow> string \<Rightarrow> int \<Rightarrow> tcp_exn" where
  "throw_tcp c msg err = \<lparr>te_class = c, te_what = msg, te_errno = err\<rparr>"

definition errno_code :: "tcp_exn \<Rightarrow> int" where
  "errno_code e = te_errno e"

lemma tcp_bases_root: "last (tcp_bases c) = Std_runtime_error"
proof (induction c rule: tcp_bases.induct)
  case (1 c)
  show ?case
  proof (cases "tcp_base c")
    case None
    then show ?thesis by (cases c) (simp_all add: tcp_bases.simps)
  next
    case (Some b)
    from 1 [OF this] have "last (tcp_bases b) = Std_runtime_error" .
    moreover have "tcp_bases b \<noteq> []" by (simp add: tcp_bases.simps [of b])
    ultimately show ?thesis using Some by (simp add: tcp_bases.simps [of c])
  qed
qed

text \<open>Every exception of the library is a \<open>std::runtime_error\<close>, and the bases go up without a cycle.\<close>

lemma tcp_caught_root: "tcp_caught Std_runtime_error e"
  using last_in_set [of "tcp_bases (te_class e)"] tcp_bases_root [of "te_class e"]
  by (simp add: tcp_caught_def tcp_bases.simps [of "te_class e"])

lemma tcp_bases_heights: "b \<in> set (tl (tcp_bases c)) \<Longrightarrow> tcp_height b < tcp_height c"
proof (induction c rule: tcp_bases.induct)
  case (1 c)
  then obtain d where d: "tcp_base c = Some d" "b \<in> set (tcp_bases d)"
    by (cases "tcp_base c") (simp_all add: tcp_bases.simps [of c])
  have "b = d \<or> b \<in> set (tl (tcp_bases d))" using d(2) by (simp add: tcp_bases.simps [of d])
  with 1(1) [OF d(1)] tcp_height_base [OF d(1)] show ?case by auto
qed

section \<open>Socket calls\<close>

text \<open>A call fails with an \<open>errno\<close> or succeeds.\<close>

type_synonym 'a sys_answer = "int + 'a"

definition to_text :: "int \<Rightarrow> string" where
  "to_text n = (if n < 0 then ''-'' @ to_dec (nat (- n)) else to_dec (nat n))"

definition tcp_fd_text :: "descriptor \<Rightarrow> string" where
  "tcp_fd_text d = to_text (d_fd d)"

definition failed :: "'a sys_answer \<Rightarrow> bool" where
  "failed a = (case a of Inl err \<Rightarrow> True | Inr x \<Rightarrow> False)"

definition err_of :: "'a sys_answer \<Rightarrow> int" where
  "err_of a = (case a of Inl err \<Rightarrow> err | Inr _ \<Rightarrow> 0)"

lemma failed_simps [simp]: "failed (Inl err)" "\<not> failed (Inr x)" "err_of (Inl err) = err"
  by (simp_all add: failed_def err_of_def)

text \<open>The descriptor that a constructor makes of what \<open>socket\<close> or \<open>accept\<close> returned.\<close>

definition new_socket :: "int sys_answer \<Rightarrow> descriptor" where
  "new_socket a = (case a of Inl err \<Rightarrow> \<lparr>d_fd = -1\<rparr> | Inr fd \<Rightarrow> fst (Descriptor_int fd))"

end
