(* ===== verification/LibErrors.thy ===== *)
theory LibErrors imports ShmMap LinuxProc TcpErrors begin

text \<open>
  The exception classes of \<open>shmem\<close> and \<open>linuxproc\<close>, their inheritance, and which handlers take the errors
  that the operations of these libraries throw.
\<close>

section \<open>Inheritance\<close>

text \<open>Classes with one base each; a height that goes down from a class to its base bounds the way to the root.\<close>

fun up :: "('c \<Rightarrow> 'c option) \<Rightarrow> nat \<Rightarrow> 'c \<Rightarrow> 'c list" where
  "up base 0 c = [c]"
| "up base (Suc n) c = c # (case base c of None \<Rightarrow> [] | Some b \<Rightarrow> up base n b)"

locale class_tree =
  fixes base :: "'c \<Rightarrow> 'c option" and height :: "'c \<Rightarrow> nat"
  assumes base_lower: "base c = Some b \<Longrightarrow> height b < height c"
begin

lemma up_is_derived: "height c \<le> n \<Longrightarrow> b \<in> set (up base n c) \<longleftrightarrow> (\<lambda>c b. base c = Some b)\<^sup>*\<^sup>* c b"
proof (induction n arbitrary: c)
  case 0
  then have "base c = None" using base_lower [of c] by (cases "base c") auto
  then have "(\<lambda>c b. base c = Some b)\<^sup>*\<^sup>* c b \<longleftrightarrow> b = c" by (auto elim: converse_rtranclpE)
  then show ?case by simp
next
  case (Suc n)
  show ?case
  proof (cases "base c")
    case None
    then have "(\<lambda>c b. base c = Some b)\<^sup>*\<^sup>* c b \<longleftrightarrow> b = c" by (auto elim: converse_rtranclpE)
    with None show ?thesis by simp
  next
    case (Some d)
    then have "(\<lambda>c b. base c = Some b)\<^sup>*\<^sup>* c b \<longleftrightarrow> b = c \<or> (\<lambda>c b. base c = Some b)\<^sup>*\<^sup>* d b"
      by (auto elim: converse_rtranclpE intro: converse_rtranclp_into_rtranclp)
    with Suc.IH [of d] base_lower [OF Some] Suc.prems Some show ?thesis by simp
  qed
qed

text \<open>Of two handlers that take the same exception, one takes whatever the other takes.\<close>

lemma derived_linear:
  assumes "(\<lambda>c b. base c = Some b)\<^sup>*\<^sup>* c a" "(\<lambda>c b. base c = Some b)\<^sup>*\<^sup>* c b"
  shows "(\<lambda>c b. base c = Some b)\<^sup>*\<^sup>* a b \<or> (\<lambda>c b. base c = Some b)\<^sup>*\<^sup>* b a"
  using assms
proof (induction rule: converse_rtranclp_induct)
  case (step c d)
  show ?case
  proof (cases "b = c")
    case True
    with step.hyps have "(\<lambda>c b. base c = Some b)\<^sup>*\<^sup>* b a" by (simp add: converse_rtranclp_into_rtranclp)
    then show ?thesis by simp
  next
    case False
    with step.prems step.hyps(1) have "(\<lambda>c b. base c = Some b)\<^sup>*\<^sup>* d b" by (auto elim: converse_rtranclpE)
    then show ?thesis by (rule step.IH)
  qed
qed simp

end

section \<open>\<open>shmem\<close>\<close>

datatype shm_class =
    Sh_exception | Sh_runtime_error | Sh_logic_error | Sh_bad_alloc | Sh_out_of_range
  | Sh_RuntimeError | Sh_LogicError | Sh_AllocatorError | Sh_DeallocateError
  | Sh_SemaphoreError | Sh_MutexError
  | Sh_SemaphoreInitError | Sh_SemaphoreWaitError | Sh_SemaphoreTryWaitError | Sh_SemaphorePostError
  | Sh_MutexInitError | Sh_MutexLockError | Sh_MutexTryLockError | Sh_MutexUnlockError

fun shm_base :: "shm_class \<Rightarrow> shm_class option" where
  "shm_base Sh_exception = None"
| "shm_base Sh_runtime_error = Some Sh_exception"
| "shm_base Sh_logic_error = Some Sh_exception"
| "shm_base Sh_bad_alloc = Some Sh_exception"
| "shm_base Sh_out_of_range = Some Sh_logic_error"
| "shm_base Sh_RuntimeError = Some Sh_runtime_error"
| "shm_base Sh_LogicError = Some Sh_logic_error"
| "shm_base Sh_AllocatorError = Some Sh_LogicError"
| "shm_base Sh_DeallocateError = Some Sh_LogicError"
| "shm_base Sh_SemaphoreError = Some Sh_RuntimeError"
| "shm_base Sh_MutexError = Some Sh_RuntimeError"
| "shm_base Sh_SemaphoreInitError = Some Sh_SemaphoreError"
| "shm_base Sh_SemaphoreWaitError = Some Sh_SemaphoreError"
| "shm_base Sh_SemaphoreTryWaitError = Some Sh_SemaphoreError"
| "shm_base Sh_SemaphorePostError = Some Sh_SemaphoreError"
| "shm_base Sh_MutexInitError = Some Sh_MutexError"
| "shm_base Sh_MutexLockError = Some Sh_MutexError"
| "shm_base Sh_MutexTryLockError = Some Sh_MutexError"
| "shm_base Sh_MutexUnlockError = Some Sh_MutexError"

fun shm_height :: "shm_class \<Rightarrow> nat" where
  "shm_height Sh_exception = 0"
| "shm_height c = (if c \<in> {Sh_runtime_error, Sh_logic_error, Sh_bad_alloc} then 1
     else if c \<in> {Sh_RuntimeError, Sh_LogicError, Sh_out_of_range} then 2
     else if c \<in> {Sh_SemaphoreError, Sh_MutexError, Sh_AllocatorError, Sh_DeallocateError} then 3 else 4)"

interpretation shm: class_tree shm_base shm_height
  by unfold_locales (case_tac c; auto)

text \<open>The class and the text of an error.\<close>

primrec sync_class :: "sync_error \<Rightarrow> shm_class \<times> string" where
  "sync_class (SemaphoreInitError what) = (Sh_SemaphoreInitError, what)"
| "sync_class (SemaphoreWaitError what) = (Sh_SemaphoreWaitError, what)"
| "sync_class (SemaphoreTryWaitError what) = (Sh_SemaphoreTryWaitError, what)"
| "sync_class (SemaphorePostError what) = (Sh_SemaphorePostError, what)"
| "sync_class (MutexInitError what) = (Sh_MutexInitError, what)"
| "sync_class (MutexLockError what) = (Sh_MutexLockError, what)"
| "sync_class (MutexTryLockError what) = (Sh_MutexTryLockError, what)"
| "sync_class (MutexUnlockError what) = (Sh_MutexUnlockError, what)"

primrec alloc_class :: "alloc_error \<Rightarrow> shm_class" where
  "alloc_class alloc_error.Bad_alloc = Sh_bad_alloc"
| "alloc_class (DeallocateError what) = Sh_DeallocateError"

primrec map_class :: "map_error \<Rightarrow> shm_class" where
  "map_class (Map_alloc e) = alloc_class e"
| "map_class Map_out_of_range = Sh_out_of_range"
| "map_class (Map_sync e) = fst (sync_class e)"

definition shm_caught :: "shm_class \<Rightarrow> shm_class \<Rightarrow> bool" where
  "shm_caught handler c \<longleftrightarrow> handler \<in> set (up shm_base 4 c)"

lemma shm_height_bound: "shm_height c \<le> 4"
  by (cases c) simp_all

lemma shm_caught_derived: "shm_caught handler c \<longleftrightarrow> (\<lambda>c b. shm_base c = Some b)\<^sup>*\<^sup>* c handler"
  unfolding shm_caught_def by (rule shm.up_is_derived [OF shm_height_bound])

lemma shm_caught_one: "shm_caught h c \<Longrightarrow> shm_caught h' c \<Longrightarrow> shm_caught h' h \<or> shm_caught h h'"
  unfolding shm_caught_derived by (rule shm.derived_linear)

section \<open>\<open>linuxproc\<close>\<close>

datatype proc_class =
    Pr_runtime_error | Pr_RuntimeError | Pr_DescriptorError | Pr_IoError | Pr_ForkError | Pr_WriteError
  | Pr_WriteToClosedEndpointError | Pr_ReadError | Pr_EofError | Pr_ExecError | Pr_DupError | Pr_CloseError

fun proc_base :: "proc_class \<Rightarrow> proc_class option" where
  "proc_base Pr_runtime_error = None"
| "proc_base Pr_RuntimeError = Some Pr_runtime_error"
| "proc_base Pr_DescriptorError = Some Pr_RuntimeError"
| "proc_base Pr_IoError = Some Pr_RuntimeError"
| "proc_base Pr_ForkError = Some Pr_RuntimeError"
| "proc_base Pr_WriteError = Some Pr_IoError"
| "proc_base Pr_WriteToClosedEndpointError = Some Pr_WriteError"
| "proc_base Pr_ReadError = Some Pr_IoError"
| "proc_base Pr_EofError = Some Pr_ReadError"
| "proc_base Pr_ExecError = Some Pr_RuntimeError"
| "proc_base Pr_DupError = Some Pr_DescriptorError"
| "proc_base Pr_CloseError = Some Pr_RuntimeError"

fun proc_height :: "proc_class \<Rightarrow> nat" where
  "proc_height Pr_runtime_error = 0"
| "proc_height Pr_RuntimeError = 1"
| "proc_height c = (if c \<in> {Pr_WriteError, Pr_ReadError, Pr_DupError} then 3
     else if c \<in> {Pr_WriteToClosedEndpointError, Pr_EofError} then 4 else 2)"

interpretation proc: class_tree proc_base proc_height
  by unfold_locales (case_tac c; auto)

primrec proc_class_of :: "proc_error \<Rightarrow> proc_class" where
  "proc_class_of (proc_error.WriteToClosedEndpointError what) = Pr_WriteToClosedEndpointError"
| "proc_class_of (proc_error.WriteError what) = Pr_WriteError"
| "proc_class_of (proc_error.ReadError what) = Pr_ReadError"
| "proc_class_of (proc_error.EofError what) = Pr_EofError"
| "proc_class_of (proc_error.ForkError what) = Pr_ForkError"
| "proc_class_of (proc_error.ExecError what) = Pr_ExecError"
| "proc_class_of (proc_error.DupError what) = Pr_DupError"
| "proc_class_of (proc_error.CloseError what) = Pr_CloseError"
| "proc_class_of (PipeError e) = Pr_runtime_error"

definition proc_caught :: "proc_class \<Rightarrow> proc_class \<Rightarrow> bool" where
  "proc_caught handler c \<longleftrightarrow> handler \<in> set (up proc_base 4 c)"

lemma proc_height_bound: "proc_height c \<le> 4"
  by (cases c) simp_all

lemma proc_caught_derived: "proc_caught handler c \<longleftrightarrow> (\<lambda>c b. proc_base c = Some b)\<^sup>*\<^sup>* c handler"
  unfolding proc_caught_def by (rule proc.up_is_derived [OF proc_height_bound])

section \<open>\<open>tcpcon\<close>\<close>

text \<open>The bases of a class of \<open>tcpcon\<close> are those it is derived from.\<close>

interpretation tcp: class_tree tcp_base tcp_height
  by unfold_locales (rule tcp_height_base)

lemma tcp_bases_up: "tcp_height c \<le> n \<Longrightarrow> tcp_bases c = up tcp_base n c"
proof (induction c arbitrary: n rule: tcp_bases.induct)
  case (1 c)
  show ?case
  proof (cases "tcp_base c")
    case None
    then show ?thesis by (cases n) (simp_all add: tcp_bases.simps [of c])
  next
    case (Some b)
    then obtain k where k: "n = Suc k" "tcp_height b \<le> k" using 1(2) tcp_height_base [OF Some] by (cases n) auto
    from 1(1) [OF Some k(2)] Some k(1) show ?thesis by (simp add: tcp_bases.simps [of c])
  qed
qed

lemma tcp_caught_derived: "tcp_caught handler e \<longleftrightarrow> (\<lambda>c b. tcp_base c = Some b)\<^sup>*\<^sup>* (te_class e) handler"
  unfolding tcp_caught_def tcp_bases_up [OF order_refl] by (rule tcp.up_is_derived [OF order_refl])

section \<open>What the operations throw\<close>

lemma semaphore_throws:
  "semaphore_wait err s = Sync_threw e s' \<Longrightarrow> shm_caught Sh_SemaphoreError (fst (sync_class e))"
  "semaphore_try_wait err s = Sync_threw e s' \<Longrightarrow> shm_caught Sh_SemaphoreError (fst (sync_class e))"
  "semaphore_post s = Sync_threw e s' \<Longrightarrow> shm_caught Sh_SemaphoreError (fst (sync_class e))"
  "Semaphore v = Inl e \<Longrightarrow> shm_caught Sh_SemaphoreError (fst (sync_class e))"
  by (auto simp: semaphore_wait_def semaphore_try_wait_def semaphore_post_def Semaphore_def shm_caught_def eval_nat_numeral
      split: sem_result.splits if_splits)

lemma mutex_throws:
  "mutex_lock err s = Sync_threw e s' \<Longrightarrow> shm_caught Sh_MutexError (fst (sync_class e))"
  "mutex_try_lock err s = Sync_threw e s' \<Longrightarrow> shm_caught Sh_MutexError (fst (sync_class e))"
  "mutex_unlock s = Sync_threw e s' \<Longrightarrow> shm_caught Sh_MutexError (fst (sync_class e))"
  "Mutex = Inl e \<Longrightarrow> shm_caught Sh_MutexError (fst (sync_class e))"
  by (auto simp: mutex_lock_def mutex_try_lock_def mutex_unlock_def Mutex_def shm_caught_def eval_nat_numeral
      split: sem_result.splits if_splits)

text \<open>
  The error of a deallocation is no \<open>AllocatorError\<close>: a handler for \<open>AllocatorError\<close> takes nothing that the
  allocator throws.
\<close>

lemma allocator_throws:
  "allocate s n la = Inl e \<Longrightarrow> \<not> shm_caught Sh_AllocatorError (alloc_class e) \<and> shm_caught Sh_exception (alloc_class e)"
  "deallocate s p n la = Inl e' \<Longrightarrow> \<not> shm_caught Sh_AllocatorError (alloc_class e') \<and> shm_caught Sh_LogicError (alloc_class e')"
  by (auto simp: allocate_def deallocate_def Let_def shm_caught_def eval_nat_numeral split: if_splits)

lemma process_io_throws:
  "process_write p a buf = Inl e \<Longrightarrow> proc_caught Pr_WriteError (proc_class_of e)"
  "process_read b len p = Inl e' \<Longrightarrow> proc_caught Pr_ReadError (proc_class_of e')"
  by (auto simp: process_write_def process_read_def proc_caught_def eval_nat_numeral split: send_answer.splits recv_answer.splits if_splits)

end
