(* ===== verification/ScopeGuard.thy ===== *)
theory ScopeGuard imports Prelude begin

text \<open>
  \<open>lib/raiiguards\<close>: a guard calls its handler when the scope that declares it is left, by a return or by
  an exception, and swallows what the handler throws.
\<close>

section \<open>The guard\<close>

text \<open>A handler changes the state of the program and returns or throws; a \<open>std::function\<close> can be empty.\<close>

type_synonym ('e, 's) guard_handler = "('s \<Rightarrow> 'e option \<times> 's) option"

record ('e, 's) scope_guard =
  scope_guard_handler :: "('e, 's) guard_handler"

definition ScopeGuard :: "('e, 's) guard_handler \<Rightarrow> ('e, 's) scope_guard" where
  "ScopeGuard handler = \<lparr>scope_guard_handler = handler\<rparr>"

definition scope_guard_destroy :: "('e, 's) scope_guard \<Rightarrow> 's \<Rightarrow> 's" where
  "scope_guard_destroy g s =
     (case scope_guard_handler g of
        None \<Rightarrow> s
      | Some handler \<Rightarrow> (case handler s of (None, s) \<Rightarrow> s | (Some e, s) \<Rightarrow> s))"

text \<open>The errors of the library: their text and the \<open>errno\<close> at their construction.\<close>

record raii_error =
  raii_what :: string
  raii_errno :: int

definition raii_RuntimeError :: "string \<Rightarrow> int \<Rightarrow> raii_error" where
  "raii_RuntimeError what_arg errno = \<lparr>raii_what = what_arg, raii_errno = errno\<rparr>"

section \<open>Scopes\<close>

text \<open>A scope declares guards, the first first, and then runs its body, which returns or throws.\<close>

fun guarded_scope :: "('e, 's) guard_handler list \<Rightarrow> ('s \<Rightarrow> ('x + 'a) \<times> 's) \<Rightarrow> 's \<Rightarrow> ('x + 'a) \<times> 's" where
  "guarded_scope [] body s = body s"
| "guarded_scope (h # hs) body s =
     (let g = ScopeGuard h; (r, s) = guarded_scope hs body s in (r, scope_guard_destroy g s))"

text \<open>
  A scope ends as its body ends, whatever the handlers throw; each handler has run once, after the body, in
  the reverse of the order of the declarations.
\<close>

lemma guarded_scope_ends:
  "guarded_scope hs body s = (fst (body s), fold (scope_guard_destroy \<circ> ScopeGuard) (rev hs) (snd (body s)))"
  by (induction hs) (simp_all add: Let_def case_prod_unfold)

lemma guard_once:
  "scope_guard_destroy (ScopeGuard (Some (\<lambda>s. (e, f s)))) s = f s" "scope_guard_destroy (ScopeGuard None) s = s"
  by (simp_all add: scope_guard_destroy_def ScopeGuard_def split: option.splits)

lemma guarded_scope_example:
  "guarded_scope [Some (\<lambda>s. (None, s @ [1])), None, Some (\<lambda>s. (Some ''lost'', s @ [2]))] (\<lambda>s. (Inl ''thrown'', s @ [0])) [] =
     (Inl ''thrown'' :: string + unit, [0, 2, 1 :: nat])"
  by (simp add: guarded_scope_ends guard_once)

end
