(* ===== verification/Demo.thy ===== *)
theory Demo imports CppStd begin

text \<open>
  What \<open>src/main.cpp\<close> and the functions of \<open>src/utils.cpp\<close> have in common: a test function returns,
  throws an exception with a text, or is still waiting in a call when the answers given end.
\<close>

datatype 'a demo = Demo_value 'a | Demo_threw string | Demo_waits

definition demo_bind :: "'a demo \<Rightarrow> ('a \<Rightarrow> 'b demo) \<Rightarrow> 'b demo" where
  "demo_bind r f = (case r of Demo_value x \<Rightarrow> f x | Demo_threw what \<Rightarrow> Demo_threw what | Demo_waits \<Rightarrow> Demo_waits)"

lemma demo_bind_simps [simp]:
  "demo_bind (Demo_value x) f = f x" "demo_bind (Demo_threw what) f = Demo_threw what" "demo_bind Demo_waits f = Demo_waits"
  by (simp_all add: demo_bind_def)

lemma demo_bind_value: "demo_bind r f = Demo_value y \<longleftrightarrow> (\<exists>x. r = Demo_value x \<and> f x = Demo_value y)"
  by (cases r) simp_all

text \<open>A call whose exception leaves the test function, with what it puts into the text.\<close>

definition demo_of :: "('e \<Rightarrow> string) \<Rightarrow> 'e + 'a \<Rightarrow> 'a demo" where
  "demo_of what r = (case r of Inl e \<Rightarrow> Demo_threw (what e) | Inr x \<Rightarrow> Demo_value x)"

definition demo_done :: "('e \<Rightarrow> string) \<Rightarrow> 'e option \<Rightarrow> unit demo" where
  "demo_done what r = (case r of Some e \<Rightarrow> Demo_threw (what e) | None \<Rightarrow> Demo_value ())"

definition demo_require :: "bool \<Rightarrow> string \<Rightarrow> unit demo" where
  "demo_require b what = (if b then Demo_value () else Demo_threw what)"

lemma demo_calls_value [simp]:
  "demo_of what r = Demo_value x \<longleftrightarrow> r = Inr x" "demo_done what q = Demo_value u \<longleftrightarrow> q = None"
  "demo_require b msg = Demo_value u \<longleftrightarrow> b"
  by (cases r; auto simp: demo_of_def) (cases q; auto simp: demo_done_def demo_require_def)+

section \<open>The program\<close>

text \<open>The five tests one after the other; the status of the process and its last line of output.\<close>

fun run_tests :: "unit demo list \<Rightarrow> unit demo" where
  "run_tests [] = Demo_value ()"
| "run_tests (t # ts) = demo_bind t (\<lambda>_. run_tests ts)"

definition main_program :: "unit demo list \<Rightarrow> (int \<times> string) option" where
  "main_program tests =
     (case run_tests tests of
        Demo_value _ \<Rightarrow> Some (0, ''---------------------------'' @ [CHR 0x0A])
      | Demo_threw what \<Rightarrow> Some (1, what @ [CHR 0x0A])
      | Demo_waits \<Rightarrow> None)"

lemma run_tests_value: "run_tests ts = Demo_value () \<longleftrightarrow> (\<forall>t \<in> set ts. t = Demo_value ())"
  by (induction ts) (auto simp: demo_bind_value)

text \<open>The status is 0 exactly when every test returned; otherwise the first that did not return decides.\<close>

lemma main_program_status: "(\<exists>out. main_program ts = Some (0, out)) \<longleftrightarrow> (\<forall>t \<in> set ts. t = Demo_value ())"
  by (cases "run_tests ts") (auto simp: main_program_def run_tests_value [symmetric])

end
