(* ===== verification/DemoProcess.thy ===== *)
theory DemoProcess imports LinuxProc Demo begin

text \<open>
  \<open>hw1_test\<close> of \<open>src/utils.cpp\<close>: a child \<open>/bin/cat\<close> that is written to and read from, and a shell
  moved into the same object. The result is what was written to the pipes and what was printed.
\<close>

section \<open>The test\<close>

fun unix_what :: "unix_error \<Rightarrow> string" where
  "unix_what (PipeCreationError w) = w"
| "unix_what (unix_error.DupError w) = w"

fun proc_what :: "proc_error \<Rightarrow> string" where
  "proc_what (WriteToClosedEndpointError w) = w"
| "proc_what (WriteError w) = w"
| "proc_what (ReadError w) = w"
| "proc_what (EofError w) = w"
| "proc_what (ForkError w) = w"
| "proc_what (ExecError w) = w"
| "proc_what (proc_error.DupError w) = w"
| "proc_what (CloseError w) = w"
| "proc_what (PipeError e) = unix_what e"

fun demo_written :: "proc_error write_run \<Rightarrow> string demo" where
  "demo_written (Written wire as) = Demo_value wire"
| "demo_written (Write_threw e wire) = Demo_threw (proc_what e)"
| "demo_written (Write_blocked wire) = Demo_waits"

fun demo_filled :: "(proc_error, process) read_run \<Rightarrow> (string \<times> process) demo" where
  "demo_filled (Filled mem p as) = Demo_value (mem, p)"
| "demo_filled (Read_threw e mem p) = Demo_threw (proc_what e)"
| "demo_filled (Read_blocked mem p) = Demo_waits"

fun demo_created :: "create_result \<Rightarrow> process demo" where
  "demo_created (Parent p calls) = Demo_value p"
| "demo_created (Create_threw e calls) = Demo_threw (proc_what e)"
| "demo_created (Child r calls) = Demo_waits"

definition hw1_buffer :: string where
  "hw1_buffer = replicate 100 (CHR 0x00)"

definition bool_text :: "bool \<Rightarrow> string" where
  "bool_text b = (if b then ''true'' else ''false'')"

text \<open>
  The first half: the buffer is printed as a C string after each read. The answers are those of the
  first \<open>write\<close> and \<open>read\<close>, of the calls in \<open>write_exact\<close>, of \<open>close\<close>, and of those in \<open>read_exact\<close>.
\<close>

definition hw1_cat ::
  "process \<Rightarrow> send_answer \<Rightarrow> recv_answer \<Rightarrow> send_answer list \<Rightarrow> int \<Rightarrow> recv_answer list
    \<Rightarrow> (process \<times> string \<times> string list) demo" where
  "hw1_cat p sa ra sas close_answer ras =
     demo_bind (demo_of proc_what (process_write p sa ''lollol'')) (\<lambda>n.
     demo_bind (demo_of proc_what (process_read ra 6 p)) (\<lambda>(bs, p).
     let buf = store bs hw1_buffer; printed = c_string buf in
     demo_bind (demo_written (process_write_exact p ''12345678'' sas)) (\<lambda>wire.
     let (closed, p, _) = close_stdin close_answer p in
     demo_bind (demo_done proc_what closed) (\<lambda>_.
     demo_bind (demo_filled (process_read_exact 8 buf p ras)) (\<lambda>(buf, p).
     Demo_value (p, take n ''lollol'' @ wire, [printed, c_string buf, bool_text (pr_readable p)]))))))"

text \<open>
  The reading loop of the second half: pieces of 99 bytes as long as they come whole. A read that
  fails throws inside, so its result is never \<open>-1\<close>.
\<close>

definition hw1_piece :: nat where
  "hw1_piece = 99"

fun hw1_print_all :: "recv_answer list \<Rightarrow> process \<Rightarrow> string \<Rightarrow> string demo" where
  "hw1_print_all [] p out = (if pr_readable p then Demo_waits else Demo_value out)"
| "hw1_print_all (a # as) p out =
     demo_bind (demo_of proc_what (process_read a hw1_piece p)) (\<lambda>(bs, p).
       let out = out @ c_string (bs @ [CHR 0x00])
       in if length bs = hw1_piece then hw1_print_all as p out else Demo_value out)"

definition hw1_command :: string where
  "hw1_command = ''/bin/cat /proc/cpuinfo'' @ [CHR 0x0A]"

definition hw1_bash ::
  "process \<Rightarrow> process \<Rightarrow> send_answer list \<Rightarrow> int \<Rightarrow> int \<Rightarrow> recv_answer list \<Rightarrow> (string \<times> string) demo" where
  "hw1_bash this new sas close1 close2 ras =
     (let (p, _, _) = process_move_assign this new in
      demo_bind (demo_written (process_write_exact p hw1_command sas)) (\<lambda>wire.
      let (closed, p, _) = close_stdin close1 p in
      demo_bind (demo_done proc_what closed) (\<lambda>_.
      let (closed, p, _) = close_stdin close2 p in
      demo_bind (demo_done proc_what closed) (\<lambda>_.
      demo_bind (hw1_print_all ras p []) (\<lambda>out. Demo_value (wire, out))))))"

definition hw1_test ::
  "create_result \<Rightarrow> create_result \<Rightarrow> (process \<Rightarrow> (process \<times> string \<times> string list) demo)
    \<Rightarrow> (process \<Rightarrow> process \<Rightarrow> (string \<times> string) demo) \<Rightarrow> (string list) demo" where
  "hw1_test cat bash first second =
     demo_bind (demo_created cat) (\<lambda>p.
     demo_bind (first p) (\<lambda>(p, _, printed).
     demo_bind (demo_created bash) (\<lambda>q.
     demo_bind (second p q) (\<lambda>(_, out). Demo_value (printed @ [out])))))"

section \<open>Lemmas\<close>

lemma close_stdin_ok:
  "\<exists>q calls. close_stdin 0 p = (None, q, calls) \<and> pr_readable q = pr_readable p \<and> (is_valid (pr_to p) \<longrightarrow> \<not> is_valid (pr_to q))"
  by (auto simp: close_stdin_def descriptor_close_def is_valid_def)

lemma process_write_whole:
  "is_valid (pr_to p) \<Longrightarrow> length buf \<le> k \<Longrightarrow> buf \<noteq> [] \<Longrightarrow> process_write_exact p buf [Taken k] = Written buf []"
  by (simp add: process_write_exact_def process_write_def taken_def)

text \<open>Whole pieces are printed one after the other, and the first that is short is the last.\<close>

lemma hw1_print_pieces:
  assumes "pr_readable p" "\<forall>d \<in> set ds. length d = hw1_piece \<and> CHR 0x00 \<notin> set d" "length d < hw1_piece" "CHR 0x00 \<notin> set d"
  shows "hw1_print_all (map Received ds @ Received d # rest) p out = Demo_value (out @ concat ds @ d)"
  using assms(1,2)
proof (induction ds arbitrary: out)
  case Nil
  then show ?case using assms(3,4) by (simp add: process_read_def hw1_piece_def demo_of_def c_string_terminated)
next
  case (Cons e ds)
  then have "e \<noteq> []" by (auto simp: hw1_piece_def)
  with Cons show ?case by (simp add: process_read_def hw1_piece_def demo_of_def c_string_terminated)
qed

section \<open>Properties\<close>

text \<open>
  C40: What the test of \<open>Process\<close> prints of \<open>cat\<close>: the second text appears as it was written exactly when
  the pipe delivers it in one piece, because \<open>read_exact\<close> stores every piece at the same address.
\<close>

theorem hw1_cat_prints:
  assumes "is_valid (pr_to p)" "pr_readable p" "length ''lollol'' \<le> n" "length ''12345678'' \<le> k"
    and "\<forall>d \<in> set ds. d \<noteq> []" "concat ds = ''12345678''"
  shows "\<exists>q out. hw1_cat p (Taken n) (Received ''lollol'') [Taken k] 0 (map Received ds) =
      Demo_value (q, ''lollol'' @ ''12345678'', [''lollol'', out, ''true''])
    \<and> \<not> is_valid (pr_to q) \<and> (out = ''12345678'' \<longleftrightarrow> length ds = 1)"
proof -
  define buf where "buf = store ''lollol'' hw1_buffer"
  obtain q calls where q: "close_stdin 0 p = (None, q, calls)" "pr_readable q" "\<not> is_valid (pr_to q)"
    using close_stdin_ok [of p] assms(1,2) by blast
  have buf: "c_string buf = ''lollol''" "c_string (drop (length (''12345678'' @ [])) buf) = []"
    by (simp_all add: buf_def store_def hw1_buffer_def c_string_def)
  have rd: "process_read_exact 8 buf q (map Received ds) = Filled (fold store ds buf) q []"
    using process_in.read_exact_pieces [OF TrueI q(2) assms(5), of 8 _ buf "[]"] assms(6) by (simp add: process_read_exact_def)
  have "c_string (fold store ds buf) = ''12345678'' \<longleftrightarrow> length ds = 1"
    by (rule pieces_intact [where z = "[]"]) (use assms(5,6) buf(2) in simp_all)
  moreover have "hw1_cat p (Taken n) (Received ''lollol'') [Taken k] 0 (map Received ds) =
      Demo_value (q, ''lollol'' @ ''12345678'', [''lollol'', c_string (fold store ds buf), ''true''])"
    using process_write_whole [OF assms(1,4)] process_read_simps(1) [OF assms(2), of "''lollol''" 6] process_write_simps(1) [OF assms(1)] assms(3)
    by (simp add: hw1_cat_def demo_of_def taken_def buf_def [symmetric] buf(1) q rd demo_done_def bool_text_def)
  ultimately show ?thesis using q(3) by blast
qed

theorem hw1_cat_prints_witness:
  "\<exists>q out. hw1_cat live_process (Taken 6) (Received ''lollol'') [Taken 8] 0 [Received ''123456'', Received ''78''] =
      Demo_value (q, ''lollol12345678'', [''lollol'', out, ''true'']) \<and> out \<noteq> ''12345678''"
  using hw1_cat_prints [of live_process 6 8 "[''123456'', ''78'']"] by (auto simp: live_process_def is_valid_def)

text \<open>
  What it prints of the shell: the output up to and with the first piece shorter than 99 bytes, for
  a process that was moved into an object that could still be read; what comes after such a piece
  is not printed.
\<close>

theorem hw1_bash_prints:
  assumes "process_move_assign this new = (q, old, calls)" "is_valid (pr_to new)" "pr_readable this" "length hw1_command \<le> k"
    and "\<forall>d \<in> set ds. length d = hw1_piece \<and> CHR 0x00 \<notin> set d" "length d < hw1_piece" "CHR 0x00 \<notin> set d"
  shows "hw1_bash this new [Taken k] 0 0 (map Received ds @ Received d # rest) = Demo_value (hw1_command, concat ds @ d)"
proof -
  have q: "is_valid (pr_to q)" "pr_readable q"
    using assms(1-3) by (auto simp: process_move_assign_def process_swap_def Process_empty_def)
  obtain q1 c1 where q1: "close_stdin 0 q = (None, q1, c1)" "pr_readable q1" using close_stdin_ok [of q] q(2) by auto
  obtain q2 c2 where q2: "close_stdin 0 q1 = (None, q2, c2)" "pr_readable q2" using close_stdin_ok [of q1] q1(2) by auto
  have "hw1_command \<noteq> []" by (simp add: hw1_command_def)
  with process_write_whole [OF q(1) assms(4)] hw1_print_pieces [OF q2(2) assms(5-7), of rest "[]"] q1 q2 show ?thesis
    by (simp add: hw1_bash_def assms(1) demo_done_def)
qed

theorem hw1_bash_prints_witness:
  "hw1_bash live_process live_process [Taken 30] 0 0 [Received (replicate 99 CHR ''x''), Received ''end'', Received ''lost''] =
     Demo_value (hw1_command, replicate 99 CHR ''x'' @ ''end'')"
proof -
  obtain q old calls where m: "process_move_assign live_process live_process = (q, old, calls)"
    by (cases "process_move_assign live_process live_process")
  have "is_valid (pr_to live_process)" "pr_readable live_process" "length hw1_command \<le> 30"
    by (simp_all add: live_process_def is_valid_def hw1_command_def)
  from hw1_bash_prints [OF m this, of "[replicate 99 CHR ''x'']" "''end''" "[Received ''lost'']"]
  show ?thesis by (simp add: hw1_piece_def)
qed

end
