(* ===== verification/Logging.thy ===== *)
theory Logging imports Prelude begin

text \<open>
  \<open>lib/trivilog\<close>: loggers with a level, which write lines to a stream, piece by piece; the safe ones
  hold a mutex of their own meanwhile, and the global logger holds its mutex around every call. The
  threads of a program interleave between the pieces. The time text is chosen by the clock.
\<close>

section \<open>Levels\<close>

datatype log_level = FATAL | CRIT | ERROR | WARN | INFO | DEBUG | TRACE

primrec level_value :: "log_level \<Rightarrow> nat" where
  "level_value FATAL = 0"
| "level_value CRIT = 1"
| "level_value ERROR = 2"
| "level_value WARN = 3"
| "level_value INFO = 4"
| "level_value DEBUG = 5"
| "level_value TRACE = 6"

lemma level_value_inject: "level_value a = level_value b \<longleftrightarrow> a = b"
  by (cases a; cases b) simp_all

instantiation log_level :: linorder
begin

definition less_eq_log_level :: "log_level \<Rightarrow> log_level \<Rightarrow> bool" where
  "a \<le> b \<longleftrightarrow> level_value a \<le> level_value b"

definition less_log_level :: "log_level \<Rightarrow> log_level \<Rightarrow> bool" where
  "a < b \<longleftrightarrow> level_value a < level_value b"

instance
  by standard (auto simp: less_eq_log_level_def less_log_level_def level_value_inject)

end

primrec level_name :: "log_level \<Rightarrow> string" where
  "level_name TRACE = ''[TRACE]''"
| "level_name DEBUG = ''[DEBUG]''"
| "level_name INFO = ''[INFO ]''"
| "level_name WARN = ''[WARN ]''"
| "level_name ERROR = ''[ERROR]''"
| "level_name CRIT = ''[CRIT ]''"
| "level_name FATAL = ''[FATAL]''"

section \<open>Loggers\<close>

text \<open>The stream of \<open>get_ostream\<close>, and whether \<open>log_to_ostream\<close> is the overriding one with the mutex.\<close>

datatype sink = Stdout | Stderr | Clog | Ofstream string

record logger =
  lg_level :: log_level
  lg_sink :: sink
  lg_safe :: bool

definition BaseLogger :: "sink \<Rightarrow> bool \<Rightarrow> logger" where
  "BaseLogger k safe = \<lparr>lg_level = INFO, lg_sink = k, lg_safe = safe\<rparr>"

definition StdoutLogger :: logger where "StdoutLogger = BaseLogger Stdout False"
definition StderrLogger :: logger where "StderrLogger = BaseLogger Stderr False"
definition StderrBuffLogger :: logger where "StderrBuffLogger = BaseLogger Clog False"
definition FileLogger :: "string \<Rightarrow> logger" where "FileLogger name = BaseLogger (Ofstream name) False"
definition SafeStdoutLogger :: logger where "SafeStdoutLogger = BaseLogger Stdout True"
definition SafeStderrLogger :: logger where "SafeStderrLogger = BaseLogger Stderr True"
definition SafeStderrBuffLogger :: logger where "SafeStderrBuffLogger = BaseLogger Clog True"
definition SafeFileLogger :: "string \<Rightarrow> logger" where "SafeFileLogger name = BaseLogger (Ofstream name) True"

definition set_level :: "log_level \<Rightarrow> logger \<Rightarrow> logger" where
  "set_level level l = l\<lparr>lg_level := level\<rparr>"

text \<open>The inserters of \<open>log_to_ostream\<close>, the last the newline of \<open>endl\<close>.\<close>

definition log_to_ostream :: "string \<Rightarrow> string \<Rightarrow> string \<Rightarrow> string list" where
  "log_to_ostream now log_level_name msg =
     [''['', now, ''] '', log_level_name, '' '', msg, [CHR 0x0A]]"

definition log_msg :: "string \<Rightarrow> string \<Rightarrow> log_level \<Rightarrow> logger \<Rightarrow> string list option" where
  "log_msg now msg level l =
     (if lg_level l \<ge> level then Some (log_to_ostream now (level_name level) msg) else None)"

section \<open>Threads\<close>

text \<open>
  A thread is idle, holds the mutex of the global logger on its way to the logger that is global then,
  or writes the rest of a line through a logger, with or without that mutex. Mutexes say who holds
  them.
\<close>

datatype thread_at =
    Idle
  | In_global log_level string
  | Writing nat "string list" bool

record log_state =
  streams :: "sink \<Rightarrow> string"
  loggers :: "nat \<Rightarrow> logger option"
  direct :: "nat set"
  mutexes :: "nat \<Rightarrow> nat option"
  global_logger :: nat
  global_mutex :: "nat option"
  thread_states :: "nat \<Rightarrow> thread_at"

text \<open>
  \<open>direct\<close> are the loggers the program calls itself, the others it only calls as the global one. A
  step is labelled with the line whose writing it begins.
\<close>

definition begin_writing :: "nat \<Rightarrow> nat \<Rightarrow> logger \<Rightarrow> string list \<Rightarrow> bool \<Rightarrow> log_state \<Rightarrow> log_state" where
  "begin_writing t i l ps global s = s\<lparr>
     thread_states := (thread_states s)(t := Writing i ps global),
     mutexes := (if lg_safe l then (mutexes s)(i := Some t) else mutexes s)\<rparr>"

definition end_writing :: "nat \<Rightarrow> nat \<Rightarrow> logger \<Rightarrow> bool \<Rightarrow> log_state \<Rightarrow> log_state" where
  "end_writing t i l global s = s\<lparr>
     thread_states := (thread_states s)(t := Idle),
     mutexes := (if lg_safe l then (mutexes s)(i := None) else mutexes s),
     global_mutex := (if global then None else global_mutex s)\<rparr>"

definition write_piece :: "nat \<Rightarrow> nat \<Rightarrow> logger \<Rightarrow> string \<Rightarrow> string list \<Rightarrow> bool \<Rightarrow> log_state \<Rightarrow> log_state" where
  "write_piece t i l p ps g s = s\<lparr>streams := (streams s)(lg_sink l := streams s (lg_sink l) @ p),
      thread_states := (thread_states s)(t := Writing i ps g)\<rparr>"

inductive log_step :: "log_state \<Rightarrow> (sink \<times> string) option \<Rightarrow> log_state \<Rightarrow> bool" where
  Call: "thread_states s t = Idle \<Longrightarrow> i \<in> direct s \<Longrightarrow> loggers s i = Some l \<Longrightarrow>
    log_msg now msg level l = Some ps \<Longrightarrow> lg_safe l \<longrightarrow> mutexes s i = None \<Longrightarrow>
    log_step s (Some (lg_sink l, concat ps)) (begin_writing t i l ps False s)"
| Global_call: "thread_states s t = Idle \<Longrightarrow> global_mutex s = None \<Longrightarrow>
    log_step s None (s\<lparr>thread_states := (thread_states s)(t := In_global level msg), global_mutex := Some t\<rparr>)"
| Global_write: "thread_states s t = In_global level msg \<Longrightarrow> loggers s (global_logger s) = Some l \<Longrightarrow>
    log_msg now msg level l = Some ps \<Longrightarrow> lg_safe l \<longrightarrow> mutexes s (global_logger s) = None \<Longrightarrow>
    log_step s (Some (lg_sink l, concat ps)) (begin_writing t (global_logger s) l ps True s)"
| Global_filtered: "thread_states s t = In_global level msg \<Longrightarrow> loggers s (global_logger s) = Some l \<Longrightarrow>
    log_msg now msg level l = None \<Longrightarrow>
    log_step s None (s\<lparr>thread_states := (thread_states s)(t := Idle), global_mutex := None\<rparr>)"
| Piece: "thread_states s t = Writing i (p # ps) g \<Longrightarrow> loggers s i = Some l \<Longrightarrow>
    log_step s None (write_piece t i l p ps g s)"
| Return: "thread_states s t = Writing i [] g \<Longrightarrow> loggers s i = Some l \<Longrightarrow>
    log_step s None (end_writing t i l g s)"
| Set_global: "global_mutex s = None \<Longrightarrow> loggers s j \<noteq> None \<Longrightarrow> log_step s None (s\<lparr>global_logger := j\<rparr>)"
| Set_level: "loggers s i = Some l \<Longrightarrow>
    log_step s None (s\<lparr>loggers := (loggers s)(i \<mapsto> set_level level l)\<rparr>)"

text \<open>A program runs, and the lines it began to write, in order.\<close>

inductive log_run :: "log_state \<Rightarrow> (sink \<times> string) list \<Rightarrow> log_state \<Rightarrow> bool" where
  Start: "log_run s [] s"
| Step: "log_run s es s' \<Longrightarrow> log_step s' e s'' \<Longrightarrow> log_run s (es @ (case e of None \<Rightarrow> [] | Some e \<Rightarrow> [e])) s''"

definition log_start :: "(nat \<Rightarrow> logger option) \<Rightarrow> nat set \<Rightarrow> nat \<Rightarrow> log_state" where
  "log_start ls d g = \<lparr>streams = (\<lambda>_. []), loggers = ls, direct = d, mutexes = (\<lambda>_. None), global_logger = g,
     global_mutex = None, thread_states = (\<lambda>_. Idle)\<rparr>"

section \<open>Whole lines\<close>

text \<open>
  One logger on each stream, and a mutex on every way to it: it is safe, or only called as the global
  logger.
\<close>

definition guarded :: "log_state \<Rightarrow> bool" where
  "guarded s \<longleftrightarrow> (\<forall>i j l m. loggers s i = Some l \<longrightarrow> loggers s j = Some m \<longrightarrow> lg_sink l = lg_sink m \<longrightarrow> i = j)
     \<and> (\<forall>i \<in> direct s. \<forall>l. loggers s i = Some l \<longrightarrow> lg_safe l)"

text \<open>Who writes holds the mutexes on the way, and what a stream will hold when the writers are done.\<close>

definition writer :: "log_state \<Rightarrow> nat \<Rightarrow> nat \<Rightarrow> logger \<Rightarrow> string list \<Rightarrow> bool \<Rightarrow> bool" where
  "writer s t i l ps g \<longleftrightarrow> thread_states s t = Writing i ps g \<and> loggers s i = Some l"

definition locks_held :: "log_state \<Rightarrow> bool" where
  "locks_held s \<longleftrightarrow> (\<forall>t level msg. thread_states s t = In_global level msg \<longrightarrow> global_mutex s = Some t)
     \<and> (\<forall>t i ps g. thread_states s t = Writing i ps g \<longrightarrow> loggers s i \<noteq> None)
     \<and> (\<forall>t i l ps g. writer s t i l ps g \<longrightarrow>
          (if lg_safe l then mutexes s i = Some t else g) \<and> (g \<longrightarrow> global_mutex s = Some t))"

definition lines_end :: "(sink \<Rightarrow> string) \<Rightarrow> log_state \<Rightarrow> bool" where
  "lines_end lines s \<longleftrightarrow> (\<forall>t i l ps g. writer s t i l ps g \<longrightarrow> lines (lg_sink l) = streams s (lg_sink l) @ concat ps)
     \<and> (\<forall>k. (\<forall>t i l ps g. writer s t i l ps g \<longrightarrow> lg_sink l \<noteq> k) \<longrightarrow> lines k = streams s k)"

definition log_inv :: "(sink \<Rightarrow> string) \<Rightarrow> log_state \<Rightarrow> bool" where
  "log_inv lines s \<longleftrightarrow> guarded s \<and> locks_held s \<and> lines_end lines s"

fun add_line :: "(sink \<times> string) option \<Rightarrow> (sink \<Rightarrow> string) \<Rightarrow> sink \<Rightarrow> string" where
  "add_line None lines = lines"
| "add_line (Some (k, x)) lines = lines(k := lines k @ x)"

lemma locks_heldI:
  assumes "\<And>t level msg. thread_states s t = In_global level msg \<Longrightarrow> global_mutex s = Some t"
    and "\<And>t i ps g. thread_states s t = Writing i ps g \<Longrightarrow> \<exists>l. loggers s i = Some l"
    and "\<And>t i l ps g. writer s t i l ps g \<Longrightarrow> if lg_safe l then mutexes s i = Some t else g"
    and "\<And>t i l ps. writer s t i l ps True \<Longrightarrow> global_mutex s = Some t"
  shows "locks_held s"
  unfolding locks_held_def using assms by (metis (full_types) option.discI)

lemma locks_heldD:
  assumes "locks_held s"
  shows "thread_states s t = In_global level msg \<Longrightarrow> global_mutex s = Some t"
    and "thread_states s t = Writing i ps g \<Longrightarrow> \<exists>l. loggers s i = Some l"
    and "writer s t i l ps g \<Longrightarrow> if lg_safe l then mutexes s i = Some t else g"
    and "writer s t i l ps True \<Longrightarrow> global_mutex s = Some t"
  using assms unfolding locks_held_def by blast+

lemma lines_endI:
  assumes "\<And>t i l ps g. writer s t i l ps g \<Longrightarrow> lines (lg_sink l) = streams s (lg_sink l) @ concat ps"
    and "\<And>k. (\<And>t i l ps g. writer s t i l ps g \<Longrightarrow> lg_sink l \<noteq> k) \<Longrightarrow> lines k = streams s k"
  shows "lines_end lines s"
  using assms unfolding lines_end_def by blast

lemma lines_endD:
  assumes "lines_end lines s"
  shows "writer s t i l ps g \<Longrightarrow> lines (lg_sink l) = streams s (lg_sink l) @ concat ps"
    and "(\<And>t i l ps g. writer s t i l ps g \<Longrightarrow> lg_sink l \<noteq> k) \<Longrightarrow> lines k = streams s k"
  using assms unfolding lines_end_def by blast+

lemma guarded_same:
  "guarded s \<Longrightarrow> loggers s j = Some m \<Longrightarrow> loggers s i = Some l \<Longrightarrow> lg_sink m = lg_sink l \<Longrightarrow> j = i \<and> m = l"
  unfolding guarded_def by (metis option.inject)

lemma writer_other [simp]:
  "writer (s\<lparr>global_logger := j\<rparr>) = writer s" "writer (s\<lparr>global_mutex := gm\<rparr>) = writer s"
  by (simp_all add: writer_def fun_eq_iff)

lemma writer_unique:
  assumes "guarded s" "locks_held s" "writer s t i l ps g" "writer s t' j m qs h" "lg_sink m = lg_sink l"
  shows "t' = t \<and> j = i \<and> m = l \<and> qs = ps \<and> h = g"
proof -
  have ij: "j = i" "m = l" using guarded_same [OF assms(1) _ _ assms(5)] assms(3,4) by (auto simp: writer_def)
  have "(if lg_safe l then mutexes s i = Some t else g) \<and> (g \<longrightarrow> global_mutex s = Some t)"
    "(if lg_safe l then mutexes s i = Some t' else h) \<and> (h \<longrightarrow> global_mutex s = Some t')"
    using assms(2-4) ij unfolding locks_held_def by blast+
  then have "t' = t" by (auto split: if_splits)
  with assms(3,4) ij show ?thesis by (simp add: writer_def)
qed

text \<open>A logger whose way is free has no writer on its stream.\<close>

lemma no_writer:
  assumes "guarded s" "locks_held s" "loggers s i = Some l"
    and "if lg_safe l then mutexes s i = None else \<forall>t j m ps. \<not> writer s t j m ps True"
  shows "\<not> (writer s t j m qs h \<and> lg_sink m = lg_sink l)"
proof
  assume w: "writer s t j m qs h \<and> lg_sink m = lg_sink l"
  then have "j = i" "m = l" using guarded_same [OF assms(1) _ assms(3), of j m] by (auto simp: writer_def)
  moreover from w assms(2) have "(if lg_safe m then mutexes s j = Some t else h)" unfolding locks_held_def by blast
  ultimately show False using assms(4) w by (cases h) (auto split: if_splits)
qed

lemma begin_writing_simps [simp]:
  "streams (begin_writing t i l ps g s) = streams s" "loggers (begin_writing t i l ps g s) = loggers s"
  "direct (begin_writing t i l ps g s) = direct s" "global_mutex (begin_writing t i l ps g s) = global_mutex s"
  "thread_states (begin_writing t i l ps g s) = (thread_states s)(t := Writing i ps g)"
  "mutexes (begin_writing t i l ps g s) = (if lg_safe l then (mutexes s)(i := Some t) else mutexes s)"
  by (simp_all add: begin_writing_def)

lemma writer_begin:
  assumes "\<forall>i ps g. thread_states s t \<noteq> Writing i ps g" "loggers s i = Some l"
  shows "writer (begin_writing t i l ps g s) t' j m qs h \<longleftrightarrow>
    (t' = t \<and> j = i \<and> m = l \<and> qs = ps \<and> h = g) \<or> writer s t' j m qs h"
  using assms by (auto simp: writer_def)

lemma begin_writing_inv:
  assumes inv: "log_inv lines s" and t: "\<forall>i ps g. thread_states s t \<noteq> Writing i ps g" and l: "loggers s i = Some l"
    and free: "if lg_safe l then mutexes s i = None else g" and g: "g \<Longrightarrow> global_mutex s = Some t"
  shows "log_inv (add_line (Some (lg_sink l, concat ps)) lines) (begin_writing t i l ps g s)"
proof -
  from inv have i: "guarded s" "locks_held s" "lines_end lines s" by (auto simp: log_inv_def)
  have "\<not> writer s t' j m qs True" if "\<not> lg_safe l" for t' j m qs
    using i(2) free g t that unfolding locks_held_def writer_def by (metis option.inject)
  then have nw: "\<not> (writer s t' j m qs h \<and> lg_sink m = lg_sink l)" for t' j m qs h
    using no_writer [OF i(1,2) l, of t' j m qs h] free by presburger
  have "locks_held (begin_writing t i l ps g s)"
  proof (rule locks_heldI)
    fix t' j m qs h
    assume "writer (begin_writing t i l ps g s) t' j m qs h"
    then show "if lg_safe m then mutexes (begin_writing t i l ps g s) j = Some t' else h"
      unfolding writer_begin [OF t l]
    proof
      assume w: "writer s t' j m qs h"
      with i(2) have "if lg_safe m then mutexes s j = Some t' else h" by (rule locks_heldD)
      moreover have "j \<noteq> i" using w nw [of t' j m qs h] l by (auto simp: writer_def)
      ultimately show ?thesis by (simp split: if_splits)
    qed (use free in \<open>auto split: if_splits\<close>)
  next
    show "writer (begin_writing t i l ps g s) t' j m qs True \<Longrightarrow> global_mutex (begin_writing t i l ps g s) = Some t'" for t' j m qs
      unfolding writer_begin [OF t l] using g locks_heldD(4) [OF i(2)] by auto
  qed (use l locks_heldD(1,2) [OF i(2)] in \<open>auto split: if_splits\<close>)
  moreover have "lines_end (add_line (Some (lg_sink l, concat ps)) lines) (begin_writing t i l ps g s)"
  proof (rule lines_endI)
    have "lines (lg_sink l) = streams s (lg_sink l)" using lines_endD(2) [OF i(3), of "lg_sink l"] nw by blast
    then show "add_line (Some (lg_sink l, concat ps)) lines (lg_sink m) = streams (begin_writing t i l ps g s) (lg_sink m) @ concat qs"
      if "writer (begin_writing t i l ps g s) t' j m qs h" for t' j m qs h
      using that lines_endD(1) [OF i(3), of t' j m qs h] nw [of t' j m qs h] unfolding writer_begin [OF t l] by auto
  next
    show "add_line (Some (lg_sink l, concat ps)) lines k = streams (begin_writing t i l ps g s) k"
      if "\<And>t' j m qs h. writer (begin_writing t i l ps g s) t' j m qs h \<Longrightarrow> lg_sink m \<noteq> k" for k
    proof -
      have "lg_sink l \<noteq> k" using that [of t i l ps g] unfolding writer_begin [OF t l] by simp
      moreover have "lines k = streams s k"
        by (rule lines_endD(2) [OF i(3)]) (rule that, unfold writer_begin [OF t l], blast)
      ultimately show ?thesis by auto
    qed
  qed
  ultimately show ?thesis using i(1) by (simp add: log_inv_def guarded_def)
qed

text \<open>
  The other steps keep the lines. A step is given by what it does to the writers: those after it, with
  the mutexes they need, and the lines they will complete.
\<close>

lemma log_invI:
  assumes inv: "log_inv lines s" and same: "loggers s' = loggers s" "direct s' = direct s"
    and gl: "\<And>t level msg. thread_states s' t = In_global level msg \<Longrightarrow> global_mutex s' = Some t"
    and lg: "\<And>t i ps g. thread_states s' t = Writing i ps g \<Longrightarrow> \<exists>l. loggers s i = Some l"
    and wr: "\<And>t i l ps g. writer s' t i l ps g \<Longrightarrow> (if lg_safe l then mutexes s' i = Some t else g)
        \<and> (g \<longrightarrow> global_mutex s' = Some t) \<and> lines (lg_sink l) = streams s' (lg_sink l) @ concat ps"
    and st: "\<And>k. (\<And>t i l ps g. writer s' t i l ps g \<Longrightarrow> lg_sink l \<noteq> k) \<Longrightarrow> lines k = streams s' k"
  shows "log_inv lines s'"
proof -
  have "guarded s'" using inv same by (simp add: log_inv_def guarded_def)
  moreover have "locks_held s'"
  proof (rule locks_heldI)
    show "if lg_safe l then mutexes s' i = Some t else g" if "writer s' t i l ps g" for t i l ps g
      using wr [OF that] by blast
    show "global_mutex s' = Some t" if "writer s' t i l ps True" for t i l ps
      using wr [OF that] by blast
  qed (use gl lg same in auto)
  moreover have "lines_end lines s'" by (rule lines_endI) (use wr st in auto)
  ultimately show ?thesis by (simp add: log_inv_def)
qed

lemma log_invD:
  assumes "log_inv lines s"
  shows "guarded s" "locks_held s" "lines_end lines s"
  using assms by (simp_all add: log_inv_def)

lemma end_writing_simps [simp]:
  "streams (end_writing t i l g s) = streams s" "loggers (end_writing t i l g s) = loggers s"
  "direct (end_writing t i l g s) = direct s"
  "global_mutex (end_writing t i l g s) = (if g then None else global_mutex s)"
  "thread_states (end_writing t i l g s) = (thread_states s)(t := Idle)"
  "mutexes (end_writing t i l g s) = (if lg_safe l then (mutexes s)(i := None) else mutexes s)"
  by (simp_all add: end_writing_def)

lemma end_writing_inv:
  assumes inv: "log_inv lines s" and w: "writer s t i l [] g"
  shows "log_inv lines (end_writing t i l g s)"
proof -
  note i = log_invD [OF inv]
  have wr: "t' \<noteq> t \<and> writer s t' j m qs h" if "writer (end_writing t i l g s) t' j m qs h" for t' j m qs h
    using that by (auto simp: writer_def split: if_splits)
  have gm: "\<not> g" if "t' \<noteq> t" "global_mutex s = Some t'" for t'
    using that locks_heldD(4) [OF i(2), of t i l "[]"] w by (cases g) auto
  show ?thesis
  proof (rule log_invI [OF inv])
    fix t' j m qs h assume w': "writer (end_writing t i l g s) t' j m qs h"
    note w'' = wr [OF w']
    have "j \<noteq> i" using writer_unique [OF i(1,2) w, of t' j m qs h] w w'' by (auto simp: writer_def)
    then show "(if lg_safe m then mutexes (end_writing t i l g s) j = Some t' else h)
        \<and> (h \<longrightarrow> global_mutex (end_writing t i l g s) = Some t')
        \<and> lines (lg_sink m) = streams (end_writing t i l g s) (lg_sink m) @ concat qs"
      using w'' gm [of t'] locks_heldD(3) [OF i(2), of t' j m qs h] locks_heldD(4) [OF i(2), of t' j m qs]
        lines_endD(1) [OF i(3), of t' j m qs h]
      by (cases h) (auto split: if_splits)
  next
    fix k assume n: "\<And>t' j m qs h. writer (end_writing t i l g s) t' j m qs h \<Longrightarrow> lg_sink m \<noteq> k"
    show "lines k = streams (end_writing t i l g s) k"
    proof (cases "lg_sink l = k")
      case True
      then show ?thesis using lines_endD(1) [OF i(3) w] by simp
    next
      case False
      have "lg_sink m \<noteq> k" if "writer s t' j m qs h" for t' j m qs h
        using n [of t' j m qs h] that w False by (cases "t' = t") (auto simp: writer_def)
      then show ?thesis using lines_endD(2) [OF i(3), of k] by simp
    qed
  next
    fix t' level msg assume "thread_states (end_writing t i l g s) t' = In_global level msg"
    then show "global_mutex (end_writing t i l g s) = Some t'"
      using gm [of t'] locks_heldD(1) [OF i(2), of t' level msg] by (auto split: if_splits)
  next
    fix t' j qs h assume "thread_states (end_writing t i l g s) t' = Writing j qs h"
    then show "\<exists>m. loggers s j = Some m"
      using locks_heldD(2) [OF i(2), of t' j qs h] by (auto split: if_splits)
  qed simp_all
qed

lemma write_piece_simps [simp]:
  "streams (write_piece t i l p ps g s) = (streams s)(lg_sink l := streams s (lg_sink l) @ p)"
  "loggers (write_piece t i l p ps g s) = loggers s" "direct (write_piece t i l p ps g s) = direct s"
  "global_mutex (write_piece t i l p ps g s) = global_mutex s" "mutexes (write_piece t i l p ps g s) = mutexes s"
  "thread_states (write_piece t i l p ps g s) = (thread_states s)(t := Writing i ps g)"
  by (simp_all add: write_piece_def)

lemma write_piece_writers:
  assumes "log_inv lines s" "writer s t i l (p # ps) g" "writer (write_piece t i l p ps g s) t' j m qs h"
  shows "if t' = t then j = i \<and> m = l \<and> qs = ps \<and> h = g else writer s t' j m qs h \<and> lg_sink m \<noteq> lg_sink l"
proof (cases "t' = t")
  case True
  with assms(2,3) show ?thesis by (auto simp: writer_def)
next
  case False
  then have other: "writer s t' j m qs h" using assms(3) by (simp add: writer_def)
  note i = log_invD [OF assms(1)]
  from False show ?thesis using writer_unique [OF i(1,2) assms(2) other] other by auto
qed

lemma write_piece_inv:
  assumes inv: "log_inv lines s" and w: "writer s t i l (p # ps) g"
  shows "log_inv lines (write_piece t i l p ps g s)"
proof -
  note i = log_invD [OF inv]
  note wr = write_piece_writers [OF inv w]
  show ?thesis
  proof (rule log_invI [OF inv])
    fix t' j m qs h assume w': "writer (write_piece t i l p ps g s) t' j m qs h"
    show "(if lg_safe m then mutexes (write_piece t i l p ps g s) j = Some t' else h)
        \<and> (h \<longrightarrow> global_mutex (write_piece t i l p ps g s) = Some t')
        \<and> lines (lg_sink m) = streams (write_piece t i l p ps g s) (lg_sink m) @ concat qs"
    proof (cases "t' = t")
      case True
      then have "j = i" "m = l" "qs = ps" "h = g" using wr [OF w'] by simp_all
      then show ?thesis
        using True w locks_heldD(3) [OF i(2) w] locks_heldD(4) [OF i(2), of t i l "p # ps"] lines_endD(1) [OF i(3) w]
        by (cases g) (auto split: if_splits)
    next
      case False
      then have w2: "writer s t' j m qs h" "lg_sink m \<noteq> lg_sink l" using wr [OF w'] by simp_all
      then show ?thesis
        using locks_heldD(3) [OF i(2) w2(1)] locks_heldD(4) [OF i(2), of t' j m qs] lines_endD(1) [OF i(3) w2(1)]
        by (cases h) (auto split: if_splits)
    qed
  next
    fix k assume n: "\<And>t' j m qs h. writer (write_piece t i l p ps g s) t' j m qs h \<Longrightarrow> lg_sink m \<noteq> k"
    have k: "lg_sink l \<noteq> k" using n [of t i l ps g] w by (simp add: writer_def)
    have "lg_sink m \<noteq> k" if "writer s t' j m qs h" for t' j m qs h
      using n [of t' j m qs h] that w k by (cases "t' = t") (auto simp: writer_def)
    then show "lines k = streams (write_piece t i l p ps g s) k" using lines_endD(2) [OF i(3), of k] k by simp
  next
    fix t' level msg assume "thread_states (write_piece t i l p ps g s) t' = In_global level msg"
    then show "global_mutex (write_piece t i l p ps g s) = Some t'"
      using locks_heldD(1) [OF i(2), of t' level msg] by (auto split: if_splits)
  next
    fix t' j qs h assume "thread_states (write_piece t i l p ps g s) t' = Writing j qs h"
    then show "\<exists>m. loggers s j = Some m"
      using locks_heldD(2) [OF i(2), of t' j qs h] w by (auto simp: writer_def split: if_splits)
  qed simp_all
qed

text \<open>A thread that neither wrote nor writes.\<close>

lemma no_line_inv:
  assumes inv: "log_inv lines s" and t: "\<not> (\<exists>i ps g. thread_states s t = Writing i ps g)" "\<not> (\<exists>i ps g. st = Writing i ps g)"
    and gm: "\<And>t' l m. t' \<noteq> t \<Longrightarrow> thread_states s t' = In_global l m \<Longrightarrow> gm = Some t'"
      "\<And>t' i l ps. writer s t' i l ps True \<Longrightarrow> gm = Some t'" "\<And>l m. st = In_global l m \<Longrightarrow> gm = Some t"
  shows "log_inv lines (s\<lparr>thread_states := (thread_states s)(t := st), global_mutex := gm\<rparr>)"
proof -
  note i = log_invD [OF inv]
  define s' where "s' = s\<lparr>thread_states := (thread_states s)(t := st), global_mutex := gm\<rparr>"
  have s': "thread_states s' = (thread_states s)(t := st)" "global_mutex s' = gm" "mutexes s' = mutexes s"
    "streams s' = streams s" "loggers s' = loggers s" "direct s' = direct s"
    by (simp_all add: s'_def)
  have wr: "writer s' = writer s"
  proof (intro ext)
    show "writer s' t' j m qs h = writer s t' j m qs h" for t' j m qs h
      using t by (cases "t' = t") (auto simp: writer_def s')
  qed
  have "log_inv lines s'"
  proof (rule log_invI [OF inv])
    fix t' j m qs h assume "writer s' t' j m qs h"
    then have w: "writer s t' j m qs h" by (simp add: wr)
    show "(if lg_safe m then mutexes s' j = Some t' else h) \<and> (h \<longrightarrow> global_mutex s' = Some t')
        \<and> lines (lg_sink m) = streams s' (lg_sink m) @ concat qs"
      using locks_heldD(3) [OF i(2) w] lines_endD(1) [OF i(3) w] gm(2) w unfolding s' by (cases h) auto
  next
    fix t' j qs h assume "thread_states s' t' = Writing j qs h"
    then show "\<exists>m. loggers s j = Some m"
      using locks_heldD(2) [OF i(2), of t' j qs h] t by (cases "t' = t") (auto simp: s')
  next
    fix t' level msg assume "thread_states s' t' = In_global level msg"
    then show "global_mutex s' = Some t'" using gm(1,3) by (cases "t' = t") (auto simp: s')
  next
    fix k assume "\<And>t' j m qs h. writer s' t' j m qs h \<Longrightarrow> lg_sink m \<noteq> k"
    then show "lines k = streams s' k" using lines_endD(2) [OF i(3), of k] by (simp add: wr s')
  qed (simp_all add: s')
  then show ?thesis by (simp add: s'_def)
qed

lemma set_level_inv:
  assumes inv: "log_inv lines s" and l: "loggers s i = Some l"
  shows "log_inv lines (s\<lparr>loggers := (loggers s)(i \<mapsto> set_level level l)\<rparr>)"
proof -
  note i = log_invD [OF inv]
  define s' where "s' = s\<lparr>loggers := (loggers s)(i \<mapsto> set_level level l)\<rparr>"
  have lg: "\<exists>m'. loggers s j = Some m' \<and> lg_sink m' = lg_sink m \<and> lg_safe m' = lg_safe m"
    if "loggers s' j = Some m" for j m
    using that l by (auto simp: s'_def set_level_def split: if_splits)
  have old: "\<exists>m. loggers s' j = Some m \<and> lg_sink m = lg_sink m' \<and> lg_safe m = lg_safe m'" if "loggers s j = Some m'" for j m'
    using that l by (auto simp: s'_def set_level_def)
  have s': "thread_states s' = thread_states s" "global_mutex s' = global_mutex s" "mutexes s' = mutexes s"
    "streams s' = streams s" "direct s' = direct s"
    by (simp_all add: s'_def)
  have wr: "\<exists>m'. writer s t j m' qs h \<and> lg_sink m' = lg_sink m \<and> lg_safe m' = lg_safe m" if "writer s' t j m qs h" for t j m qs h
    using that lg [of j m] by (auto simp: writer_def s')
  have ow: "\<exists>m. writer s' t j m qs h \<and> lg_sink m = lg_sink m'" if "writer s t j m' qs h" for t j m' qs h
    using that old [of j m'] by (auto simp: writer_def s')
  have "guarded s'" using i(1) lg unfolding guarded_def s' by metis
  moreover have "locks_held s'"
  proof (rule locks_heldI)
    show "if lg_safe m then mutexes s' j = Some t else h" if "writer s' t j m qs h" for t j m qs h
    proof -
      from wr [OF that] obtain m' where m: "writer s t j m' qs h" "lg_safe m' = lg_safe m" by blast
      from locks_heldD(3) [OF i(2) m(1)] m(2) show ?thesis by (simp add: s')
    qed
    show "global_mutex s' = Some t" if "writer s' t j m qs True" for t j m qs
      using wr [OF that] locks_heldD(4) [OF i(2)] by (auto simp: s')
  qed (use locks_heldD(1,2) [OF i(2)] old in \<open>fastforce simp: s'\<close>)+
  moreover have "lines_end lines s'"
  proof (rule lines_endI)
    show "lines (lg_sink m) = streams s' (lg_sink m) @ concat qs" if "writer s' t j m qs h" for t j m qs h
    proof -
      from wr [OF that] obtain m' where m: "writer s t j m' qs h" "lg_sink m' = lg_sink m" by blast
      from lines_endD(1) [OF i(3) m(1)] m(2) show ?thesis by (simp add: s')
    qed
    show "lines k = streams s' k" if "\<And>t j m qs h. writer s' t j m qs h \<Longrightarrow> lg_sink m \<noteq> k" for k
      using that ow lines_endD(2) [OF i(3), of k] unfolding s' by metis
  qed
  ultimately show ?thesis by (simp add: log_inv_def s'_def)
qed

lemma log_step_inv: "log_step s e s' \<Longrightarrow> log_inv lines s \<Longrightarrow> log_inv (add_line e lines) s'"
proof (induction rule: log_step.induct)
  case (Call s t i l now msg level ps)
  then have "lg_safe l" by (auto simp: log_inv_def guarded_def)
  with Call show ?case by (intro begin_writing_inv) auto
next
  case (Global_call s t level msg)
  note i = log_invD [OF Global_call.prems]
  show ?case unfolding add_line.simps
    by (rule no_line_inv [OF Global_call.prems]) (use Global_call.hyps locks_heldD(1,4) [OF i(2)] in auto)
next
  case (Global_write s t level msg l now ps)
  then have "global_mutex s = Some t" using locks_heldD(1) by (auto simp: log_inv_def)
  with Global_write show ?case by (intro begin_writing_inv) auto
next
  case (Global_filtered s t level msg l now)
  note i = log_invD [OF Global_filtered.prems]
  have g: "global_mutex s = Some t" using locks_heldD(1) [OF i(2) Global_filtered.hyps(1)] .
  show ?case unfolding add_line.simps
  proof (rule no_line_inv [OF Global_filtered.prems])
    show "\<And>t' i l ps. writer s t' i l ps True \<Longrightarrow> None = Some t'"
      using locks_heldD(4) [OF i(2)] g Global_filtered.hyps(1) by (fastforce simp: writer_def)
    show "\<And>t' l m. t' \<noteq> t \<Longrightarrow> thread_states s t' = In_global l m \<Longrightarrow> None = Some t'"
      using locks_heldD(1) [OF i(2)] g by fastforce
  qed (use Global_filtered.hyps in auto)
next
  case (Piece s t i p ps g l)
  then show ?case using write_piece_inv by (simp add: writer_def)
next
  case (Return s t i g l)
  then show ?case using end_writing_inv by (simp add: writer_def)
next
  case (Set_global s j)
  have "locks_held (s\<lparr>global_logger := j\<rparr>) = locks_held s" "guarded (s\<lparr>global_logger := j\<rparr>) = guarded s"
    "lines_end lines (s\<lparr>global_logger := j\<rparr>) = lines_end lines s"
    by (simp_all add: locks_held_def guarded_def lines_end_def)
  with Set_global show ?case by (simp add: log_inv_def)
next
  case (Set_level s i l level)
  then show ?case using set_level_inv by simp
qed

lemma log_run_inv: "log_run s es s' \<Longrightarrow> log_inv lines s \<Longrightarrow> \<exists>lines'. log_inv lines' s'
    \<and> (\<forall>k. lines' k = lines k @ concat (map snd (filter (\<lambda>e. fst e = k) es)))"
proof (induction rule: log_run.induct)
  case (Step s es s' e s'')
  then obtain lines' where l: "log_inv lines' s'"
    "\<forall>k. lines' k = lines k @ concat (map snd (filter (\<lambda>e. fst e = k) es))" by blast
  from log_step_inv [OF Step.hyps(2) l(1)] have "log_inv (add_line e lines') s''" .
  moreover have "\<forall>k. add_line e lines' k =
      lines k @ concat (map snd (filter (\<lambda>e. fst e = k) (es @ (case e of None \<Rightarrow> [] | Some e \<Rightarrow> [e]))))"
    using l(2) by (cases e) (auto split: prod.splits)
  ultimately show ?case by blast
qed auto

lemma log_start_inv:
  "guarded (log_start ls d g) \<Longrightarrow> log_inv (\<lambda>_. []) (log_start ls d g)"
  by (rule iffD2 [OF log_inv_def]) (auto simp: locks_held_def lines_end_def writer_def log_start_def)

text \<open>Two steps of one thread, for the examples.\<close>

lemma log_run_append: "log_run s es s' \<Longrightarrow> log_step s' None s'' \<Longrightarrow> log_run s es s''"
  using Step [of s es s' None s''] by simp

section \<open>Properties\<close>

text \<open>
  C21: A refinement of the logger that writes lines at once. When each stream has one logger, and a
  logger the program calls itself is a safe one, then in every interleaving of any number of threads
  a stream without a writer holds the lines whose writing was begun, whole and in that order; with a
  writer, it lacks exactly what that writer has left to write.
\<close>

theorem guarded_loggers_write_lines:
  assumes "guarded (log_start ls d g)" "log_run (log_start ls d g) es s"
  defines "lines \<equiv> (\<lambda>k. concat (map snd (filter (\<lambda>e. fst e = k) es)))"
  shows "((\<forall>t i ps h l. thread_states s t = Writing i ps h \<longrightarrow> loggers s i = Some l \<longrightarrow> lg_sink l \<noteq> k) \<longrightarrow> streams s k = lines k)
    \<and> (\<forall>t i ps h l. thread_states s t = Writing i ps h \<longrightarrow> loggers s i = Some l \<longrightarrow> lg_sink l = k \<longrightarrow>
        streams s k @ concat ps = lines k)"
proof -
  from log_run_inv [OF assms(2) log_start_inv [OF assms(1)]] obtain lines' where
    l: "log_inv lines' s" "\<forall>k. lines' k = lines k" by (auto simp: lines_def)
  from log_invD(3) [OF l(1)] l(2) show ?thesis
    unfolding lines_end_def writer_def by metis
qed

definition one_stdout :: log_state where
  "one_stdout = log_start [0 \<mapsto> SafeStdoutLogger] {0} 0"

definition two_stdout :: log_state where
  "two_stdout = log_start [0 \<mapsto> SafeStdoutLogger, 1 \<mapsto> SafeStdoutLogger] {0, 1} 0"

definition info_pieces :: "string \<Rightarrow> string list" where
  "info_pieces msg = log_to_ostream ''t'' ''[INFO ]'' msg"

lemma info_pieces_simps: "info_pieces msg = [''['', ''t'', ''] '', ''[INFO ]'', '' '', msg, [CHR 0x0A]]"
  by (simp add: info_pieces_def log_to_ostream_def)

lemma info_logged: "log_msg ''t'' msg INFO SafeStdoutLogger = Some (info_pieces msg)"
  by (simp add: log_msg_def SafeStdoutLogger_def BaseLogger_def info_pieces_def)

text \<open>A writer goes on to write all of its pieces.\<close>

lemma write_all:
  "thread_states s t = Writing i ps h \<Longrightarrow> loggers s i = Some l \<Longrightarrow> log_run r es s \<Longrightarrow>
   \<exists>s'. log_run r es s' \<and> streams s' = (streams s)(lg_sink l := streams s (lg_sink l) @ concat ps)
     \<and> thread_states s' = (thread_states s)(t := Writing i [] h) \<and> loggers s' = loggers s
     \<and> mutexes s' = mutexes s \<and> direct s' = direct s"
proof (induction ps arbitrary: s)
  case Nil
  then show ?case by (intro exI [of _ s]) auto
next
  case (Cons p ps)
  let ?s = "write_piece t i l p ps h s"
  have "log_run r es ?s" using log_run_append [OF Cons.prems(3) Piece] Cons.prems(1,2) by blast
  from Cons.IH [OF _ _ this] Cons.prems(2) show ?case by (simp add: fun_upd_def cong: if_cong)
qed

text \<open>A thread that only returns.\<close>

lemma write_and_return:
  assumes "thread_states s t = Writing i ps False" "loggers s i = Some l" "log_run r es s"
  shows "\<exists>s'. log_run r es s' \<and> streams s' = (streams s)(lg_sink l := streams s (lg_sink l) @ concat ps)
     \<and> thread_states s' = (thread_states s)(t := Idle) \<and> loggers s' = loggers s"
proof -
  from write_all [OF assms] obtain s1 where s1: "log_run r es s1"
    "streams s1 = (streams s)(lg_sink l := streams s (lg_sink l) @ concat ps)"
    "thread_states s1 = (thread_states s)(t := Writing i [] False)" "loggers s1 = loggers s" by blast
  have "log_run r es (end_writing t i l False s1)"
    using log_run_append [OF s1(1) Return] s1(3,4) assms(2) by simp
  then show ?thesis using s1 by (intro exI [of _ "end_writing t i l False s1"]) auto
qed

lemma start_line:
  assumes "log_run r es s" "thread_states s t = Idle" "i \<in> direct s" "loggers s i = Some SafeStdoutLogger" "mutexes s i = None"
  shows "log_run r (es @ [(Stdout, concat (info_pieces msg))]) (begin_writing t i SafeStdoutLogger (info_pieces msg) False s)"
  using Step [OF assms(1) Call [OF assms(2-4) info_logged [of msg]]] assms(5)
  by (simp add: SafeStdoutLogger_def BaseLogger_def)

theorem guarded_loggers_write_lines_witness:
  "\<exists>s. log_run one_stdout [(Stdout, concat (info_pieces ''hi''))] s \<and> streams s Stdout = concat (info_pieces ''hi'')"
proof -
  let ?l = "SafeStdoutLogger" and ?s = "begin_writing 0 0 SafeStdoutLogger (info_pieces ''hi'') False one_stdout"
  have "log_run one_stdout [(Stdout, concat (info_pieces ''hi''))] ?s"
    using start_line [OF Start [of one_stdout], of 0 0 "''hi''"] by (simp add: one_stdout_def log_start_def)
  from write_and_return [OF _ _ this, of 0 0 _ ?l] obtain s where
    s: "log_run one_stdout [(Stdout, concat (info_pieces ''hi''))] s" "thread_states s = (\<lambda>_. Idle)"
    by (auto simp: one_stdout_def log_start_def fun_upd_def cong: if_cong)
  have "guarded one_stdout" by (simp add: guarded_def one_stdout_def log_start_def SafeStdoutLogger_def BaseLogger_def)
  from guarded_loggers_write_lines [OF this [unfolded one_stdout_def] s(1) [unfolded one_stdout_def], of Stdout] s
  show ?thesis by auto
qed

text \<open>
  The mutex of a safe logger is a member of the logger, not of the stream: two \<open>SafeStdoutLogger\<close>
  objects in two threads write into each other's lines.
\<close>

theorem two_safe_loggers_tear_lines:
  "\<exists>es s. log_run two_stdout es s \<and> (\<forall>t. thread_states s t = Idle)
     \<and> es = [(Stdout, concat (info_pieces ''a'')), (Stdout, concat (info_pieces ''b''))]
     \<and> streams s Stdout \<noteq> concat (map snd es) \<and> streams s Stdout \<noteq> concat (map snd (rev es))"
proof -
  let ?l = "SafeStdoutLogger" and ?es = "[(Stdout, concat (info_pieces ''a'')), (Stdout, concat (info_pieces ''b''))]"
  define s1 where "s1 = begin_writing 0 0 ?l (info_pieces ''a'') False two_stdout"
  define s2 where "s2 = begin_writing 1 1 ?l (info_pieces ''b'') False s1"
  define s3 where "s3 = write_piece 0 0 ?l ''['' (tl (info_pieces ''a'')) False s2"
  have two: "thread_states two_stdout = (\<lambda>_. Idle)" "loggers two_stdout = [0 \<mapsto> ?l, 1 \<mapsto> ?l]" "direct two_stdout = {0, 1}"
    "mutexes two_stdout = (\<lambda>_. None)" "streams two_stdout = (\<lambda>_. [])"
    by (simp_all add: two_stdout_def log_start_def)
  have "log_run two_stdout [(Stdout, concat (info_pieces ''a''))] s1"
    using start_line [OF Start [of two_stdout], of 0 0 "''a''"] by (simp add: two s1_def)
  from start_line [OF this, of 1 1 "''b''"] have "log_run two_stdout ?es s2"
    by (simp add: two s1_def s2_def)
  then have r3: "log_run two_stdout ?es s3" unfolding s3_def
    by (rule log_run_append) (rule Piece, simp_all add: two s1_def s2_def info_pieces_simps)
  obtain s4 where s4: "log_run two_stdout ?es s4" "streams s4 Stdout = ''['' @ concat (info_pieces ''b'')"
    "thread_states s4 0 = Writing 0 (tl (info_pieces ''a'')) False" "\<forall>t. t \<noteq> 0 \<longrightarrow> thread_states s4 t = Idle" "loggers s4 = loggers two_stdout"
    using write_and_return [OF _ _ r3, of 1 1 "info_pieces ''b''" ?l]
    by (auto simp: two s1_def s2_def s3_def SafeStdoutLogger_def BaseLogger_def)
  obtain s5 where "log_run two_stdout ?es s5" "\<forall>t. thread_states s5 t = Idle"
    "streams s5 Stdout = ''['' @ concat (info_pieces ''b'') @ concat (tl (info_pieces ''a''))"
    using write_and_return [OF _ _ s4(1), of 0 0 "tl (info_pieces ''a'')" ?l] s4(2-5)
    by (auto simp: two SafeStdoutLogger_def BaseLogger_def)
  then show ?thesis by (intro exI [of _ ?es] exI [of _ s5]) (auto simp: info_pieces_simps)
qed

end
