(* ===== verification/GmTime.thy ===== *)
theory GmTime imports CppStd begin

text \<open>
  The texts of the current time: \<open>now_time_to_str_gmt\<close> with its two formats, the \<open>Date\<close> header of
  \<open>tinyhttp/utils\<close> and the stamp of \<open>trivilog/base_logger\<close>. The clock is an argument, in seconds since
  the epoch and not before it; \<open>gmtime_r\<close> and the conversions of \<open>std::put_time\<close> that the formats use are
  those of the C library, in the locale \<open>en_US\<close>.
\<close>

section \<open>\<open>gmtime_r\<close>\<close>

definition leap :: "nat \<Rightarrow> bool" where
  "leap y \<longleftrightarrow> y mod 4 = 0 \<and> (y mod 100 \<noteq> 0 \<or> y mod 400 = 0)"

definition days_in_year :: "nat \<Rightarrow> nat" where
  "days_in_year y = (if leap y then 366 else 365)"

definition month_lengths :: "nat \<Rightarrow> nat list" where
  "month_lengths y = [31, if leap y then 29 else 28, 31, 30, 31, 30, 31, 31, 30, 31, 30, 31]"

text \<open>The year of a day that is counted from the first day of a year, and the day in it.\<close>

function year_loop :: "nat \<Rightarrow> nat \<Rightarrow> nat \<times> nat" where
  "year_loop y d = (if d < days_in_year y then (y, d) else year_loop (Suc y) (d - days_in_year y))"
  by auto
termination by (relation "measure snd") (auto simp: days_in_year_def)

declare year_loop.simps [simp del]

fun month_loop :: "nat list \<Rightarrow> nat \<Rightarrow> nat \<Rightarrow> nat \<times> nat" where
  "month_loop [] m d = (m, d)"
| "month_loop (l # ls) m d = (if d < l then (m, d) else month_loop ls (Suc m) (d - l))"

record tm =
  tm_sec :: nat
  tm_min :: nat
  tm_hour :: nat
  tm_mday :: nat
  tm_mon :: nat
  tm_year :: nat
  tm_wday :: nat

text \<open>The first of January 1970 was a Thursday. Years count from 1900, months and week days from zero.\<close>

definition gmtime_r :: "nat \<Rightarrow> tm" where
  "gmtime_r t =
     (let days = t div 86400; secs = t mod 86400;
          (y, yday) = year_loop 1970 days;
          (mon, mday) = month_loop (month_lengths y) 0 yday
      in \<lparr>tm_sec = secs mod 60, tm_min = secs div 60 mod 60, tm_hour = secs div 3600,
          tm_mday = mday + 1, tm_mon = mon, tm_year = y - 1900, tm_wday = (days + 4) mod 7\<rparr>)"

section \<open>\<open>std::put_time\<close>\<close>

definition day_names :: "string list" where
  "day_names = [''Sun'', ''Mon'', ''Tue'', ''Wed'', ''Thu'', ''Fri'', ''Sat'']"

definition month_names :: "string list" where
  "month_names = [''Jan'', ''Feb'', ''Mar'', ''Apr'', ''May'', ''Jun'', ''Jul'', ''Aug'', ''Sep'', ''Oct'', ''Nov'', ''Dec'']"

definition two_digits :: "nat \<Rightarrow> string" where
  "two_digits n = (if n < 10 then ''0'' else []) @ to_dec n"

definition conversion :: "tm \<Rightarrow> char \<Rightarrow> string" where
  "conversion tm c =
     (if c = CHR ''a'' then day_names ! tm_wday tm
      else if c = CHR ''b'' then month_names ! tm_mon tm
      else if c = CHR ''d'' then two_digits (tm_mday tm)
      else if c = CHR ''m'' then two_digits (tm_mon tm + 1)
      else if c = CHR ''Y'' then to_dec (tm_year tm + 1900)
      else if c = CHR ''T'' then two_digits (tm_hour tm) @ '':'' @ two_digits (tm_min tm) @ '':'' @ two_digits (tm_sec tm)
      else if c = CHR ''Z'' then ''GMT''
      else [])"

fun put_time :: "tm \<Rightarrow> string \<Rightarrow> string" where
  "put_time tm [] = []"
| "put_time tm [c] = [c]"
| "put_time tm (c # f # fmt) = (if c = CHR ''%'' then conversion tm f @ put_time tm fmt else c # put_time tm (f # fmt))"

definition now_time_to_str_gmt :: "string \<Rightarrow> nat \<Rightarrow> string" where
  "now_time_to_str_gmt fmt time = put_time (gmtime_r time) fmt"

definition get_date_http_str :: "nat \<Rightarrow> string" where
  "get_date_http_str time = now_time_to_str_gmt ''%a, %d %b %Y %T %Z'' time"

definition now_time :: "nat \<Rightarrow> string" where
  "now_time time = now_time_to_str_gmt ''%Y-%m-%d %T'' time"

section \<open>Reading the texts\<close>

text \<open>The specification: the days before a year and in the months of a year before a month are sums.\<close>

definition days_before :: "nat \<Rightarrow> nat" where
  "days_before y = (\<Sum>i = 1970..<y. days_in_year i)"

definition seconds_of :: "nat \<Rightarrow> nat \<Rightarrow> nat \<Rightarrow> nat \<Rightarrow> nat \<Rightarrow> nat \<Rightarrow> nat" where
  "seconds_of y mon mday h mi s =
     (days_before y + sum_list (take mon (month_lengths y)) + (mday - 1)) * 86400 + h * 3600 + mi * 60 + s"

definition index_of :: "'a \<Rightarrow> 'a list \<Rightarrow> nat" where
  "index_of x xs = length (takeWhile (\<lambda>y. y \<noteq> x) xs)"

definition parse_http_date :: "string \<Rightarrow> nat" where
  "parse_http_date s =
     (let (d, s) = read_digits 10 0 (drop 5 s); mon = index_of (take 3 (drop 1 s)) month_names;
          (y, s) = read_digits 10 0 (drop 5 s); (h, s) = read_digits 10 0 (drop 1 s);
          (mi, s) = read_digits 10 0 (drop 1 s); (sec, s) = read_digits 10 0 (drop 1 s)
      in seconds_of y mon d h mi sec)"

definition parse_log_time :: "string \<Rightarrow> nat" where
  "parse_log_time s =
     (let (y, s) = read_digits 10 0 s; (mon, s) = read_digits 10 0 (drop 1 s); (d, s) = read_digits 10 0 (drop 1 s);
          (h, s) = read_digits 10 0 (drop 1 s); (mi, s) = read_digits 10 0 (drop 1 s); (sec, s) = read_digits 10 0 (drop 1 s)
      in seconds_of y (mon - 1) d h mi sec)"

section \<open>The calendar\<close>

lemma sum_month_lengths: "sum_list (month_lengths y) = days_in_year y"
  by (simp add: month_lengths_def days_in_year_def)

lemma days_before_Suc: "1970 \<le> y \<Longrightarrow> days_before (Suc y) = days_before y + days_in_year y"
  by (simp add: days_before_def)

lemma year_loop_spec:
  "1970 \<le> y \<Longrightarrow> year_loop y d = (y', d') \<Longrightarrow> y \<le> y' \<and> d' < days_in_year y' \<and> days_before y + d = days_before y' + d'"
proof (induction y d rule: year_loop.induct)
  case (1 y d)
  show ?case
  proof (cases "d < days_in_year y")
    case True
    with 1(3) show ?thesis by (simp add: year_loop.simps [of y d])
  next
    case False
    with 1(3) have "year_loop (Suc y) (d - days_in_year y) = (y', d')" by (simp add: year_loop.simps [of y d])
    from 1(1) [OF False _ this] 1(2) False show ?thesis by (simp add: days_before_Suc)
  qed
qed

lemma month_loop_spec:
  "d < sum_list ls \<Longrightarrow> month_loop ls m d = (m', d') \<Longrightarrow>
   m \<le> m' \<and> m' - m < length ls \<and> d' < ls ! (m' - m) \<and> d = sum_list (take (m' - m) ls) + d'"
proof (induction ls arbitrary: m d)
  case (Cons l ls)
  show ?case
  proof (cases "d < l")
    case False
    then have "d - l < sum_list ls" "month_loop ls (Suc m) (d - l) = (m', d')" using Cons.prems by simp_all
    from Cons.IH [OF this] have IH: "Suc m \<le> m'" "m' - Suc m < length ls" "d' < ls ! (m' - Suc m)"
      "d - l = sum_list (take (m' - Suc m) ls) + d'" by auto
    then have "m' - m = Suc (m' - Suc m)" by simp
    with IH False show ?thesis by simp
  qed (use Cons.prems in auto)
qed simp

text \<open>In closed form, so that a year bounds the days before it.\<close>

lemma div_Suc_dvd: "Suc n div k = n div k + (if Suc n mod k = 0 then 1 else 0)"
  by (simp add: div_Suc)

lemma closed_step:
  fixes x :: nat
  assumes "d + 477 + x div 100 = 365 * k + x div 4 + x div 400" "a400 \<Longrightarrow> a100" "a100 \<Longrightarrow> a4"
  shows "d + (if a4 \<and> (\<not> a100 \<or> a400) then 366 else 365) + 477 + (x div 100 + (if a100 then 1 else 0)) =
    365 * Suc k + (x div 4 + (if a4 then 1 else 0)) + (x div 400 + (if a400 then 1 else 0))"
  using assms by (cases a4; cases a100; cases a400; simp)

lemma days_before_closed:
  "1969 \<le> x \<Longrightarrow> days_before (Suc x) + 477 + x div 100 = 365 * (x - 1969) + x div 4 + x div 400"
proof (induction x rule: nat_induct_at_least)
  case base
  show ?case by (simp add: days_before_def)
next
  case (Suc x)
  have m: "Suc x mod 400 = 0 \<Longrightarrow> Suc x mod 100 = 0" "Suc x mod 100 = 0 \<Longrightarrow> Suc x mod 4 = 0"
    using dvd_trans [of 100 400 "Suc x"] dvd_trans [of 4 100 "Suc x"] by (simp_all add: dvd_eq_mod_eq_0)
  have x: "Suc x - 1969 = Suc (x - 1969)" "1970 \<le> Suc x" using Suc(1) by simp_all
  show ?case
    unfolding x(1) days_before_Suc [OF x(2)] days_in_year_def leap_def div_Suc_dvd [of x 4] div_Suc_dvd [of x 100] div_Suc_dvd [of x 400]
    by (rule closed_step [OF Suc(2) m])
qed

lemma days_before_10000: "days_before 10000 = 2932897"
  using days_before_closed [of 9999] by simp

lemma days_before_mono: "y \<le> y' \<Longrightarrow> days_before y \<le> days_before y'"
  unfolding days_before_def by (rule sum_mono2) auto

lemma gmtime_r_spec:
  assumes "t < 253402300800"
  shows "\<exists>y mon mday. gmtime_r t = \<lparr>tm_sec = t mod 86400 mod 60, tm_min = t mod 86400 div 60 mod 60, tm_hour = t mod 86400 div 3600,
      tm_mday = mday + 1, tm_mon = mon, tm_year = y - 1900, tm_wday = (t div 86400 + 4) mod 7\<rparr>
    \<and> 1970 \<le> y \<and> y < 10000 \<and> mon < 12 \<and> mday < month_lengths y ! mon
    \<and> t div 86400 = days_before y + sum_list (take mon (month_lengths y)) + mday"
proof -
  obtain y yday where y: "year_loop 1970 (t div 86400) = (y, yday)" by fastforce
  obtain mon mday where m: "month_loop (month_lengths y) 0 yday = (mon, mday)" by fastforce
  have ys: "1970 \<le> y" "yday < days_in_year y" "t div 86400 = days_before y + yday"
    using year_loop_spec [OF _ y] by (simp_all add: days_before_def)
  have "t div 86400 < 2932897" using assms by (simp add: div_less_iff_less_mult)
  then have "y < 10000" using ys(3) days_before_mono [of 10000 y] days_before_10000 by (cases "10000 \<le> y") auto
  moreover have "mon < 12 \<and> mday < month_lengths y ! mon \<and> yday = sum_list (take mon (month_lengths y)) + mday"
    using month_loop_spec [OF _ m] ys(2) by (simp add: sum_month_lengths) (simp add: month_lengths_def)
  ultimately show ?thesis using ys y m by (auto simp: gmtime_r_def Let_def)
qed

section \<open>The digits\<close>

lemma read_digits_stop: "rest = [] \<or> digit_of 10 (hd rest) = None \<Longrightarrow> read_digits 10 n rest = (n, rest)"
  by (cases rest) auto

lemma read_to_dec:
  assumes "rest = [] \<or> digit_of 10 (hd rest) = None"
  shows "read_digits 10 0 (to_dec n @ rest) = (n, rest)"
  using read_digits_append [OF set_to_dec, of 0 n rest] read_digits_to_dec [of n] read_digits_stop [OF assms, of n] by simp

lemma read_two_digits:
  assumes "rest = [] \<or> digit_of 10 (hd rest) = None"
  shows "read_digits 10 0 (two_digits n @ rest) = (n, rest)"
proof -
  have "read_digits 10 0 (CHR ''0'' # xs) = read_digits 10 0 xs" for xs by (simp add: digit_of_def)
  then show ?thesis using read_to_dec [OF assms] by (simp add: two_digits_def)
qed

lemma no_digit: "digit_of 10 (CHR '' '') = None" "digit_of 10 (CHR '':'') = None" "digit_of 10 (CHR ''-'') = None"
  by (simp_all add: digit_of_def)

lemma index_of_nth: "distinct xs \<Longrightarrow> i < length xs \<Longrightarrow> index_of (xs ! i) xs = i"
proof (induction xs arbitrary: i)
  case (Cons x xs)
  then show ?case by (cases i) (auto simp: index_of_def)
qed simp

lemma length_to_dec: "1000 \<le> n \<Longrightarrow> n < 10000 \<Longrightarrow> length (to_dec n) = 4" "n < 100 \<Longrightarrow> length (two_digits n) = 2"
proof -
  have one: "n < 10 \<Longrightarrow> length (to_dec n) = 1" for n by (simp add: to_dec.simps [of n])
  have step: "\<not> n < 10 \<Longrightarrow> length (to_dec n) = length (to_dec (n div 10)) + 1" for n by (simp add: to_dec.simps [of n])
  show "length (to_dec n) = 4" if "1000 \<le> n" "n < 10000"
  proof -
    have "\<not> n div 10 < 10" "\<not> n div 10 div 10 < 10" "n div 10 div 10 div 10 < 10" using that by auto
    then show ?thesis using step [of n] step [of "n div 10"] step [of "n div 10 div 10"] one [of "n div 10 div 10 div 10"] that by simp
  qed
  show "length (two_digits n) = 2" if "n < 100"
    using that step [of n] one [of n] one [of "n div 10"] by (cases "n < 10") (simp_all add: two_digits_def)
qed

lemma name_lengths: "i < 7 \<Longrightarrow> length (day_names ! i) = 3" "i < 12 \<Longrightarrow> length (month_names ! i) = 3"
  by (auto simp: day_names_def month_names_def less_Suc_eq eval_nat_numeral)

lemma seconds_of_time:
  "seconds_of y mon mday (t mod 86400 div 3600) (t mod 86400 div 60 mod 60) (t mod 86400 mod 60) =
     (days_before y + sum_list (take mon (month_lengths y)) + (mday - 1)) * 86400 + t mod 86400"
proof -
  have "s div 3600 * 3600 + s div 60 mod 60 * 60 + s mod 60 = s" for s :: nat
  proof -
    have "s div 3600 = s div 60 div 60" using div_mult2_eq [of s 60 60] by simp
    then show ?thesis using div_mult_mod_eq [of s 60] div_mult_mod_eq [of "s div 60" 60] by linarith
  qed
  from this [of "t mod 86400"] show ?thesis by (simp add: seconds_of_def)
qed

section \<open>Properties\<close>

text \<open>
  C39: Up to the year 9999, the \<open>Date\<close> header has the form of RFC 7231: 29 characters, the name of the week
  day first, and date and time that name exactly the second of the clock; so does the stamp of a log line,
  in 19 characters.
\<close>

theorem http_date_names_second:
  assumes "t < 253402300800"
  shows "length (get_date_http_str t) = 29 \<and> parse_http_date (get_date_http_str t) = t
    \<and> take 3 (get_date_http_str t) = day_names ! ((t div 86400 + 4) mod 7)
    \<and> length (now_time t) = 19 \<and> parse_log_time (now_time t) = t"
proof -
  obtain y mon mday where tm: "gmtime_r t = \<lparr>tm_sec = t mod 86400 mod 60, tm_min = t mod 86400 div 60 mod 60, tm_hour = t mod 86400 div 3600,
      tm_mday = mday + 1, tm_mon = mon, tm_year = y - 1900, tm_wday = (t div 86400 + 4) mod 7\<rparr>"
    and y: "1970 \<le> y" "y < 10000" and mon: "mon < 12" and mday: "mday < month_lengths y ! mon"
    and days: "t div 86400 = days_before y + sum_list (take mon (month_lengths y)) + mday"
    using gmtime_r_spec [OF assms] by blast
  have len: "length (day_names ! ((t div 86400 + 4) mod 7)) = 3" "length (month_names ! mon) = 3"
    by (rule name_lengths(1), simp) (rule name_lengths(2) [OF mon])
  define h mi s where "h = t mod 86400 div 3600" "mi = t mod 86400 div 60 mod 60" "s = t mod 86400 mod 60"
  have date: "get_date_http_str t = day_names ! ((t div 86400 + 4) mod 7) @ '', '' @ two_digits (Suc mday) @ '' '' @ month_names ! mon @ '' ''
      @ to_dec y @ '' '' @ (two_digits h @ '':'' @ two_digits mi @ '':'' @ two_digits s) @ '' GMT''"
    using y(1) by (simp add: get_date_http_str_def now_time_to_str_gmt_def tm conversion_def h_mi_s_def)
  have "distinct month_names" "length month_names = 12" by (simp_all add: month_names_def)
  then have index: "index_of (month_names ! mon) month_names = mon" using index_of_nth mon by metis
  have stamp: "now_time t = to_dec y @ ''-'' @ two_digits (Suc mon) @ ''-'' @ two_digits (Suc mday) @ '' ''
      @ (two_digits h @ '':'' @ two_digits mi @ '':'' @ two_digits s)"
    using y(1) by (simp add: now_time_def now_time_to_str_gmt_def tm conversion_def h_mi_s_def)
  have "mday < 31" using mday mon by (auto simp: month_lengths_def less_Suc_eq eval_nat_numeral split: if_splits)
  moreover have "h < 24" by (simp add: h_mi_s_def div_less_iff_less_mult)
  moreover have "mi < 60" "s < 60" by (simp_all add: h_mi_s_def)
  ultimately have "length (get_date_http_str t) = 29" "length (now_time t) = 19" using y len mon by (simp_all add: date stamp length_to_dec)
  moreover have "parse_http_date (get_date_http_str t) = seconds_of y mon (Suc mday) h mi s"
    using len index by (simp add: parse_http_date_def date read_two_digits read_to_dec no_digit)
  moreover have "parse_log_time (now_time t) = seconds_of y mon (Suc mday) h mi s"
    using read_two_digits [of "[]" s] by (simp add: parse_log_time_def stamp read_two_digits read_to_dec no_digit)
  moreover have "seconds_of y mon (Suc mday) h mi s = t"
    unfolding h_mi_s_def seconds_of_time using days div_mult_mod_eq [of t 86400] by (metis diff_Suc_1)
  ultimately show ?thesis using len(1) by (simp add: date)
qed

lemma gmtime_example: "gmtime_r 784111777 =
    \<lparr>tm_sec = 37, tm_min = 49, tm_hour = 8, tm_mday = 6, tm_mon = 10, tm_year = 94, tm_wday = 0\<rparr>"
  by (simp add: gmtime_r_def year_loop.simps days_in_year_def leap_def month_lengths_def)

theorem http_date_names_second_witness:
  "get_date_http_str 784111777 = ''Sun, 06 Nov 1994 08:49:37 GMT'' \<and> parse_http_date ''Sun, 06 Nov 1994 08:49:37 GMT'' = 784111777"
proof -
  have "get_date_http_str 784111777 = ''Sun, 06 Nov 1994 08:49:37 GMT''"
    by (simp add: get_date_http_str_def now_time_to_str_gmt_def gmtime_example conversion_def two_digits_def to_dec.simps
        day_names_def month_names_def digit_char_def)
  with http_date_names_second [of 784111777] show ?thesis by simp
qed

end
