(* ===== verification/LogCalls.thy ===== *)
theory LogCalls imports Logging GmTime Demo begin

text \<open>
  The calls of a logger in one thread: the functions of \<open>BaseLogger\<close> for the levels, \<open>flush\<close>, and the
  static functions of the global \<open>Logger\<close>. A stream keeps in a buffer what was inserted until it is
  flushed; the line is inserted from left to right, so the bracket is there before \<open>now_time\<close> runs,
  and \<open>now_time\<close> throws when the locale of the time stamp is not installed.
\<close>

section \<open>Streams\<close>

text \<open>
  What has surely left a stream, and what may still be in its buffer; the clock at each reading; the text
  of the exception of \<open>std::locale\<close>, when it throws; the files that can be opened.
\<close>

record open_logger = logger +
  lg_good :: bool

record log_world =
  shown :: "sink \<Rightarrow> string"
  pending :: "sink \<Rightarrow> string"
  clock_at :: "nat \<Rightarrow> nat"
  readings :: nat
  locale_error :: "string option"
  can_open :: "string \<Rightarrow> bool"
  global_ptr :: open_logger

type_synonym 'a logging = "log_world \<Rightarrow> 'a demo \<times> log_world"

definition log_bind :: "'a logging \<Rightarrow> ('a \<Rightarrow> 'b logging) \<Rightarrow> 'b logging" where
  "log_bind m f w = (case m w of
     (Demo_value x, w) \<Rightarrow> f x w
   | (Demo_threw e, w) \<Rightarrow> (Demo_threw e, w)
   | (Demo_waits, w) \<Rightarrow> (Demo_waits, w))"

definition log_do :: "(log_world \<Rightarrow> log_world) \<Rightarrow> unit logging" where
  "log_do f w = (Demo_value (), f w)"

definition flush_stream :: "sink \<Rightarrow> log_world \<Rightarrow> log_world" where
  "flush_stream k w = w\<lparr>shown := (shown w)(k := shown w k @ pending w k), pending := (pending w)(k := [])\<rparr>"

text \<open>\<open>std::cerr\<close> flushes after every output; an \<open>ofstream\<close> that was not opened drops what is inserted.\<close>

definition insert_text :: "open_logger \<Rightarrow> string \<Rightarrow> log_world \<Rightarrow> log_world" where
  "insert_text l x w =
     (let k = lg_sink l; w' = w\<lparr>pending := (pending w)(k := pending w k @ x)\<rparr>
      in if \<not> lg_good l then w else if k = Stderr then flush_stream k w' else w')"

section \<open>A logger\<close>

definition get_level :: "('a) logger_scheme \<Rightarrow> log_level" where
  "get_level l = lg_level l"

definition logger_flush :: "open_logger \<Rightarrow> unit logging" where
  "logger_flush l = log_do (if lg_good l then flush_stream (lg_sink l) else id)"

definition read_now_time :: "string logging" where
  "read_now_time w =
     (let time = clock_at w (readings w); w = w\<lparr>readings := Suc (readings w)\<rparr>
      in case locale_error w of Some what \<Rightarrow> (Demo_threw what, w) | None \<Rightarrow> (Demo_value (now_time time), w))"

text \<open>\<open>std::endl\<close> inserts the newline and flushes.\<close>

definition put_line :: "open_logger \<Rightarrow> string \<Rightarrow> string \<Rightarrow> unit logging" where
  "put_line l name msg =
     log_bind (log_do (insert_text l ''['')) (\<lambda>_. log_bind read_now_time (\<lambda>now.
     log_bind (log_do (fold (insert_text l) (tl (log_to_ostream now name msg)))) (\<lambda>_. logger_flush l)))"

definition logger_log :: "open_logger \<Rightarrow> string \<Rightarrow> log_level \<Rightarrow> unit logging" where
  "logger_log l msg level = (if level \<le> get_level l then put_line l (level_name level) msg else log_do id)"

definition logger_trace :: "open_logger \<Rightarrow> string \<Rightarrow> unit logging" where "logger_trace l msg = logger_log l msg TRACE"
definition logger_debug :: "open_logger \<Rightarrow> string \<Rightarrow> unit logging" where "logger_debug l msg = logger_log l msg DEBUG"
definition logger_info :: "open_logger \<Rightarrow> string \<Rightarrow> unit logging" where "logger_info l msg = logger_log l msg INFO"
definition logger_warn :: "open_logger \<Rightarrow> string \<Rightarrow> unit logging" where "logger_warn l msg = logger_log l msg WARN"
definition logger_error :: "open_logger \<Rightarrow> string \<Rightarrow> unit logging" where "logger_error l msg = logger_log l msg ERROR"
definition logger_crit :: "open_logger \<Rightarrow> string \<Rightarrow> unit logging" where "logger_crit l msg = logger_log l msg CRIT"
definition logger_fatal :: "open_logger \<Rightarrow> string \<Rightarrow> unit logging" where "logger_fatal l msg = logger_log l msg FATAL"

text \<open>
  The standard streams are open from the start. A file is opened for \<open>std::ios::out\<close>, so its old text is
  gone; one logger at a time has it open. The destructor of the \<open>ofstream\<close> writes the buffer out.
\<close>

definition std_logger :: "logger \<Rightarrow> open_logger" where
  "std_logger l = logger.extend l \<lparr>lg_good = True\<rparr>"

definition open_FileLogger :: "string \<Rightarrow> open_logger logging" where
  "open_FileLogger name w =
     (let l = logger.extend (FileLogger name) \<lparr>lg_good = can_open w name\<rparr>; k = Ofstream name
      in (Demo_value l, if can_open w name then w\<lparr>shown := (shown w)(k := []), pending := (pending w)(k := [])\<rparr> else w))"

definition destroy_logger :: "open_logger \<Rightarrow> log_world \<Rightarrow> log_world" where
  "destroy_logger l w = (case lg_sink l of Ofstream name \<Rightarrow> if lg_good l then flush_stream (Ofstream name) w else w | _ \<Rightarrow> w)"

section \<open>The global logger\<close>

definition global_trace :: "string \<Rightarrow> unit logging" where "global_trace msg w = logger_trace (global_ptr w) msg w"
definition global_debug :: "string \<Rightarrow> unit logging" where "global_debug msg w = logger_debug (global_ptr w) msg w"
definition global_info :: "string \<Rightarrow> unit logging" where "global_info msg w = logger_info (global_ptr w) msg w"
definition global_warn :: "string \<Rightarrow> unit logging" where "global_warn msg w = logger_warn (global_ptr w) msg w"
definition global_error :: "string \<Rightarrow> unit logging" where "global_error msg w = logger_error (global_ptr w) msg w"
definition global_fatal :: "string \<Rightarrow> unit logging" where "global_fatal msg w = logger_fatal (global_ptr w) msg w"

text \<open>The pointers are swapped, and the logger that was global goes with the argument.\<close>

definition set_global_logger :: "open_logger \<Rightarrow> unit logging" where
  "set_global_logger new = log_do (\<lambda>w. destroy_logger (global_ptr w) (w\<lparr>global_ptr := new\<rparr>))"

text \<open>A program starts with a \<open>StdoutLogger\<close> as the global one.\<close>

definition log_program :: "(nat \<Rightarrow> nat) \<Rightarrow> string option \<Rightarrow> (string \<Rightarrow> bool) \<Rightarrow> log_world" where
  "log_program clock le can = \<lparr>shown = (\<lambda>_. []), pending = (\<lambda>_. []), clock_at = clock, readings = 0,
     locale_error = le, can_open = can, global_ptr = std_logger StdoutLogger\<rparr>"

section \<open>Lemmas\<close>

lemma flush_stream_simps [simp]:
  "shown (flush_stream k w) = (shown w)(k := shown w k @ pending w k)" "pending (flush_stream k w) = (pending w)(k := [])"
  "clock_at (flush_stream k w) = clock_at w" "readings (flush_stream k w) = readings w"
  "locale_error (flush_stream k w) = locale_error w" "can_open (flush_stream k w) = can_open w"
  "global_ptr (flush_stream k w) = global_ptr w"
  by (simp_all add: flush_stream_def)

text \<open>What a stream holds, in its buffer or not.\<close>

definition all_text :: "log_world \<Rightarrow> sink \<Rightarrow> string" where
  "all_text w k = shown w k @ pending w k"

definition same_streams :: "log_world \<Rightarrow> log_world \<Rightarrow> bool" where
  "same_streams w w' \<longleftrightarrow> clock_at w' = clock_at w \<and> readings w' = readings w \<and> locale_error w' = locale_error w
     \<and> can_open w' = can_open w \<and> global_ptr w' = global_ptr w"

lemma insert_text_all:
  "all_text (insert_text l x w) = (if lg_good l then (all_text w)(lg_sink l := all_text w (lg_sink l) @ x) else all_text w)"
  by (simp add: insert_text_def Let_def all_text_def fun_eq_iff)

lemma flush_all: "all_text (flush_stream k w) = all_text w"
  by (simp add: all_text_def fun_eq_iff)

lemma fold_insert_text:
  "all_text (fold (insert_text l) xs w) =
     (if lg_good l then (all_text w)(lg_sink l := all_text w (lg_sink l) @ concat xs) else all_text w)"
  by (induction xs arbitrary: w) (simp_all add: insert_text_all)

lemma insert_text_other:
  "same_streams w (insert_text l x w)" "k \<noteq> lg_sink l \<or> \<not> lg_good l \<Longrightarrow> shown (insert_text l x w) k = shown w k"
  "k \<noteq> lg_sink l \<or> \<not> lg_good l \<Longrightarrow> pending (insert_text l x w) k = pending w k"
  by (auto simp: insert_text_def Let_def same_streams_def)

lemma same_streams_trans: "same_streams w v \<Longrightarrow> same_streams v u \<Longrightarrow> same_streams w u"
  by (simp add: same_streams_def)

lemma fold_insert_text_other:
  "same_streams w (fold (insert_text l) xs w)
   \<and> (k \<noteq> lg_sink l \<or> \<not> lg_good l \<longrightarrow> shown (fold (insert_text l) xs w) k = shown w k \<and> pending (fold (insert_text l) xs w) k = pending w k)"
proof (induction xs arbitrary: w)
  case Nil
  show ?case by (simp add: same_streams_def)
next
  case (Cons x xs)
  show ?case
    using Cons.IH [of "insert_text l x w"] insert_text_other [where l = l and x = x and w = w]
    by (auto intro: same_streams_trans)
qed

text \<open>With the locale, a line whose level passes has left its stream whole when the call returns.\<close>

lemma put_line_value:
  assumes "locale_error w = None" "put_line l name msg w = (r, w')"
  shows "r = Demo_value ()" "readings w' = Suc (readings w)" "clock_at w' = clock_at w" "locale_error w' = None"
    "can_open w' = can_open w" "global_ptr w' = global_ptr w"
    "lg_good l \<Longrightarrow> shown w' = (shown w)(lg_sink l := all_text w (lg_sink l) @
        concat (log_to_ostream (now_time (clock_at w (readings w))) name msg))"
    "lg_good l \<Longrightarrow> pending w' = (pending w)(lg_sink l := [])"
    "\<not> lg_good l \<Longrightarrow> shown w' = shown w \<and> pending w' = pending w"
proof -
  let ?w1 = "insert_text l ''['' w"
  let ?w2 = "?w1\<lparr>readings := Suc (readings ?w1)\<rparr>"
  let ?t = "now_time (clock_at w (readings w))"
  let ?w3 = "fold (insert_text l) (tl (log_to_ostream ?t name msg)) ?w2"
  have same: "same_streams w ?w1" by (rule insert_text_other)
  have run: "put_line l name msg w = (Demo_value (), if lg_good l then flush_stream (lg_sink l) ?w3 else ?w3)"
    using same assms(1)
    by (simp add: put_line_def log_bind_def log_do_def read_now_time_def logger_flush_def Let_def same_streams_def)
  have same3: "same_streams ?w2 ?w3" using fold_insert_text_other by blast
  from run assms(2) show "r = Demo_value ()" "readings w' = Suc (readings w)" "clock_at w' = clock_at w" "locale_error w' = None"
    "can_open w' = can_open w" "global_ptr w' = global_ptr w"
    using same same3 assms(1) by (auto simp: same_streams_def)
  have all2: "all_text ?w2 = all_text ?w1" by (simp add: all_text_def fun_eq_iff)
  show "shown w' = (shown w)(lg_sink l := all_text w (lg_sink l) @ concat (log_to_ostream ?t name msg))" if good: "lg_good l"
  proof
    fix k
    have w': "w' = flush_stream (lg_sink l) ?w3" using run assms(2) good by simp
    have "all_text w' (lg_sink l) = all_text w (lg_sink l) @ concat (log_to_ostream ?t name msg)"
      unfolding w' flush_all fold_insert_text all2 insert_text_all using good by (simp add: log_to_ostream_def)
    moreover have "all_text w' (lg_sink l) = shown w' (lg_sink l)" using w' by (simp add: all_text_def)
    moreover have "shown w' k = shown w k" if "k \<noteq> lg_sink l"
      using that w' fold_insert_text_other [where k = k and l = l and w = ?w2] insert_text_other(2) [of k l "''[''" w] by simp
    ultimately show "shown w' k = ((shown w)(lg_sink l := all_text w (lg_sink l) @ concat (log_to_ostream ?t name msg))) k"
      by simp
  qed
  show "pending w' = (pending w)(lg_sink l := [])" if good: "lg_good l"
    using run assms(2) good fold_insert_text_other [where l = l and w = ?w2] insert_text_other(3) [of _ l "''[''" w] by (auto simp: fun_eq_iff)
  show "shown w' = shown w \<and> pending w' = pending w" if "\<not> lg_good l"
    using run assms(2) that fold_insert_text_other [where l = l and w = ?w2] insert_text_other(2,3) [of _ l "''[''" w] by (auto simp: fun_eq_iff)
qed

lemma put_line_threw:
  assumes "locale_error w = Some e"
  shows "put_line l name msg w = (Demo_threw e, (insert_text l ''['' w)\<lparr>readings := Suc (readings w)\<rparr>)"
  using assms insert_text_other(1) [of w l "''[''"]
  by (simp add: put_line_def log_bind_def log_do_def read_now_time_def Let_def same_streams_def)

section \<open>Calls among threads\<close>

text \<open>
  A call that is not interrupted is one run of the threads' steps: the thread begins the line, writes
  every piece and returns, and the streams hold the same text after both.
\<close>

lemma write_alone:
  assumes "thread_states s t = Idle" "i \<in> direct s" "loggers s i = Some l" "mutexes s i = None"
    and "log_msg now msg level l = Some ps"
  shows "\<exists>s'. log_run s [(lg_sink l, concat ps)] s' \<and> streams s' = (streams s)(lg_sink l := streams s (lg_sink l) @ concat ps)
    \<and> thread_states s' = thread_states s"
proof -
  let ?b = "begin_writing t i l ps False s"
  have "log_run s [(lg_sink l, concat ps)] ?b"
    using Step [OF Start Call [OF assms(1-3,5)]] assms(4) by simp
  from write_and_return [OF _ _ this, of t i ps l] assms(1,3) show ?thesis
    by (auto simp: fun_upd_idem)
qed

lemma logger_call_is_run:
  assumes "lg_good l" "locale_error w = None" "logger_log l msg level w = (r, w')"
    and "thread_states s t = Idle" "i \<in> direct s" "loggers s i = Some (logger.truncate l)" "mutexes s i = None"
    and "streams s = all_text w"
  shows "\<exists>es s'. log_run s es s' \<and> streams s' = all_text w' \<and> thread_states s' = thread_states s"
proof (cases "level \<le> lg_level l")
  case False
  then have "w' = w" using assms(3) by (simp add: logger_log_def get_level_def log_do_def)
  then show ?thesis using Start [of s] assms(8) by blast
next
  case True
  let ?t = "now_time (clock_at w (readings w))"
  let ?ps = "log_to_ostream ?t (level_name level) msg"
  have m: "log_msg ?t msg level (logger.truncate l) = Some ?ps" and k: "lg_sink (logger.truncate l) = lg_sink l"
    using True by (simp_all add: log_msg_def logger.truncate_def)
  have "put_line l (level_name level) msg w = (r, w')" using assms(3) True by (simp add: logger_log_def get_level_def)
  note put = put_line_value [OF assms(2) this]
  have "all_text w' = (all_text w)(lg_sink l := all_text w (lg_sink l) @ concat ?ps)"
    using put(7,8) assms(1) by (auto simp: all_text_def [of w'] all_text_def [of w] fun_eq_iff)
  with write_alone [OF assms(4-7) m] k assms(8) show ?thesis by auto
qed

section \<open>Property\<close>

text \<open>
  C37: One call of a logger whose stream is open: below its level it does nothing; else, with the locale of
  the time stamp, what was buffered and the line, with the time of the clock, have left the stream when
  the call returns, and no other stream is touched; without the locale it throws the exception of
  \<open>std::locale\<close>, and the opening bracket stays on the stream.
\<close>

theorem logger_call_outcomes:
  assumes "lg_good l"
  shows "let (r, w') = logger_log l msg level w; k = lg_sink l in
    (case (log_msg (now_time (clock_at w (readings w))) msg level (logger.truncate l), locale_error w) of
       (None, _) \<Rightarrow> r = Demo_value () \<and> w' = w
     | (Some pieces, None) \<Rightarrow> r = Demo_value () \<and> pending w' k = [] \<and> shown w' = (shown w)(k := all_text w k @ concat pieces)
     | (Some pieces, Some e) \<Rightarrow> r = Demo_threw e \<and> all_text w' = (all_text w)(k := all_text w k @ ''[''))"
proof (cases "level \<le> lg_level l")
  case True
  let ?t = "now_time (clock_at w (readings w))"
  have m: "log_msg ?t msg level (logger.truncate l) = Some (log_to_ostream ?t (level_name level) msg)"
    using True by (simp add: log_msg_def logger.truncate_def)
  obtain r w' where run: "put_line l (level_name level) msg w = (r, w')" by fastforce
  show ?thesis
  proof (cases "locale_error w")
    case None
    from put_line_value [OF None run] assms True m run None show ?thesis
      by (simp add: logger_log_def get_level_def)
  next
    case (Some e)
    have "all_text ((insert_text l ''['' w)\<lparr>readings := Suc (readings w)\<rparr>) = all_text (insert_text l ''['' w)"
      by (simp add: all_text_def fun_eq_iff)
    with True m put_line_threw [OF Some] Some assms show ?thesis
      by (simp add: logger_log_def get_level_def insert_text_all)
  qed
qed (simp add: logger_log_def get_level_def log_msg_def logger.truncate_def log_do_def)

theorem logger_call_outcomes_witness:
  "fst (logger_log (std_logger StdoutLogger) ''KEK'' ERROR (log_program (\<lambda>_. 0) (Some ''no locale'') (\<lambda>_. False))) = Demo_threw ''no locale''
   \<and> all_text (snd (logger_log (std_logger StdoutLogger) ''KEK'' ERROR (log_program (\<lambda>_. 0) (Some ''no locale'') (\<lambda>_. False)))) Stdout = ''[''"
proof -
  have "lg_good (std_logger StdoutLogger)" by (simp add: std_logger_def logger.extend_def)
  from logger_call_outcomes [OF this, of "''KEK''" ERROR "log_program (\<lambda>_. 0) (Some ''no locale'') (\<lambda>_. False)"]
  show ?thesis
    by (auto simp: log_msg_def logger.truncate_def logger.extend_def std_logger_def StdoutLogger_def BaseLogger_def less_eq_log_level_def
        log_program_def all_text_def [of "log_world.make _ _ _ _ _ _ _", unfolded log_world.make_def] Let_def split: prod.splits)
qed

end
