(* ===== verification/DemoLog.thy ===== *)
theory DemoLog imports LogCalls begin

text \<open>
  \<open>hw2_test\<close> of \<open>src/utils.cpp\<close>: a logger on the standard output whose level is raised, one on a file,
  and the global logger, which is replaced twice.
\<close>

section \<open>The test\<close>

text \<open>The destructor of a local logger runs however its scope is left.\<close>

definition log_scope :: "open_logger \<Rightarrow> 'a logging \<Rightarrow> 'a logging" where
  "log_scope l body w = (let (r, w') = body w in (r, destroy_logger l w'))"

definition hw2_global_text :: string where
  "hw2_global_text = ''THIS IS DISPLAYED BY GLOBAL LOGGER''"

definition hw2_new_text :: string where
  "hw2_new_text = ''THIS IS DISPLAYED BY NEW GLOBAL LOGGER''"

definition hw2_header :: string where
  "hw2_header = ''---------hw2 test---------'' @ [CHR 0x0A]"

definition hw2_globals :: "unit logging" where
  "hw2_globals =
     log_bind (global_warn hw2_global_text) (\<lambda>_.
     log_bind (open_FileLogger ''test2.log'') (\<lambda>l. log_bind (set_global_logger l) (\<lambda>_.
     log_bind (global_warn hw2_global_text) (\<lambda>_.
     log_bind (set_global_logger (std_logger StderrLogger)) (\<lambda>_.
     global_warn hw2_new_text)))))"

definition hw2_test :: "unit logging" where
  "hw2_test =
     (let cout = std_logger StdoutLogger; log = std_logger StdoutLogger; raised = log\<lparr>lg_level := ERROR\<rparr>
      in log_bind (log_do (flush_stream Stdout \<circ> insert_text cout hw2_header)) (\<lambda>_.
         log_bind (logger_info log ''KEK'') (\<lambda>_. log_bind (logger_flush log) (\<lambda>_.
         log_bind (logger_info raised ''THIS TEXT CANNOT BE DISPLAYED'') (\<lambda>_.
         log_bind (open_FileLogger ''test.log'') (\<lambda>filelog. log_scope filelog
           (log_bind (logger_error filelog ''KEK'') (\<lambda>_. hw2_globals))))))))"

section \<open>Property\<close>

definition log_line :: "nat \<Rightarrow> log_level \<Rightarrow> string \<Rightarrow> string" where
  "log_line time level msg = concat (log_to_ostream (now_time time) (level_name level) msg)"

text \<open>The streams after a call of a logger whose level lets the message pass.\<close>

definition line_put :: "open_logger \<Rightarrow> log_level \<Rightarrow> string \<Rightarrow> log_world \<Rightarrow> log_world" where
  "line_put l level msg w = w\<lparr>readings := Suc (readings w),
     shown := (if lg_good l then (shown w)(lg_sink l := all_text w (lg_sink l) @ log_line (clock_at w (readings w)) level msg) else shown w),
     pending := (if lg_good l then (pending w)(lg_sink l := []) else pending w)\<rparr>"

lemma line_put_simps [simp]:
  "readings (line_put l level msg w) = Suc (readings w)" "clock_at (line_put l level msg w) = clock_at w"
  "locale_error (line_put l level msg w) = locale_error w" "can_open (line_put l level msg w) = can_open w"
  "global_ptr (line_put l level msg w) = global_ptr w"
  "shown (line_put l level msg w) = (if lg_good l then (shown w)(lg_sink l := all_text w (lg_sink l) @ log_line (clock_at w (readings w)) level msg) else shown w)"
  "pending (line_put l level msg w) = (if lg_good l then (pending w)(lg_sink l := []) else pending w)"
  by (simp_all add: line_put_def)

lemma logger_log_put:
  assumes "locale_error w = None" "level \<le> lg_level l"
  shows "logger_log l msg level w = (Demo_value (), line_put l level msg w)"
proof -
  obtain r w' where run: "put_line l (level_name level) msg w = (r, w')" by fastforce
  note v = put_line_value [OF assms(1) run]
  have "w' = line_put l level msg w"
    using v assms(1) by (cases "lg_good l") (auto intro!: log_world.equality simp: log_line_def)
  with run v(1) assms(2) show ?thesis by (simp add: logger_log_def get_level_def)
qed

lemma logger_log_skip: "\<not> level \<le> lg_level l \<Longrightarrow> logger_log l msg level w = (Demo_value (), w)"
  by (simp add: logger_log_def get_level_def log_do_def)

lemma std_logger_simps [simp]:
  "lg_good (std_logger l)" "lg_sink (std_logger l) = lg_sink l" "lg_level (std_logger l) = lg_level l"
  by (simp_all add: std_logger_def logger.extend_def)

lemma std_loggers [simp]:
  "lg_level StdoutLogger = INFO" "lg_sink StdoutLogger = Stdout" "lg_level StderrLogger = INFO" "lg_sink StderrLogger = Stderr"
  by (simp_all add: StdoutLogger_def StderrLogger_def BaseLogger_def)

definition opened_file :: "string \<Rightarrow> bool \<Rightarrow> open_logger" where
  "opened_file name ok = logger.extend (FileLogger name) \<lparr>lg_good = ok\<rparr>"

lemma opened_file_simps [simp]:
  "lg_level (opened_file name ok) = INFO" "lg_sink (opened_file name ok) = Ofstream name" "lg_good (opened_file name ok) = ok"
  by (simp_all add: opened_file_def FileLogger_def BaseLogger_def logger.extend_def)

definition opened_world :: "string \<Rightarrow> log_world \<Rightarrow> log_world" where
  "opened_world name w = snd (open_FileLogger name w)"

lemma open_FileLogger_run: "open_FileLogger name w = (Demo_value (opened_file name (can_open w name)), opened_world name w)"
  by (simp add: opened_world_def open_FileLogger_def opened_file_def Let_def)

lemma opened_world_simps [simp]:
  "readings (opened_world name w) = readings w" "clock_at (opened_world name w) = clock_at w"
  "locale_error (opened_world name w) = locale_error w" "can_open (opened_world name w) = can_open w"
  "global_ptr (opened_world name w) = global_ptr w"
  "shown (opened_world name w) = (if can_open w name then (shown w)(Ofstream name := []) else shown w)"
  "pending (opened_world name w) = (if can_open w name then (pending w)(Ofstream name := []) else pending w)"
  by (simp_all add: opened_world_def open_FileLogger_def Let_def)

text \<open>A logger whose stream has an empty buffer leaves nothing behind.\<close>

lemma destroy_flushed:
  assumes "pending w (lg_sink l) = []"
  shows "destroy_logger l w = w"
proof -
  have "flush_stream (lg_sink l) w = w" using assms by (auto intro!: log_world.equality simp: fun_eq_iff)
  then show ?thesis by (cases "lg_sink l") (simp_all add: destroy_logger_def)
qed

definition header_world :: "log_world \<Rightarrow> log_world" where
  "header_world w = flush_stream Stdout (insert_text (std_logger StdoutLogger) hw2_header w)"

lemma header_world_simps [simp]:
  "readings (header_world w) = readings w" "clock_at (header_world w) = clock_at w"
  "locale_error (header_world w) = locale_error w" "can_open (header_world w) = can_open w"
  "global_ptr (header_world w) = global_ptr w"
  "shown (header_world w) = (shown w)(Stdout := all_text w Stdout @ hw2_header)"
  "pending (header_world w) = (pending w)(Stdout := [])"
  by (simp_all add: header_world_def insert_text_def Let_def all_text_def)

lemma log_program_simps [simp]:
  "shown (log_program clock le can) = (\<lambda>_. [])" "pending (log_program clock le can) = (\<lambda>_. [])"
  "clock_at (log_program clock le can) = clock" "readings (log_program clock le can) = 0"
  "locale_error (log_program clock le can) = le" "can_open (log_program clock le can) = can"
  "global_ptr (log_program clock le can) = std_logger StdoutLogger"
  by (simp_all add: log_program_def)

lemma level_facts: "ERROR \<le> INFO" "\<not> INFO \<le> ERROR" "WARN \<le> INFO" "INFO \<le> INFO"
  by (simp_all add: less_eq_log_level_def)

lemmas logging_calls = log_bind_def log_do_def log_scope_def logger_info_def logger_error_def logger_warn_def global_warn_def
  set_global_logger_def open_FileLogger_run logger_flush_def level_facts Let_def

definition hw2_worlds :: "log_world \<Rightarrow> log_world" where
  "hw2_worlds w =
     (let w1 = line_put (std_logger StdoutLogger) INFO ''KEK'' (header_world w);
          w2 = line_put (opened_file ''test.log'' (can_open w ''test.log'')) ERROR ''KEK'' (opened_world ''test.log'' w1);
          w3 = line_put (std_logger StdoutLogger) WARN hw2_global_text w2;
          l = opened_file ''test2.log'' (can_open w ''test2.log'');
          w4 = line_put l WARN hw2_global_text ((opened_world ''test2.log'' w3)\<lparr>global_ptr := l\<rparr>)
      in line_put (std_logger StderrLogger) WARN hw2_new_text (w4\<lparr>global_ptr := std_logger StderrLogger\<rparr>))"

lemma hw2_test_run:
  "hw2_test (log_program clock None can) = (Demo_value (), hw2_worlds (log_program clock None can))"
proof -
  have flush: "flush_stream k w = w" if "pending w k = []" for k w
    using that by (auto intro!: log_world.equality simp: fun_eq_iff)
  show ?thesis
    unfolding hw2_test_def hw2_worlds_def hw2_globals_def Let_def
    by (simp add: logging_calls logger_log_put logger_log_skip destroy_flushed flush header_world_def [symmetric])
qed

text \<open>
  The test of the loggers, in a program that starts with it and has the locale: it returns; the standard
  output holds its header, the first message and that of the first global logger, but not the message below
  the raised level; each file that could be opened holds its one line and one that could not holds nothing;
  the last message is on the standard error output. Nothing is left in a buffer.
\<close>

theorem hw2_lines:
  assumes "hw2_test (log_program clock None can) = (r, w)"
  shows "r = Demo_value ()
    \<and> shown w Stdout = hw2_header @ log_line (clock 0) INFO ''KEK'' @ log_line (clock 2) WARN hw2_global_text
    \<and> shown w (Ofstream ''test.log'') = (if can ''test.log'' then log_line (clock 1) ERROR ''KEK'' else [])
    \<and> shown w (Ofstream ''test2.log'') = (if can ''test2.log'' then log_line (clock 3) WARN hw2_global_text else [])
    \<and> shown w Stderr = log_line (clock 4) WARN hw2_new_text
    \<and> pending w = (\<lambda>_. [])"
proof -
  have w: "r = Demo_value ()" "w = hw2_worlds (log_program clock None can)" using assms by (simp_all add: hw2_test_run)
  have "pending w k = []" for k unfolding w(2) by (simp add: hw2_worlds_def Let_def all_text_def)
  then show ?thesis unfolding w by (simp add: fun_eq_iff) (simp add: hw2_worlds_def Let_def all_text_def numeral_eq_Suc)
qed

theorem hw2_lines_witness:
  "shown (snd (hw2_test (log_program (\<lambda>_. 784111777) None (\<lambda>f. f = ''test.log'')))) (Ofstream ''test.log'') =
     ''[1994-11-06 08:49:37] [ERROR] KEK'' @ [CHR 0x0A]"
proof -
  let ?run = "hw2_test (log_program (\<lambda>_. 784111777) None (\<lambda>f. f = ''test.log''))"
  have "log_line 784111777 ERROR ''KEK'' = ''[1994-11-06 08:49:37] [ERROR] KEK'' @ [CHR 0x0A]"
    by (simp add: log_line_def log_to_ostream_def now_time_def now_time_to_str_gmt_def gmtime_example conversion_def two_digits_def
        to_dec.simps digit_char_def)
  moreover have "?run = (fst ?run, snd ?run)" by simp
  from hw2_lines [OF this] have "shown (snd ?run) (Ofstream ''test.log'') = log_line 784111777 ERROR ''KEK''" by simp
  ultimately show ?thesis by simp
qed

end
