(* ===== verification/TcpSync.thy ===== *)
theory TcpSync imports TcpErrors ExactIO begin

text \<open>
  \<open>tcpcon/sync\<close>: the blocking TCP connection and its server. The answers of the socket calls are
  arguments. When a constructor throws, the descriptor it holds is closed by the destructor of that
  member; the calls that close descriptors are part of the result.
\<close>

section \<open>The connection\<close>

record sync_connection =
  sock_fd :: descriptor
  dst_addr :: string
  src_addr :: string
  dst_port :: "16 word"
  src_port :: "16 word"
  readable :: bool

definition sync_init :: "descriptor \<Rightarrow> string \<Rightarrow> 16 word \<Rightarrow> sync_connection" where
  "sync_init d addr port =
     \<lparr>sock_fd = d, dst_addr = addr, src_addr = [], dst_port = port, src_port = 0, readable = True\<rparr>"

definition sync_is_opened :: "sync_connection \<Rightarrow> bool" where
  "sync_is_opened c \<longleftrightarrow> is_valid (sock_fd c)"

text \<open>\<open>getsockname\<close> answers an address and a port.\<close>

definition sync_set_src_endpoint :: "(string \<times> 16 word) sys_answer \<Rightarrow> sync_connection \<Rightarrow> tcp_exn + sync_connection" where
  "sync_set_src_endpoint getsockname c =
     (case getsockname of
        Inl err \<Rightarrow> Inl (throw_tcp IoServiceError (''cannot get info about self endpoint, sock_fd='' @ tcp_fd_text (sock_fd c)) err)
      | Inr (addr, port) \<Rightarrow> Inr (c\<lparr>src_addr := addr, src_port := port\<rparr>))"

text \<open>A constructor that ends in an exception drops its descriptor.\<close>

definition or_close :: "descriptor \<Rightarrow> 'e + 'a \<Rightarrow> ('e + 'a) \<times> sys_call list" where
  "or_close d r = (r, case r of Inl e \<Rightarrow> descriptor_destroy d | Inr x \<Rightarrow> [])"

definition sync_Connection ::
  "int sys_answer \<Rightarrow> bool \<Rightarrow> unit sys_answer \<Rightarrow> (string \<times> 16 word) sys_answer \<Rightarrow> string \<Rightarrow> 16 word
    \<Rightarrow> (tcp_exn + sync_connection) \<times> sys_call list" where
  "sync_Connection socket pton_ok connect getsockname ip port =
     (let fd = new_socket socket in
      or_close fd
       (if \<not> is_valid fd then Inl (throw_tcp IoServiceError ''cannot create IPV4 socket'' (err_of socket))
        else if \<not> pton_ok then Inl (throw_tcp InvalidAddressError (''invalid ip address, ip='' @ ip) 0)
        else if failed connect
          then Inl (throw_tcp ConnOpenError (''cannot connect to, addr='' @ ip @ '', port='' @ to_dec (unat port)) (err_of connect))
        else sync_set_src_endpoint getsockname (sync_init fd ip port)))"

definition sync_accepted ::
  "(string \<times> 16 word) sys_answer \<Rightarrow> descriptor \<Rightarrow> string \<Rightarrow> 16 word \<Rightarrow> (tcp_exn + sync_connection) \<times> sys_call list" where
  "sync_accepted getsockname endpoint addr port =
     or_close endpoint (sync_set_src_endpoint getsockname (sync_init endpoint addr port))"

definition sync_to_string :: "sync_connection \<Rightarrow> string" where
  "sync_to_string c =
     ''{'' @ [CHR 0x22] @ ''dst_addr'' @ [CHR 0x22] @ ''='' @ [CHR 0x22] @ dst_addr c
     @ [CHR 0x22] @ '','' @ [CHR 0x22] @ ''dst_port'' @ [CHR 0x22] @ ''='' @ to_dec (unat (dst_port c))
     @ '','' @ [CHR 0x22] @ ''src_addr'' @ [CHR 0x22] @ ''='' @ [CHR 0x22] @ src_addr c
     @ [CHR 0x22] @ '','' @ [CHR 0x22] @ ''src_port'' @ [CHR 0x22] @ ''='' @ to_dec (unat (src_port c)) @ ''}''"

section \<open>Reading and writing\<close>

definition sync_write :: "sync_connection \<Rightarrow> send_answer \<Rightarrow> string \<Rightarrow> tcp_exn + nat" where
  "sync_write c answer buf =
     (if \<not> sync_is_opened c then Inl (throw_tcp ClosedEndpointError (''write to closed endpoint, sock_fd='' @ tcp_fd_text (sock_fd c)) 0)
      else case answer of
        Taken n \<Rightarrow> Inr (taken (length buf) n)
      | Send_error err \<Rightarrow>
          Inl (throw_tcp WriteError (''write error occurs while writing to endpoint, sock_fd='' @ tcp_fd_text (sock_fd c)) err))"

definition sync_write_exact :: "sync_connection \<Rightarrow> string \<Rightarrow> send_answer list \<Rightarrow> tcp_exn write_run" where
  "sync_write_exact c buf as =
     write_exact_loop (sync_write c)
       (throw_tcp WriteError (''nothing was written to endpoint, sock_fd='' @ tcp_fd_text (sock_fd c)) 0) buf (length buf) [] as"

text \<open>A read looks at the descriptor and not at \<open>is_readable_\<close>.\<close>

definition sync_read :: "recv_answer \<Rightarrow> nat \<Rightarrow> sync_connection \<Rightarrow> tcp_exn + string \<times> sync_connection" where
  "sync_read answer len c =
     (if \<not> sync_is_opened c then Inl (throw_tcp ClosedEndpointError (''write to closed endpoint, sock_fd='' @ tcp_fd_text (sock_fd c)) 0)
      else if sync_is_opened c \<and> len \<noteq> 0 then
        (case answer of
           Received bs \<Rightarrow> Inr (bs, if bs = [] then c\<lparr>readable := False\<rparr> else c)
         | Recv_error err \<Rightarrow>
             Inl (throw_tcp ReadError (''write error occurs while reading from endpoint, sock_fd='' @ tcp_fd_text (sock_fd c)) err))
      else Inr ([], c))"

definition sync_read_exact :: "nat \<Rightarrow> string \<Rightarrow> sync_connection \<Rightarrow> recv_answer list \<Rightarrow> (tcp_exn, sync_connection) read_run" where
  "sync_read_exact len mem c as =
     read_exact_loop sync_read readable (throw_tcp EofError (''EOF reached, sock_fd='' @ tcp_fd_text (sock_fd c)) 0) len mem c as"

definition sync_set_read_timeout :: "unit sys_answer \<Rightarrow> int \<Rightarrow> sync_connection \<Rightarrow> tcp_exn option" where
  "sync_set_read_timeout setsockopt seconds c =
     (if failed setsockopt
      then Some (throw_tcp TimeoutSetError
        (''cannot set read timeout, sock_fd='' @ tcp_fd_text (sock_fd c) @ '', seconds='' @ to_text seconds) (err_of setsockopt))
      else None)"

definition sync_set_write_timeout :: "unit sys_answer \<Rightarrow> int \<Rightarrow> sync_connection \<Rightarrow> tcp_exn option" where
  "sync_set_write_timeout setsockopt seconds c =
     (if failed setsockopt
      then Some (throw_tcp TimeoutSetError
        (''cannot set write timeout, sock_fd='' @ tcp_fd_text (sock_fd c) @ '', seconds='' @ to_text seconds) (err_of setsockopt))
      else None)"

text \<open>The answers of \<open>shutdown\<close> and \<open>close\<close>.\<close>

definition sync_close :: "int \<Rightarrow> int \<Rightarrow> int \<Rightarrow> sync_connection \<Rightarrow> tcp_exn option \<times> sync_connection \<times> sys_call list" where
  "sync_close shutdown close_answer err c =
     (if sync_is_opened c then
        let (closed, d, calls) = descriptor_close close_answer (sock_fd c);
            status = (if closed < 0 then -1 else shutdown)
        in (if status < 0 then Some (throw_tcp ConnCloseError (''error while closing socket, sock_fd='' @ tcp_fd_text (sock_fd c)) err) else None,
            c\<lparr>sock_fd := d\<rparr>, calls)
      else (None, c, []))"

definition sync_destroy :: "sync_connection \<Rightarrow> sys_call list" where
  "sync_destroy c = (if sync_is_opened c then snd (snd (descriptor_close 0 (sock_fd c))) else [])"

text \<open>
  \<open>connect\<close> move-assigns a new connection: the descriptor of the old one is closed, and the object
  keeps what it was when the new one cannot be made.
\<close>

definition sync_connect ::
  "int sys_answer \<Rightarrow> bool \<Rightarrow> unit sys_answer \<Rightarrow> (string \<times> 16 word) sys_answer \<Rightarrow> string \<Rightarrow> 16 word \<Rightarrow> sync_connection
    \<Rightarrow> tcp_exn option \<times> sync_connection \<times> sys_call list" where
  "sync_connect socket pton_ok connect getsockname ip port c =
     (case sync_Connection socket pton_ok connect getsockname ip port of
        (Inl e, calls) \<Rightarrow> (Some e, c, calls)
      | (Inr new, calls) \<Rightarrow>
          let (d, old, closes) = descriptor_move_assign (sock_fd c) (sock_fd new)
          in (None, new\<lparr>sock_fd := d\<rparr>, calls @ closes))"

section \<open>The server\<close>

record sync_server =
  server_sock_fd :: descriptor
  server_addr :: string
  server_port :: "16 word"

text \<open>The system calls of the constructor: \<open>getsockname\<close> answers the port when it was zero.\<close>

record listen_answers =
  a_socket :: "int sys_answer"
  a_setsockopt :: "unit sys_answer"
  a_inet_pton :: bool
  a_bind :: "unit sys_answer"
  a_listen :: "unit sys_answer"
  a_getsockname :: "16 word sys_answer"

definition sync_Server :: "listen_answers \<Rightarrow> string \<Rightarrow> 16 word \<Rightarrow> (tcp_exn + sync_server) \<times> sys_call list" where
  "sync_Server a ip port =
     (let fd = new_socket (a_socket a) in
      or_close fd
       (if \<not> is_valid fd then Inl (throw_tcp IoServiceError ''cannot create IPV4 socket'' (err_of (a_socket a)))
        else if failed (a_setsockopt a)
          then Inl (throw_tcp IoServiceError ''cannot set SO_REUSEADDR to IPV4 socket'' (err_of (a_setsockopt a)))
        else if \<not> a_inet_pton a then Inl (throw_tcp InvalidAddressError (''invalid ip address, ip='' @ ip) 0)
        else if failed (a_bind a)
          then Inl (throw_tcp BindError (''cannot bind to addr='' @ ip @ '', port='' @ to_dec (unat port)) (err_of (a_bind a)))
        else if failed (a_listen a)
          then Inl (throw_tcp ListenError (''cannot start listen on addr='' @ ip @ '', port='' @ to_dec (unat port)) (err_of (a_listen a)))
        else if port = 0
          then (case a_getsockname a of
              Inl err \<Rightarrow> Inl (throw_tcp IoServiceError (''cannot get info about self, server_sock_fd='' @ tcp_fd_text fd) err)
            | Inr port \<Rightarrow> Inr \<lparr>server_sock_fd = fd, server_addr = ip, server_port = port\<rparr>)
        else Inr \<lparr>server_sock_fd = fd, server_addr = ip, server_port = port\<rparr>))"

text \<open>\<open>accept\<close> answers a descriptor with the address and port of the other side.\<close>

definition sync_accept ::
  "(int \<times> string \<times> 16 word) sys_answer \<Rightarrow> (string \<times> 16 word) sys_answer \<Rightarrow> sync_server \<Rightarrow> (tcp_exn + sync_connection) \<times> sys_call list" where
  "sync_accept accept getsockname s =
     (let error = throw_tcp AcceptError (''cannot accept new connection, server_sock_fd='' @ tcp_fd_text (server_sock_fd s)) (err_of accept) in
      case accept of
        Inl err \<Rightarrow> (Inl error, [])
      | Inr (fd, addr, port) \<Rightarrow>
          let client_fd = new_socket (Inr fd) in
          if \<not> is_valid client_fd then (Inl error, [])
          else sync_accepted getsockname client_fd addr port)"

definition sync_server_is_opened :: "sync_server \<Rightarrow> bool" where
  "sync_server_is_opened s \<longleftrightarrow> is_valid (server_sock_fd s)"

definition sync_server_close :: "int \<Rightarrow> int \<Rightarrow> sync_server \<Rightarrow> tcp_exn option \<times> sync_server \<times> sys_call list" where
  "sync_server_close close_answer err s =
     (if sync_server_is_opened s then
        let (status, d, calls) = descriptor_close close_answer (server_sock_fd s); s' = s\<lparr>server_sock_fd := d\<rparr> in
        (if status < 0 then Some (throw_tcp ServerCloseError (''error while closing server socket, server_sock_fd='' @ tcp_fd_text d) err)
         else None, s', calls)
      else (None, s, []))"

section \<open>The loops\<close>

lemma sync_write_simps:
  "sync_is_opened c \<Longrightarrow> sync_write c (Taken k) buf = Inr (taken (length buf) k)"
  "sync_is_opened c \<Longrightarrow> \<exists>e. sync_write c (Send_error err) buf = Inl e"
  by (simp_all add: sync_write_def)

lemma sync_read_simps:
  "sync_is_opened c \<Longrightarrow> bs \<noteq> [] \<Longrightarrow> length bs \<le> len \<Longrightarrow> sync_read (Received bs) len c = Inr (bs, c)"
  "sync_is_opened c \<Longrightarrow> len \<noteq> 0 \<Longrightarrow> sync_read (Received []) len c = Inr ([], c\<lparr>readable := False\<rparr>)"
  "sync_is_opened c \<Longrightarrow> len \<noteq> 0 \<Longrightarrow> \<exists>e. sync_read (Recv_error err) len c = Inl e"
  by (cases bs; simp add: sync_read_def)+

interpretation sync_io: exact_io sync_is_opened readable sync_write sync_read
  by unfold_locales (use sync_write_simps(2) sync_read_simps(3) in
      \<open>auto simp: sync_write_simps sync_read_simps\<close>)

section \<open>Ownership of the sockets\<close>

lemma or_close_eq:
  "or_close d x = (r, calls) \<longleftrightarrow> x = r \<and> calls = (case r of Inl e \<Rightarrow> descriptor_destroy d | Inr v \<Rightarrow> [])"
  by (auto simp: or_close_def)

lemmas socket_simps = or_close_eq Let_def new_socket_def Descriptor_int_def is_valid_def descriptor_destroy_def descriptor_close_def

lemma sync_set_src_endpoint_fd: "sync_set_src_endpoint name c = Inr c' \<Longrightarrow> sock_fd c' = sock_fd c"
  by (auto simp: sync_set_src_endpoint_def split: sum.splits)

lemma sync_Connection_owns:
  "0 \<le> fd \<Longrightarrow> sync_Connection (Inr fd) pton_ok connect name ip port = (c, calls) \<Longrightarrow>
   (case c of Inl e \<Rightarrow> calls = [Close fd] | Inr c \<Rightarrow> calls = [] \<and> d_fd (sock_fd c) = fd)"
  by (cases c) (auto simp: sync_Connection_def socket_simps sync_init_def dest!: sync_set_src_endpoint_fd split: if_splits)

lemma sync_accept_owns:
  "0 \<le> fd \<Longrightarrow> sync_accept (Inr (fd, addr, cport)) name s = (c, calls) \<Longrightarrow>
   (case c of Inl e \<Rightarrow> calls = [Close fd] | Inr c \<Rightarrow> calls = [] \<and> d_fd (sock_fd c) = fd)"
  by (cases c) (auto simp: sync_accept_def sync_accepted_def socket_simps sync_init_def
      dest!: sync_set_src_endpoint_fd split: if_splits)

lemma sync_Server_owns:
  "a_socket a = Inr fd \<Longrightarrow> 0 \<le> fd \<Longrightarrow> sync_Server a ip port = (r, calls) \<Longrightarrow>
   (case r of Inl e \<Rightarrow> calls = [Close fd] | Inr s \<Rightarrow> calls = [] \<and> d_fd (server_sock_fd s) = fd)"
  by (cases r) (auto simp: sync_Server_def socket_simps split: if_splits sum.splits)

section \<open>Properties\<close>

text \<open>
  C27: \<open>write_exact\<close> and \<open>read_exact\<close> end: each is over after at most as many system calls as bytes were
  asked for, whatever the calls answer and however small the pieces are, as long as \<open>recv\<close> does not
  deliver more bytes than there is room for.
\<close>

theorem sync_exact_calls_end:
  assumes "sync_is_opened c" "length buf \<le> length as" "len \<le> length bs" "length (recv_data bs) \<le> len"
  shows "((\<exists>wire rest. sync_write_exact c buf as = Written wire rest)
      \<or> (\<exists>e wire. sync_write_exact c buf as = Write_threw e wire))
    \<and> ((\<exists>mem' c' rest. sync_read_exact len mem c bs = Filled mem' c' rest)
      \<or> (\<exists>e mem' c'. sync_read_exact len mem c bs = Read_threw e mem' c'))"
  unfolding sync_write_exact_def sync_read_exact_def by (rule sync_io.exact_calls_end [OF assms])

definition open_connection :: sync_connection where
  "open_connection = \<lparr>sock_fd = \<lparr>d_fd = 5\<rparr>, dst_addr = ''127.0.0.1'', src_addr = ''127.0.0.1'', dst_port = 80,
     src_port = 40000, readable = True\<rparr>"

theorem sync_exact_calls_end_witness:
  "\<exists>e. sync_write_exact open_connection ''ab'' [Taken 1, Taken 0] = Write_threw e ''a''"
  using sync_exact_calls_end [of open_connection "''ab''" "[Taken 1, Taken 0]" 0 "[]"]
  by (simp add: open_connection_def sync_is_opened_def is_valid_def sync_write_exact_def sync_write_def taken_def recv_data_def)

text \<open>
  A send that takes only the first \<open>n\<close> bytes is continued with the beginning of the buffer: after
  two pieces the right number of bytes was sent, and they are the buffer only when its rest repeats
  its beginning.
\<close>

theorem sync_short_write_repeats:
  assumes "sync_is_opened c" "0 < n" "n < length buf"
  shows "\<exists>wire. sync_write_exact c buf [Taken n, Taken (length buf - n)] = Written wire []
    \<and> length wire = length buf \<and> (wire = buf \<longleftrightarrow> drop n buf = take (length buf - n) buf)"
proof -
  have "sync_write_exact c buf (map Taken [n, length buf - n]) = Written (take n buf @ take (length buf - n) buf) []"
    unfolding sync_write_exact_def
    using sync_io.write_exact_answers [OF assms(1), of "[n, length buf - n]" "length buf" buf] assms(2,3) by simp
  moreover have "take n buf @ take (length buf - n) buf = buf \<longleftrightarrow> drop n buf = take (length buf - n) buf"
    using append_take_drop_id [of n buf] by (metis same_append_eq)
  ultimately show ?thesis using assms(3) by simp
qed

theorem sync_short_write_repeats_witness:
  "\<exists>wire. sync_write_exact open_connection ''12345678'' [Taken 5, Taken 3] = Written wire [] \<and> wire \<noteq> ''12345678''"
  using sync_short_write_repeats [of open_connection 5 "''12345678''"]
  by (auto simp: open_connection_def sync_is_opened_def is_valid_def eval_nat_numeral)

text \<open>
  C32: No constructor of the sockets leaks its descriptor: when the server, the client connection or the
  connection of an accepted client throws, the descriptor it had got is closed, once; and when it does
  not throw nothing is closed and the object holds the descriptor.
\<close>

theorem sync_constructors_own_sockets:
  assumes "0 \<le> fd" "a_socket a = Inr fd" "sync_Server a ip port = (r, calls)"
    and "sync_Connection (Inr fd) pton_ok connect name ip port = (c, calls1)"
    and "sync_accept (Inr (fd, addr, cport)) name s = (d, calls2)"
  shows "(case r of Inl e \<Rightarrow> calls = [Close fd] | Inr s \<Rightarrow> calls = [] \<and> d_fd (server_sock_fd s) = fd)
    \<and> (case c of Inl e \<Rightarrow> calls1 = [Close fd] | Inr c \<Rightarrow> calls1 = [] \<and> d_fd (sock_fd c) = fd)
    \<and> (case d of Inl e \<Rightarrow> calls2 = [Close fd] | Inr c \<Rightarrow> calls2 = [] \<and> d_fd (sock_fd c) = fd)"
  using sync_Server_owns [OF assms(2,1,3)] sync_Connection_owns [OF assms(1,4)] sync_accept_owns [OF assms(1,5)] by blast

definition bind_refused :: listen_answers where
  "bind_refused = \<lparr>a_socket = Inr 3, a_setsockopt = Inr (), a_inet_pton = True, a_bind = Inl 98, a_listen = Inr (),
     a_getsockname = Inr 0\<rparr>"

theorem sync_constructors_own_sockets_witness:
  "\<exists>e. sync_Server bind_refused ''127.0.0.1'' 80 = (Inl e, [Close 3]) \<and> te_class e = BindError \<and> te_errno e = 98"
proof -
  obtain r calls where s: "sync_Server bind_refused ''127.0.0.1'' 80 = (r, calls)" by fastforce
  obtain c calls1 where c: "sync_Connection (Inr 3) True (Inl 111) (Inr ([], 0)) ''127.0.0.1'' 80 = (c, calls1)" by fastforce
  obtain d calls2 where d: "sync_accept (Inr (3, ''127.0.0.1'', 40000)) (Inr ([], 0)) \<lparr>server_sock_fd = \<lparr>d_fd = 9\<rparr>, server_addr = [], server_port = 80\<rparr> = (d, calls2)"
    by fastforce
  from sync_constructors_own_sockets [OF _ _ s c d] s show ?thesis
    by (auto simp: bind_refused_def sync_Server_def or_close_def Let_def new_socket_def Descriptor_int_def is_valid_def throw_tcp_def
        failed_def err_of_def)
qed

end
