(* ===== verification/DemoSync.thy ===== *)
theory DemoSync imports TcpSync Demo begin

text \<open>
  \<open>hw3_test\<close> of \<open>src/utils.cpp\<close>: a blocking server and two clients in one process, which write a text
  with its terminating NUL and read it on the other side.
\<close>

section \<open>The test\<close>

fun sync_written :: "tcp_exn write_run \<Rightarrow> string demo" where
  "sync_written (Written wire as) = Demo_value wire"
| "sync_written (Write_threw e wire) = Demo_threw (te_what e)"
| "sync_written (Write_blocked wire) = Demo_waits"

fun sync_filled :: "(tcp_exn, sync_connection) read_run \<Rightarrow> (string \<times> sync_connection) demo" where
  "sync_filled (Filled mem c as) = Demo_value (mem, c)"
| "sync_filled (Read_threw e mem c) = Demo_threw (te_what e)"
| "sync_filled (Read_blocked mem c) = Demo_waits"

definition hw3_text :: string where
  "hw3_text = ''1234567890''"

text \<open>The array \<open>test_str\<close>; \<open>sizeof\<close> counts the NUL.\<close>

definition hw3_array :: string where
  "hw3_array = hw3_text @ [CHR 0x00]"

record hw3_client =
  w_socket :: "int sys_answer"
  w_pton :: bool
  w_connect :: "unit sys_answer"
  w_getsockname :: "(string \<times> 16 word) sys_answer"
  w_timeout :: "unit sys_answer"
  w_sends :: "send_answer list"
  w_close :: "int \<times> int \<times> int"

record hw3_accepted =
  r_accept :: "(int \<times> string \<times> 16 word) sys_answer"
  r_getsockname :: "(string \<times> 16 word) sys_answer"
  r_timeout :: "unit sys_answer"
  r_recvs :: "recv_answer list"
  r_last :: recv_answer
  r_close :: "int \<times> int \<times> int"

definition hw3_connect :: "hw3_client \<Rightarrow> 16 word \<Rightarrow> sync_connection demo" where
  "hw3_connect w port =
     demo_bind (demo_of te_what (fst (sync_Connection (w_socket w) (w_pton w) (w_connect w) (w_getsockname w) ''127.0.0.1'' port))) (\<lambda>c.
     demo_bind (demo_done te_what (sync_set_write_timeout (w_timeout w) 1 c)) (\<lambda>_. Demo_value c))"

definition hw3_accept :: "hw3_accepted \<Rightarrow> sync_server \<Rightarrow> sync_connection demo" where
  "hw3_accept r s =
     demo_bind (demo_of te_what (fst (sync_accept (r_accept r) (r_getsockname r) s))) (\<lambda>c.
     demo_bind (demo_done te_what (sync_set_read_timeout (r_timeout r) 1 c)) (\<lambda>_. Demo_value c))"

text \<open>Read the array into the buffer and compare it as a C string; the buffer goes on to the next read.\<close>

definition hw3_check :: "recv_answer list \<Rightarrow> string \<Rightarrow> sync_connection \<Rightarrow> (string \<times> sync_connection) demo" where
  "hw3_check ras buff c =
     demo_bind (sync_filled (sync_read_exact (length hw3_array) buff c ras)) (\<lambda>(buff, c).
     demo_bind (demo_require (c_string buff = hw3_text) ''hw3 test failed'') (\<lambda>_. Demo_value (buff, c)))"

definition hw3_close :: "int \<times> int \<times> int \<Rightarrow> sync_connection \<Rightarrow> unit demo" where
  "hw3_close answers c = demo_done te_what (fst (sync_close (fst answers) (fst (snd answers)) (snd (snd answers)) c))"

text \<open>After the writer has closed, the reader must see the end of the stream.\<close>

definition hw3_end :: "recv_answer \<Rightarrow> sync_connection \<Rightarrow> sync_connection demo" where
  "hw3_end a c =
     demo_bind (demo_of te_what (sync_read a 1 c)) (\<lambda>(bs, c).
     demo_bind (demo_require (bs = [] \<and> \<not> readable c) ''hw3 test failed'') (\<lambda>_. Demo_value c))"

definition hw3_test ::
  "listen_answers \<Rightarrow> hw3_client \<Rightarrow> hw3_client \<Rightarrow> hw3_accepted \<Rightarrow> hw3_accepted \<Rightarrow> int \<Rightarrow> int \<Rightarrow> (string \<times> string) demo" where
  "hw3_test l w1 w2 r1 r2 close_answer err =
     demo_bind (demo_of te_what (fst (sync_Server l ''127.0.0.1'' 0))) (\<lambda>s.
     demo_bind (hw3_connect w1 (server_port s)) (\<lambda>c1. demo_bind (hw3_connect w2 (server_port s)) (\<lambda>c2.
     demo_bind (sync_written (sync_write_exact c1 hw3_array (w_sends w1))) (\<lambda>wire1.
     demo_bind (sync_written (sync_write_exact c2 hw3_array (w_sends w2))) (\<lambda>wire2.
     demo_bind (hw3_accept r1 s) (\<lambda>d1. demo_bind (hw3_accept r2 s) (\<lambda>d2.
     demo_bind (hw3_check (r_recvs r1) (replicate (length hw3_array) (CHR 0x00)) d1) (\<lambda>(buff, d1).
     demo_bind (hw3_check (r_recvs r2) buff d2) (\<lambda>(buff, d2).
     demo_bind (hw3_close (w_close w1) c1) (\<lambda>_. demo_bind (hw3_end (r_last r1) d1) (\<lambda>d1.
     demo_bind (hw3_close (w_close w2) c2) (\<lambda>_. demo_bind (hw3_end (r_last r2) d2) (\<lambda>d2.
     demo_bind (hw3_close (r_close r1) d1) (\<lambda>_. demo_bind (hw3_close (r_close r2) d2) (\<lambda>_.
     demo_bind (demo_done te_what (fst (sync_server_close close_answer err s))) (\<lambda>_.
     Demo_value (wire1, wire2)))))))))))))))))"

section \<open>Lemmas\<close>

lemma hw3_sockets_open:
  "hw3_connect w port = Demo_value c \<Longrightarrow> sync_is_opened c"
  "hw3_accept r s = Demo_value c \<Longrightarrow> sync_is_opened c \<and> readable c"
  by (auto simp: hw3_connect_def hw3_accept_def demo_bind_value sync_Connection_def sync_accept_def sync_accepted_def or_close_def
      sync_set_src_endpoint_def sync_init_def sync_is_opened_def Let_def split: sum.splits if_splits)

lemma hw3_write_whole:
  "sync_is_opened c \<Longrightarrow> length hw3_array \<le> k \<Longrightarrow> sync_write_exact c hw3_array [Taken k] = Written hw3_array []"
  by (simp add: sync_write_exact_def sync_write_def taken_def hw3_array_def)

lemma hw3_close_ok: "0 \<le> fst a \<Longrightarrow> 0 \<le> fst (snd a) \<Longrightarrow> hw3_close a c = Demo_value ()"
  by (auto simp: hw3_close_def sync_close_def descriptor_close_def sync_is_opened_def)

lemma hw3_end_ok: "sync_is_opened c \<Longrightarrow> hw3_end (Received []) c = Demo_value (c\<lparr>readable := False\<rparr>)"
  by (simp add: hw3_end_def sync_read_def demo_of_def demo_require_def)

text \<open>What was written comes back in pieces; one piece is what the check wants.\<close>

lemma hw3_check_pieces:
  assumes "sync_is_opened c" "readable c" "\<forall>d \<in> set ds. d \<noteq> []" "concat ds = hw3_array"
  shows "\<exists>buff. hw3_check (map Received ds) mem c = (if length ds = 1 then Demo_value (buff, c) else Demo_threw ''hw3 test failed'')"
proof -
  have "sync_read_exact (length hw3_array) mem c (map Received ds) = Filled (fold store ds mem) c []"
    using sync_io.read_exact_pieces [OF assms(1-3), of "length hw3_array" _ mem "[]"] assms(4) by (simp add: sync_read_exact_def)
  moreover have "c_string (fold store ds mem) = hw3_text \<longleftrightarrow> length ds = 1"
    by (rule pieces_intact [where z = "[CHR 0x00]"]) (use assms(3,4) in \<open>simp_all add: hw3_array_def hw3_text_def\<close>)
  ultimately show ?thesis by (simp add: hw3_check_def demo_require_def)
qed

section \<open>Properties\<close>

text \<open>
  C36: The test of the blocking sockets, when every call succeeds and both texts arrive whole: it returns
  exactly when each text is delivered by one \<open>recv\<close>, and otherwise throws, because \<open>read_exact\<close> stores
  every piece at the same address.
\<close>

theorem hw3_outcome:
  assumes "fst (sync_Server l ''127.0.0.1'' 0) = Inr s" "hw3_connect w1 (server_port s) = Demo_value c1"
    and "hw3_connect w2 (server_port s) = Demo_value c2" "hw3_accept r1 s = Demo_value d1" "hw3_accept r2 s = Demo_value d2"
    and "w_sends w1 = [Taken k1]" "w_sends w2 = [Taken k2]" "length hw3_array \<le> k1" "length hw3_array \<le> k2"
    and "r_recvs r1 = map Received ds1" "r_recvs r2 = map Received ds2" "\<forall>d \<in> set ds1 \<union> set ds2. d \<noteq> []"
    and "concat ds1 = hw3_array" "concat ds2 = hw3_array" "r_last r1 = Received []" "r_last r2 = Received []"
    and "\<forall>a \<in> {w_close w1, w_close w2, r_close r1, r_close r2}. 0 \<le> fst a \<and> 0 \<le> fst (snd a)" "0 \<le> close_answer"
  shows "hw3_test l w1 w2 r1 r2 close_answer err =
    (if length ds1 = 1 \<and> length ds2 = 1 then Demo_value (hw3_array, hw3_array) else Demo_threw ''hw3 test failed'')"
proof -
  note o = hw3_sockets_open(1) [OF assms(2)] hw3_sockets_open(1) [OF assms(3)] hw3_sockets_open(2) [OF assms(4)] hw3_sockets_open(2) [OF assms(5)]
  let ?mem = "replicate (length hw3_array) (CHR 0x00)"
  obtain b1 where b1: "hw3_check (map Received ds1) ?mem d1 = (if length ds1 = 1 then Demo_value (b1, d1) else Demo_threw ''hw3 test failed'')"
    using hw3_check_pieces [of d1 ds1 ?mem] o(3) assms(12,13) by auto
  obtain b2 where b2: "hw3_check (map Received ds2) b1 d2 = (if length ds2 = 1 then Demo_value (b2, d2) else Demo_threw ''hw3 test failed'')"
    using hw3_check_pieces [of d2 ds2 b1] o(4) assms(12,14) by auto
  have cl: "hw3_close (w_close w1) c = Demo_value ()" "hw3_close (w_close w2) c = Demo_value ()" "hw3_close (r_close r1) c = Demo_value ()"
    "hw3_close (r_close r2) c = Demo_value ()" for c using hw3_close_ok assms(17) by simp_all
  have "fst (sync_server_close close_answer err s) = None"
    using assms(18) by (auto simp: sync_server_close_def descriptor_close_def sync_server_is_opened_def)
  then show ?thesis
    by (simp add: hw3_test_def assms(1-7,10,11,15,16) demo_of_def [of _ "Inr _"] hw3_write_whole [OF o(1) assms(8)]
        hw3_write_whole [OF o(2) assms(9)] b1 b2 cl hw3_end_ok o demo_done_def)
qed

definition hw3_listen :: listen_answers where
  "hw3_listen = \<lparr>a_socket = Inr 3, a_setsockopt = Inr (), a_inet_pton = True, a_bind = Inr (), a_listen = Inr (),
     a_getsockname = Inr 4000\<rparr>"

definition hw3_writer :: "int \<Rightarrow> hw3_client" where
  "hw3_writer fd = \<lparr>w_socket = Inr fd, w_pton = True, w_connect = Inr (), w_getsockname = Inr (''127.0.0.1'', 5000), w_timeout = Inr (),
     w_sends = [Taken 11], w_close = (0, 0, 0)\<rparr>"

definition hw3_reader :: "int \<Rightarrow> recv_answer list \<Rightarrow> hw3_accepted" where
  "hw3_reader fd ras = \<lparr>r_accept = Inr (fd, ''127.0.0.1'', 5000), r_getsockname = Inr (''127.0.0.1'', 4000), r_timeout = Inr (),
     r_recvs = ras, r_last = Received [], r_close = (0, 0, 0)\<rparr>"

lemma hw3_example:
  "\<exists>s. fst (sync_Server hw3_listen ''127.0.0.1'' 0) = Inr s"
  "0 \<le> fd \<Longrightarrow> \<exists>c. hw3_connect (hw3_writer fd) port = Demo_value c" "0 \<le> fd \<Longrightarrow> \<exists>c. hw3_accept (hw3_reader fd ras) s = Demo_value c"
  by (simp_all add: sync_Server_def hw3_listen_def hw3_connect_def hw3_writer_def hw3_accept_def hw3_reader_def sync_Connection_def
      sync_accept_def sync_accepted_def or_close_def sync_set_src_endpoint_def new_socket_def Descriptor_int_def is_valid_def
      demo_of_def demo_done_def sync_set_write_timeout_def sync_set_read_timeout_def Let_def)

theorem hw3_outcome_witness:
  "hw3_test hw3_listen (hw3_writer 5) (hw3_writer 6) (hw3_reader 7 [Received hw3_array]) (hw3_reader 8 [Received hw3_array]) 0 0 =
      Demo_value (hw3_array, hw3_array)
    \<and> hw3_test hw3_listen (hw3_writer 5) (hw3_writer 6) (hw3_reader 7 [Received ''123'', Received (drop 3 hw3_array)])
        (hw3_reader 8 [Received hw3_array]) 0 0 = Demo_threw ''hw3 test failed''"
proof -
  obtain s where s: "fst (sync_Server hw3_listen ''127.0.0.1'' 0) = Inr s" using hw3_example(1) by blast
  have "hw3_test hw3_listen (hw3_writer 5) (hw3_writer 6) (hw3_reader 7 (map Received ds)) (hw3_reader 8 (map Received [hw3_array])) 0 0 =
      (if length ds = 1 \<and> length [hw3_array] = 1 then Demo_value (hw3_array, hw3_array) else Demo_threw ''hw3 test failed'')"
    if ds: "\<forall>d \<in> set ds. d \<noteq> []" "concat ds = hw3_array" for ds
  proof -
    obtain c1 c2 d1 d2 where c: "hw3_connect (hw3_writer 5) (server_port s) = Demo_value c1" "hw3_connect (hw3_writer 6) (server_port s) = Demo_value c2"
      "hw3_accept (hw3_reader 7 (map Received ds)) s = Demo_value d1" "hw3_accept (hw3_reader 8 (map Received [hw3_array])) s = Demo_value d2"
      using hw3_example(2) [of 5 "server_port s"] hw3_example(2) [of 6 "server_port s"] hw3_example(3) [of 7 "map Received ds" s]
        hw3_example(3) [of 8 "map Received [hw3_array]" s] by auto
    show ?thesis
      by (rule hw3_outcome [OF s c]) (use ds in \<open>auto simp: hw3_writer_def hw3_reader_def hw3_array_def hw3_text_def\<close>)
  qed
  from this [of "[hw3_array]"] this [of "[''123'', drop 3 hw3_array]"] show ?thesis by (simp add: hw3_array_def hw3_text_def)
qed

end
