(* ===== verification/TcpAsync.thy ===== *)
theory TcpAsync imports TcpErrors NetIO "HOL-Library.Word" begin

text \<open>
  \<open>tcpcon/async\<close>: the non-blocking TCP connection with its input and output buffer, and \<open>set_nonblock\<close>.
  The class repeats the members of the synchronous connection, but a call that would block returns
  \<open>-1\<close>. The answers of the socket calls are arguments.
\<close>

unbundle bit_operations_syntax

section \<open>\<open>set_nonblock\<close>\<close>

definition O_NONBLOCK :: "32 word" where
  "O_NONBLOCK = 0x800"

text \<open>The answers of the two \<open>fcntl\<close>; the status, and the flags that the second one sets.\<close>

definition set_nonblock :: "32 word sys_answer \<Rightarrow> unit sys_answer \<Rightarrow> bool \<Rightarrow> int \<times> 32 word option" where
  "set_nonblock getfl setfl opt =
     (case getfl of
        Inl err \<Rightarrow> (-1, None)
      | Inr flags \<Rightarrow>
          let nonblock = (if opt then O_NONBLOCK else NOT O_NONBLOCK)
          in (if failed setfl then -1 else 0, Some (flags OR nonblock)))"

section \<open>The connection\<close>

record async_connection =
  async_fd :: descriptor
  async_dst_addr :: string
  async_src_addr :: string
  async_dst_port :: "16 word"
  async_src_port :: "16 word"
  async_readable :: bool
  async_io_buffer :: string

definition async_init :: "descriptor \<Rightarrow> string \<Rightarrow> 16 word \<Rightarrow> async_connection" where
  "async_init d addr port =
     \<lparr>async_fd = d, async_dst_addr = addr, async_src_addr = [], async_dst_port = port, async_src_port = 0,
      async_readable = True, async_io_buffer = []\<rparr>"

definition async_is_opened :: "async_connection \<Rightarrow> bool" where
  "async_is_opened c \<longleftrightarrow> is_valid (async_fd c)"

definition async_set_src_endpoint :: "(string \<times> 16 word) sys_answer \<Rightarrow> async_connection \<Rightarrow> tcp_exn + async_connection" where
  "async_set_src_endpoint getsockname c =
     (case getsockname of
        Inl err \<Rightarrow> Inl (throw_tcp IoServiceError (''cannot get info about self endpoint, sock_fd='' @ tcp_fd_text (async_fd c)) err)
      | Inr (addr, port) \<Rightarrow> Inr (c\<lparr>async_src_addr := addr, async_src_port := port\<rparr>))"

text \<open>The constructors; one that throws closes the descriptor of its member. A \<open>connect\<close> that goes on is no failure.\<close>

definition async_or_close :: "descriptor \<Rightarrow> 'e + 'a \<Rightarrow> ('e + 'a) \<times> sys_call list" where
  "async_or_close d r = (r, case r of Inl e \<Rightarrow> descriptor_destroy d | Inr x \<Rightarrow> [])"

definition async_Connection ::
  "int sys_answer \<Rightarrow> bool \<Rightarrow> unit sys_answer \<Rightarrow> (string \<times> 16 word) sys_answer \<Rightarrow> string \<Rightarrow> 16 word
    \<Rightarrow> (tcp_exn + async_connection) \<times> sys_call list" where
  "async_Connection socket pton_ok connect getsockname ip port =
     (let fd = new_socket socket in
      async_or_close fd
       (if \<not> is_valid fd then Inl (throw_tcp IoServiceError ''cannot create IPV4 socket'' (err_of socket))
        else if \<not> pton_ok then Inl (throw_tcp InvalidAddressError (''invalid ip address, ip='' @ ip) 0)
        else if failed connect \<and> err_of connect \<noteq> EINPROGRESS
          then Inl (throw_tcp ConnOpenError (''cannot connect to, addr='' @ ip @ '', port='' @ to_dec (unat port)) (err_of connect))
        else async_set_src_endpoint getsockname (async_init fd ip port)))"

definition async_accepted ::
  "(string \<times> 16 word) sys_answer \<Rightarrow> descriptor \<Rightarrow> string \<Rightarrow> 16 word \<Rightarrow> (tcp_exn + async_connection) \<times> sys_call list" where
  "async_accepted getsockname endpoint addr port =
     async_or_close endpoint (async_set_src_endpoint getsockname (async_init endpoint addr port))"

definition async_to_string :: "async_connection \<Rightarrow> string" where
  "async_to_string c =
     ''{'' @ [CHR 0x22] @ ''dst_addr'' @ [CHR 0x22] @ ''='' @ [CHR 0x22] @ async_dst_addr c
     @ [CHR 0x22] @ '','' @ [CHR 0x22] @ ''dst_port'' @ [CHR 0x22] @ ''='' @ to_dec (unat (async_dst_port c))
     @ '','' @ [CHR 0x22] @ ''src_addr'' @ [CHR 0x22] @ ''='' @ [CHR 0x22] @ async_src_addr c
     @ [CHR 0x22] @ '','' @ [CHR 0x22] @ ''src_port'' @ [CHR 0x22] @ ''='' @ to_dec (unat (async_src_port c)) @ ''}''"

definition async_set_nonblock :: "32 word sys_answer \<Rightarrow> unit sys_answer \<Rightarrow> bool \<Rightarrow> async_connection \<Rightarrow> tcp_exn option" where
  "async_set_nonblock getfl setfl opt c =
     (if \<not> async_is_opened c
      then Some (throw_tcp IoServiceError (''set_nonblock to closed endpoint, sock_fd='' @ tcp_fd_text (async_fd c)) 0)
      else if fst (set_nonblock getfl setfl opt) < 0
      then Some (throw_tcp IoServiceError (''cannot set nonblock for socket, sock_fd='' @ tcp_fd_text (async_fd c))
        (case getfl of Inl err \<Rightarrow> err | Inr _ \<Rightarrow> err_of setfl))
      else None)"

definition async_set_read_timeout :: "unit sys_answer \<Rightarrow> int \<Rightarrow> async_connection \<Rightarrow> tcp_exn option" where
  "async_set_read_timeout setsockopt seconds c =
     (if failed setsockopt
      then Some (throw_tcp TimeoutSetError
        (''cannot set read timeout, sock_fd='' @ tcp_fd_text (async_fd c) @ '', seconds='' @ to_text seconds) (err_of setsockopt))
      else None)"

definition async_set_write_timeout :: "unit sys_answer \<Rightarrow> int \<Rightarrow> async_connection \<Rightarrow> tcp_exn option" where
  "async_set_write_timeout setsockopt seconds c =
     (if failed setsockopt
      then Some (throw_tcp TimeoutSetError
        (''cannot set write timeout, sock_fd='' @ tcp_fd_text (async_fd c) @ '', seconds='' @ to_text seconds) (err_of setsockopt))
      else None)"

definition async_close :: "int \<Rightarrow> int \<Rightarrow> int \<Rightarrow> async_connection \<Rightarrow> tcp_exn option \<times> async_connection \<times> sys_call list" where
  "async_close shutdown close_answer err c =
     (if async_is_opened c then
        let (closed, d, calls) = descriptor_close close_answer (async_fd c);
            status = (if closed < 0 then -1 else shutdown)
        in (if status < 0 then Some (throw_tcp ConnCloseError (''error while closing socket, sock_fd='' @ tcp_fd_text (async_fd c)) err) else None,
            c\<lparr>async_fd := d\<rparr>, calls)
      else (None, c, []))"

definition async_destroy :: "async_connection \<Rightarrow> sys_call list" where
  "async_destroy c = (if async_is_opened c then snd (snd (descriptor_close 0 (async_fd c))) else [])"

text \<open>\<open>connect\<close> move-assigns a new connection; its buffer starts empty.\<close>

definition async_connect ::
  "int sys_answer \<Rightarrow> bool \<Rightarrow> unit sys_answer \<Rightarrow> (string \<times> 16 word) sys_answer \<Rightarrow> string \<Rightarrow> 16 word \<Rightarrow> async_connection
    \<Rightarrow> tcp_exn option \<times> async_connection \<times> sys_call list" where
  "async_connect socket pton_ok connect getsockname ip port c =
     (case async_Connection socket pton_ok connect getsockname ip port of
        (Inl e, calls) \<Rightarrow> (Some e, c, calls)
      | (Inr new, calls) \<Rightarrow>
          let (d, old, closes) = descriptor_move_assign (async_fd c) (async_fd new)
          in (None, new\<lparr>async_fd := d\<rparr>, calls @ closes))"

section \<open>Reading and writing\<close>

definition async_write :: "send_answer \<Rightarrow> string \<Rightarrow> async_connection \<Rightarrow> tcp_exn + int" where
  "async_write answer buf c =
     (if \<not> async_is_opened c then Inl (throw_tcp ClosedEndpointError (''write to closed endpoint, sock_fd='' @ tcp_fd_text (async_fd c)) 0)
      else (case answer of
         Taken n \<Rightarrow> Inr (int (taken (length buf) n))
       | Send_error err \<Rightarrow>
           if err \<noteq> EAGAIN \<and> err \<noteq> EWOULDBLOCK
           then Inl (throw_tcp WriteError (''write error occurs while writing to endpoint, sock_fd='' @ tcp_fd_text (async_fd c)) err)
           else Inr (-1)))"

text \<open>The count returned, and the bytes the kernel stored.\<close>

definition async_read :: "recv_answer \<Rightarrow> nat \<Rightarrow> async_connection \<Rightarrow> tcp_exn + int \<times> string \<times> async_connection" where
  "async_read answer len c =
     (if \<not> async_is_opened c then Inl (throw_tcp ClosedEndpointError (''write to closed endpoint, sock_fd='' @ tcp_fd_text (async_fd c)) 0)
      else if len \<noteq> 0 then
        (case answer of
           Received bs \<Rightarrow> Inr (int (length bs), bs, if bs = [] then c\<lparr>async_readable := False\<rparr> else c)
         | Recv_error err \<Rightarrow>
             if err \<noteq> EAGAIN \<and> err \<noteq> EWOULDBLOCK
             then Inl (throw_tcp ReadError (''write error occurs while reading from endpoint, sock_fd='' @ tcp_fd_text (async_fd c)) err)
             else Inr (-1, [], c))
      else Inr (0, [], c))"

text \<open>Here the temporary buffer is a local variable.\<close>

definition async_read_in_io_buff :: "recv_answer \<Rightarrow> nat \<Rightarrow> async_connection \<Rightarrow> tcp_exn + int \<times> async_connection" where
  "async_read_in_io_buff answer len c =
     (case async_read answer len c of
        Inl e \<Rightarrow> Inl e
      | Inr (bytes_read, tmp_buff, c) \<Rightarrow>
          if bytes_read \<le> 0 then Inr (bytes_read, c)
          else Inr (bytes_read, c\<lparr>async_io_buffer := async_io_buffer c @ tmp_buff\<rparr>))"

text \<open>What goes from the buffer is the length that was offered, not the count that was written.\<close>

definition async_write_from_io_buff :: "send_answer \<Rightarrow> nat \<Rightarrow> async_connection \<Rightarrow> tcp_exn + int \<times> string \<times> async_connection" where
  "async_write_from_io_buff answer len c =
     (let len = (if length (async_io_buffer c) < len then length (async_io_buffer c) else len);
          data = take len (async_io_buffer c)
      in case async_write answer data c of
           Inl e \<Rightarrow> Inl e
         | Inr bytes_written \<Rightarrow>
             if bytes_written \<le> 0 then Inr (bytes_written, [], c)
             else Inr (bytes_written, take (nat bytes_written) data, c\<lparr>async_io_buffer := drop len (async_io_buffer c)\<rparr>))"

section \<open>The buffer contract\<close>

definition returned :: "'e + 'a \<Rightarrow> 'a option" where
  "returned r = (case r of Inl _ \<Rightarrow> None | Inr v \<Rightarrow> Some v)"

lemma async_read_in_io_buff_simps:
  "async_is_opened c \<Longrightarrow> len \<noteq> 0 \<Longrightarrow> bs \<noteq> [] \<Longrightarrow> async_read_in_io_buff (Received bs) len c =
     Inr (int (length bs), c\<lparr>async_io_buffer := async_io_buffer c @ bs\<rparr>)"
  "async_is_opened c \<Longrightarrow> len \<noteq> 0 \<Longrightarrow> async_read_in_io_buff (Received []) len c = Inr (0, c\<lparr>async_readable := False\<rparr>)"
  "async_is_opened c \<Longrightarrow> len \<noteq> 0 \<Longrightarrow> would_block e \<Longrightarrow> async_read_in_io_buff (Recv_error e) len c = Inr (-1, c)"
  "async_is_opened c \<Longrightarrow> len \<noteq> 0 \<Longrightarrow> \<not> would_block e \<Longrightarrow> \<exists>x. async_read_in_io_buff (Recv_error e) len c = Inl x"
  by (auto simp: async_read_in_io_buff_def async_read_def would_block_def)

lemma async_is_opened_update [simp]:
  "async_is_opened (c\<lparr>async_io_buffer := b\<rparr>) = async_is_opened c"
  "async_is_opened (c\<lparr>async_readable := r\<rparr>) = async_is_opened c"
  by (simp_all add: async_is_opened_def)

text \<open>The size of a read is fixed, as a client of the buffer would have it.\<close>

interpretation async_buf: buffered_socket async_io_buffer async_is_opened
  "\<lambda>a c. returned (async_read_in_io_buff a 4096 c)"
proof unfold_locales
  fix c e
  assume "async_is_opened c" "\<not> would_block e"
  then show "returned (async_read_in_io_buff (Recv_error e) 4096 c) = None"
    using async_read_in_io_buff_simps(4) [of c 4096 e] by (auto simp: returned_def)
qed (auto simp: returned_def async_read_in_io_buff_simps)

text \<open>What a client of the contract has of it: any number of reads appends what the kernel delivered, in order.\<close>

lemma async_reads_stream:
  assumes "async_is_opened c" "list_all recv_goes_on as"
  shows "\<exists>c'. async_buf.read_many as c = Some c' \<and> async_io_buffer c' = async_io_buffer c @ recv_data as \<and> async_is_opened c'"
  by (rule async_buf.read_many_data [OF assms])

section \<open>Properties\<close>

text \<open>
  \<open>set_nonblock(fd, true)\<close> adds \<open>O_NONBLOCK\<close> to the flags and nothing else; \<open>set_nonblock(fd, false)\<close>
  never takes it away, and adds every other flag there is.
\<close>

theorem set_nonblock_flags:
  assumes "set_nonblock (Inr flags) setfl opt = (status, Some new)" "i < 32"
  shows "bit new i = (if i = 11 then opt \<or> bit flags i else \<not> opt \<or> bit flags i)"
proof -
  have "bit O_NONBLOCK i \<longleftrightarrow> i = 11"
    using bit_exp_iff [where 'a = "32 word", of 11 i] assms(2) by (auto simp: O_NONBLOCK_def)
  then show ?thesis using assms by (cases opt) (auto simp: set_nonblock_def Let_def bit_simps)
qed

theorem set_nonblock_flags_witness:
  "\<exists>new. set_nonblock (Inr 0x802) (Inr ()) False = (0, Some new) \<and> bit new 11 \<and> bit new 10"
proof -
  obtain new where s: "set_nonblock (Inr 0x802) (Inr ()) False = (0, Some new)"
    by (simp add: set_nonblock_def failed_def)
  have "bit (0x802 :: 32 word) 11" by simp
  with set_nonblock_flags [OF s, of 11] set_nonblock_flags [OF s, of 10] s show ?thesis by simp
qed

text \<open>
  \<open>write_from_io_buff\<close> takes the bytes it offered out of the buffer, not those the kernel took: after
  a write of at least one byte the rest of what was offered is neither on the wire nor in the buffer.
\<close>

theorem async_write_from_io_buff_loses:
  assumes "async_write_from_io_buff answer len c = Inr (n, sent, c')" "0 < n"
  shows "\<exists>lost. async_io_buffer c = sent @ lost @ async_io_buffer c' \<and> length sent = nat n
    \<and> length lost = min len (length (async_io_buffer c)) - nat n"
proof -
  define l where "l = min len (length (async_io_buffer c))"
  define data where "data = take l (async_io_buffer c)"
  have l: "(if length (async_io_buffer c) < len then length (async_io_buffer c) else len) = l" by (simp add: l_def)
  from assms have w: "async_write answer data c = Inr n" "sent = take (nat n) data" "async_io_buffer c' = drop l (async_io_buffer c)"
    unfolding async_write_from_io_buff_def Let_def l data_def [symmetric] by (auto split: sum.splits if_splits)
  have "length data = l" by (simp add: data_def l_def)
  moreover have "nat n \<le> length data"
    using w(1) assms(2) by (auto simp: async_write_def taken_def split: if_splits send_answer.splits)
  moreover have "async_io_buffer c = take (nat n) data @ drop (nat n) data @ drop l (async_io_buffer c)"
    unfolding data_def by (metis append_assoc append_take_drop_id)
  ultimately show ?thesis using w by (intro exI [of _ "drop (nat n) data"]) (simp add: l_def)
qed

definition async_example :: async_connection where
  "async_example = (async_init \<lparr>d_fd = 7\<rparr> ''127.0.0.1'' 80)\<lparr>async_io_buffer := ''HTTP/1.0''\<rparr>"

theorem async_write_from_io_buff_loses_witness:
  "\<exists>c'. async_write_from_io_buff (Taken 3) 6 async_example = Inr (3, ''HTT'', c') \<and> async_io_buffer c' = ''.0''
     \<and> (\<exists>lost. ''HTTP/1.0'' = ''HTT'' @ lost @ ''.0'' \<and> length lost = 3)"
proof -
  obtain c' where w: "async_write_from_io_buff (Taken 3) 6 async_example = Inr (3, ''HTT'', c')" "async_io_buffer c' = ''.0''"
    by (simp add: async_write_from_io_buff_def async_example_def async_init_def async_write_def async_is_opened_def is_valid_def
        taken_def)
  from async_write_from_io_buff_loses [OF w(1)] w show ?thesis by (auto simp: async_example_def async_init_def)
qed

end
