(* ===== verification/TcpEpoll.thy ===== *)
theory TcpEpoll imports TcpAsync TcpSync begin

text \<open>
  \<open>tcpcon/async/epoll/server\<close>: the event-driven server. Its state is the listening socket, the epoll
  descriptor and the map of clients; beside it stand what the kernel watches and the calls that closed
  descriptors. The handlers of the user are functions on this state, as they may call every operation
  of the server, extended by the state \<open>'w\<close> of the user that they capture; what \<open>epoll_pwait\<close>, \<open>accept\<close> and the other calls answer is given in advance.
\<close>

section \<open>State\<close>

record epoll_client =
  conn :: async_connection
  conn_events :: "32 word"

record epoll_server =
  listen_fd :: descriptor
  epoll_fd :: descriptor
  es_addr :: string
  es_port :: "16 word"
  clients :: "(int \<times> epoll_client) list"
  stopped :: bool
  watched :: "int \<Rightarrow> 32 word option"
  closed_fds :: "sys_call list"

text \<open>How an operation ends; \<open>Undefined\<close> is what C++ leaves open.\<close>

datatype 'a epoll_outcome = Returns 'a | Throws tcp_exn | Throws_out_of_range | Undefined | Waits

type_synonym 'w handler = "int \<Rightarrow> 32 word \<Rightarrow> 'w epoll_server_scheme \<Rightarrow> bool \<times> 'w epoll_server_scheme"

text \<open>The handlers take the key of the client they are called with, and answer whether they threw.\<close>

record 'w handlers =
  on_event :: "'w handler"
  after_accept :: "'w handler option"
  before_close :: "'w handler option"

record event_loop_config =
  epoll_server_flags :: "32 word"
  epoll_accept_flags :: "32 word"
  max_accept_clients_per_loop :: int

definition EPOLL_IN :: "32 word" where
  "EPOLL_IN = 1"

definition EPOLL_ERR :: "32 word" where
  "EPOLL_ERR = 8"

definition EPOLL_HUP :: "32 word" where
  "EPOLL_HUP = 16"

definition default_config :: event_loop_config where
  "default_config = \<lparr>epoll_server_flags = EPOLL_IN, epoll_accept_flags = EPOLL_IN, max_accept_clients_per_loop = -1\<rparr>"

section \<open>Construction\<close>

text \<open>The constructor sets up the listening socket with the same calls as that of the synchronous server.\<close>

definition epoll_Server :: "listen_answers \<Rightarrow> string \<Rightarrow> 16 word \<Rightarrow> (tcp_exn + epoll_server) \<times> sys_call list" where
  "epoll_Server a ip port =
     (case sync_Server a ip port of
        (Inl e, calls) \<Rightarrow> (Inl e, calls)
      | (Inr s, calls) \<Rightarrow>
          (Inr \<lparr>listen_fd = server_sock_fd s, epoll_fd = Descriptor, es_addr = server_addr s, es_port = server_port s,
             clients = [], stopped = False, watched = (\<lambda>_. None), closed_fds = []\<rparr>, calls))"

text \<open>
  The moves leave out the epoll descriptor and the handlers, and only read \<open>is_stoped_\<close>; the constructor
  leaves the old object its port. What an assignment overwrites is closed.
\<close>

definition epoll_move :: "epoll_server \<Rightarrow> epoll_server \<times> epoll_server" where
  "epoll_move other =
     (let (d, d') = descriptor_move (listen_fd other) in
      (\<lparr>listen_fd = d, epoll_fd = Descriptor, es_addr = es_addr other, es_port = es_port other, clients = clients other,
         stopped = stopped other, watched = (\<lambda>_. None), closed_fds = []\<rparr>,
       other\<lparr>listen_fd := d', es_addr := [], clients := []\<rparr>))"

section \<open>The map of clients and the kernel\<close>

definition server_opened :: "'w epoll_server_scheme \<Rightarrow> bool" where
  "server_opened s \<longleftrightarrow> is_valid (listen_fd s)"

definition client_of :: "'w epoll_server_scheme \<Rightarrow> int \<Rightarrow> epoll_client option" where
  "client_of s k = map_of (clients s) k"

text \<open>A connection that is destroyed closes its descriptor, and the kernel forgets a closed one.\<close>

definition destroy_connection :: "async_connection \<Rightarrow> 'w epoll_server_scheme \<Rightarrow> 'w epoll_server_scheme" where
  "destroy_connection c s =
     s\<lparr>closed_fds := closed_fds s @ async_destroy c,
       watched := (if async_is_opened c then (watched s)(d_fd (async_fd c) := None) else watched s)\<rparr>"

definition epoll_move_assign :: "'w epoll_server_scheme \<Rightarrow> 'w epoll_server_scheme \<Rightarrow> 'w epoll_server_scheme \<times> 'w epoll_server_scheme" where
  "epoll_move_assign this other =
     (let (d, d', calls) = descriptor_move_assign (listen_fd this) (listen_fd other);
          this = this\<lparr>closed_fds := closed_fds this @ calls, watched := (watched this)(d_fd (listen_fd this) := None)\<rparr>;
          this = fold (\<lambda>(k, c). destroy_connection (conn c)) (clients this) this
      in (this\<lparr>listen_fd := d, es_addr := es_addr other, es_port := es_port other, clients := clients other, stopped := stopped other\<rparr>,
          other\<lparr>listen_fd := d', es_addr := [], es_port := 0, clients := []\<rparr>))"

definition erase_client :: "int \<Rightarrow> 'w epoll_server_scheme \<Rightarrow> 'w epoll_server_scheme" where
  "erase_client k s =
     (case client_of s k of
        None \<Rightarrow> s
      | Some c \<Rightarrow> destroy_connection (conn c) (s\<lparr>clients := AList.delete k (clients s)\<rparr>))"

text \<open>
  \<open>epoll_ctl\<close>; \<open>ok\<close> is whether the kernel has no reason of its own to refuse. Adding what is watched and
  changing or removing what is not fails.
\<close>

definition epoll_add :: "bool \<Rightarrow> int \<Rightarrow> 32 word \<Rightarrow> 'w epoll_server_scheme \<Rightarrow> int \<times> 'w epoll_server_scheme" where
  "epoll_add ok fd events s =
     (if ok \<and> watched s fd = None then (0, s\<lparr>watched := (watched s)(fd \<mapsto> events)\<rparr>) else (-1, s))"

definition epoll_mod :: "bool \<Rightarrow> int \<Rightarrow> 32 word \<Rightarrow> 'w epoll_server_scheme \<Rightarrow> int \<times> 'w epoll_server_scheme" where
  "epoll_mod ok fd events s =
     (if ok \<and> watched s fd \<noteq> None then (0, s\<lparr>watched := (watched s)(fd \<mapsto> events)\<rparr>) else (-1, s))"

definition epoll_del :: "bool \<Rightarrow> int \<Rightarrow> 'w epoll_server_scheme \<Rightarrow> int \<times> 'w epoll_server_scheme" where
  "epoll_del ok fd s =
     (if ok \<and> watched s fd \<noteq> None then (0, s\<lparr>watched := (watched s)(fd := None)\<rparr>) else (-1, s))"

section \<open>Operations\<close>

text \<open>
  What happens to the connection passed in: it is kept by the map, given back to the caller's object,
  or destroyed here, as \<open>emplace\<close> keeps an entry that is already there.
\<close>

datatype passed = Kept | Given_back async_connection | Dropped

definition epoll_add_to_event_loop :: "bool \<Rightarrow> async_connection \<Rightarrow> 32 word \<Rightarrow> 'w epoll_server_scheme \<Rightarrow> bool \<times> passed \<times> 'w epoll_server_scheme" where
  "epoll_add_to_event_loop ok c events s =
     (let fd = d_fd (async_fd c) in
      case client_of s fd of
        None \<Rightarrow>
          let s' = s\<lparr>clients := insort_key fst (fd, \<lparr>conn = c, conn_events = events\<rparr>) (clients s)\<rparr> in
          if is_valid (epoll_fd s)
          then (let (status, s'') = epoll_add ok fd events s' in
            if status < 0 then (False, Given_back c, s) else (True, Kept, s''))
          else (True, Kept, s')
      | Some old \<Rightarrow>
          if is_valid (epoll_fd s)
          then (let (status, s') = epoll_add ok fd events s in
            if status < 0
            then (False, Given_back (conn old), destroy_connection c (s'\<lparr>clients := AList.delete fd (clients s')\<rparr>))
            else (True, Dropped, destroy_connection c s'))
          else (True, Dropped, destroy_connection c s))"

definition epoll_remove_from_event_loop :: "bool \<Rightarrow> int \<Rightarrow> 'w epoll_server_scheme \<Rightarrow> bool \<times> 'w epoll_server_scheme" where
  "epoll_remove_from_event_loop ok k s =
     (if is_valid (epoll_fd s)
      then (let (status, s') = epoll_del ok k s in
        if status < 0 then (False, s) else (False, erase_client k s'))
      else (False, erase_client k s))"

definition epoll_change_event :: "bool \<Rightarrow> async_connection \<Rightarrow> 32 word \<Rightarrow> 'w epoll_server_scheme \<Rightarrow> bool epoll_outcome \<times> 'w epoll_server_scheme" where
  "epoll_change_event ok c events s =
     (let fd = d_fd (async_fd c);
          (status, s') = (if is_valid (epoll_fd s) then epoll_mod ok fd events s else (0, s))
      in if status < 0 then (Returns False, s)
         else if client_of s' fd = None then (Throws_out_of_range, s')
         else (Returns True,
           s'\<lparr>clients := map (\<lambda>(k, cl). (k, if k = fd then cl\<lparr>conn_events := events\<rparr> else cl)) (clients s')\<rparr>))"

definition epoll_stop :: "'w epoll_server_scheme \<Rightarrow> 'w epoll_server_scheme" where
  "epoll_stop s = s\<lparr>stopped := True\<rparr>"

text \<open>
  \<open>close_connection\<close> is called with a reference to the connection of a client, given by its key; the
  entry that goes is the one under the number of the descriptor that the connection has then.
\<close>

definition epoll_close_connection :: "'w handlers \<Rightarrow> int \<Rightarrow> 32 word \<Rightarrow> 'w epoll_server_scheme \<Rightarrow> unit epoll_outcome \<times> 'w epoll_server_scheme" where
  "epoll_close_connection h k events s =
     (let s' = (case before_close h of None \<Rightarrow> s | Some f \<Rightarrow> snd (f k events s)) in
      case client_of s' k of
        None \<Rightarrow> (Undefined, s')
      | Some c \<Rightarrow> (Returns (), erase_client (d_fd (async_fd (conn c))) s'))"

text \<open>What follows when an operation returns; any other end is that of the whole.\<close>

definition and_then :: "unit epoll_outcome \<times> 'w epoll_server_scheme \<Rightarrow> ('w epoll_server_scheme \<Rightarrow> unit epoll_outcome \<times> 'w epoll_server_scheme) \<Rightarrow> unit epoll_outcome \<times> 'w epoll_server_scheme" where
  "and_then r f = (case fst r of Returns _ \<Rightarrow> f (snd r) | _ \<Rightarrow> r)"

lemma and_then_simps [simp]:
  "and_then (Returns u, s) f = f s" "and_then (Throws e, s) f = (Throws e, s)" "and_then (Undefined, s) f = (Undefined, s)"
  "and_then (Throws_out_of_range, s) f = (Throws_out_of_range, s)" "and_then (Waits, s) f = (Waits, s)"
  by (simp_all add: and_then_def)

lemma and_then_inv: "P (snd r) \<Longrightarrow> (\<And>s. P s \<Longrightarrow> P (snd (f s))) \<Longrightarrow> P (snd (and_then r f))"
  by (simp add: and_then_def split: epoll_outcome.split)

text \<open>The loop goes on from an iterator whose entry it may have erased.\<close>

definition epoll_close_connections :: "'w handlers \<Rightarrow> 32 word \<Rightarrow> 'w epoll_server_scheme \<Rightarrow> unit epoll_outcome \<times> 'w epoll_server_scheme" where
  "epoll_close_connections h close_type s =
     (case clients s of
        [] \<Rightarrow> (Returns (), s)
      | (k, c) # _ \<Rightarrow> (Undefined, snd (epoll_close_connection h k close_type s)))"

definition epoll_close :: "'w handlers \<Rightarrow> int \<Rightarrow> int \<Rightarrow> 32 word \<Rightarrow> 'w epoll_server_scheme \<Rightarrow> unit epoll_outcome \<times> 'w epoll_server_scheme" where
  "epoll_close h close_answer err close_type s =
     (if server_opened s then
        and_then (epoll_close_connections h close_type s) (\<lambda>s.
          let (status, d, calls) = descriptor_close close_answer (listen_fd s);
              s' = s\<lparr>listen_fd := d, closed_fds := closed_fds s @ calls, watched := (watched s)(d_fd (listen_fd s) := None)\<rparr>
          in (if status < 0 then Throws (throw_tcp ServerCloseError (''error while closing server socket, server_sock_fd='' @ tcp_fd_text d) err)
              else Returns (), s'))
      else (Returns (), s))"

section \<open>Accepting\<close>

text \<open>
  One turn of the loop: \<open>accept\<close> with the address of the client, whether \<open>set_nonblock\<close> succeeds,
  \<open>getsockname\<close>, and whether the kernel would add the descriptor.
\<close>

type_synonym accept_answers = "(int \<times> string \<times> 16 word) sys_answer \<times> bool \<times> (string \<times> 16 word) sys_answer \<times> bool"

definition drop_fd :: "descriptor \<Rightarrow> 'w epoll_server_scheme \<Rightarrow> 'w epoll_server_scheme" where
  "drop_fd d s = s\<lparr>closed_fds := closed_fds s @ descriptor_destroy d\<rparr>"

text \<open>What the caller's object is left with is destroyed.\<close>

definition settle :: "passed \<Rightarrow> 'w epoll_server_scheme \<Rightarrow> 'w epoll_server_scheme" where
  "settle p s = (case p of Given_back c \<Rightarrow> destroy_connection c s | _ \<Rightarrow> s)"

fun epoll_accept_connections ::
  "'w handlers \<Rightarrow> 32 word \<Rightarrow> 32 word \<Rightarrow> int \<Rightarrow> accept_answers list \<Rightarrow> 'w epoll_server_scheme \<Rightarrow> unit epoll_outcome \<times> 'w epoll_server_scheme" where
  "epoll_accept_connections h flags accept_type max_count [] s =
     (if stopped s \<or> max_count = 0 then (Returns (), s) else (Waits, s))"
| "epoll_accept_connections h flags accept_type max_count ((accept, nonblock_ok, getsockname, add_ok) # as) s =
     (if stopped s \<or> max_count = 0 then (Returns (), s)
      else case accept of
        Inl err \<Rightarrow>
          if err = EINTR then epoll_accept_connections h flags accept_type max_count as s
          else if err = EAGAIN \<or> err = EWOULDBLOCK then (Returns (), s)
          else (Throws (throw_tcp AcceptError (''cannot accept new connection, server_sock_fd='' @ tcp_fd_text (listen_fd s)) err), s)
      | Inr (fd, addr, port) \<Rightarrow>
          let client_fd = new_socket (Inr fd) in
          if \<not> nonblock_ok
          then (Throws (throw_tcp AcceptError
                  (''cannot cannot set nonblock for new connection, server_sock_fd='' @ tcp_fd_text (listen_fd s)) 0), drop_fd client_fd s)
          else (case async_accepted getsockname client_fd addr port of
              (Inl e, calls) \<Rightarrow> (Throws e, s\<lparr>closed_fds := closed_fds s @ calls\<rparr>)
            | (Inr c, _) \<Rightarrow>
                let (added, passed, s1) = epoll_add_to_event_loop add_ok c flags s;
                    s2 = settle passed s1;
                    rest = (\<lambda>s. epoll_accept_connections h flags accept_type (if max_count > 0 then max_count - 1 else max_count) as s)
                in case after_accept h of
                     None \<Rightarrow> rest s2
                   | Some f \<Rightarrow> if client_of s2 fd = None then (Throws_out_of_range, s2) else rest (snd (f fd accept_type s2))))"

section \<open>The event loop\<close>

text \<open>An event: the descriptor it is reported for, the events, and what \<open>accept\<close> will answer for it.\<close>

type_synonym epoll_events = "(int \<times> 32 word \<times> accept_answers list) list"

fun dispatch :: "'w handlers \<Rightarrow> event_loop_config \<Rightarrow> epoll_events \<Rightarrow> 'w epoll_server_scheme \<Rightarrow> unit epoll_outcome \<times> 'w epoll_server_scheme" where
  "dispatch h cfg [] s = (Returns (), s)"
| "dispatch h cfg ((fd, events, as) # es) s =
     (if stopped s then (Returns (), s)
      else if fd = d_fd (listen_fd s) then
        and_then (epoll_accept_connections h (epoll_accept_flags cfg) events (max_accept_clients_per_loop cfg) as s)
          (\<lambda>s. dispatch h cfg es s)
      else if client_of s fd = None then (Throws_out_of_range, s)
      else if events AND EPOLL_HUP \<noteq> 0 \<or> events AND EPOLL_ERR \<noteq> 0 then
        and_then (epoll_close_connection h fd events s) (\<lambda>s. dispatch h cfg es s)
      else (case on_event h fd events s of
          (False, s) \<Rightarrow> dispatch h cfg es s
        | (True, s) \<Rightarrow> and_then (epoll_close_connection h fd events s) (\<lambda>s. dispatch h cfg es s)))"

text \<open>The turns of the loop, by what \<open>epoll_pwait\<close> answers.\<close>

fun turns :: "'w handlers \<Rightarrow> event_loop_config \<Rightarrow> epoll_events sys_answer list \<Rightarrow> 'w epoll_server_scheme \<Rightarrow> unit epoll_outcome \<times> 'w epoll_server_scheme" where
  "turns h cfg [] s = (if stopped s then (Returns (), s) else (Waits, s))"
| "turns h cfg (w # ws) s =
     (if stopped s then (Returns (), s)
      else case w of
        Inl err \<Rightarrow>
          if err \<noteq> EINTR
          then (Throws (throw_tcp EpollWaitError (''error epoll_wait_error, server_sock_fd='' @ tcp_fd_text (listen_fd s)) err), s)
          else turns h cfg ws s
      | Inr es \<Rightarrow> and_then (dispatch h cfg es s) (\<lambda>s. turns h cfg ws s))"

text \<open>The prepared clients go to the new epoll descriptor; \<open>oks\<close> are the answers of the kernel.\<close>

fun add_prepared :: "bool list \<Rightarrow> (int \<times> epoll_client) list \<Rightarrow> 'w epoll_server_scheme \<Rightarrow> unit epoll_outcome \<times> 'w epoll_server_scheme" where
  "add_prepared oks [] s = (Returns (), s)"
| "add_prepared oks ((fd, c) # cs) s =
     (let (status, s) = epoll_add (oks \<noteq> [] \<and> hd oks) fd (conn_events c) s in
      if status < 0
      then (Throws (throw_tcp EpollAddError
              (''cannot add to epoll connection with sock_fd='' @ tcp_fd_text (async_fd (conn c)) @ '', event='' @ to_dec (unat (conn_events c))) 0), s)
      else add_prepared (tl oks) cs s)"

definition epoll_event_loop ::
  "'w handlers option \<Rightarrow> event_loop_config \<Rightarrow> int sys_answer \<Rightarrow> bool \<Rightarrow> bool list \<Rightarrow> epoll_events sys_answer list \<Rightarrow> 'w epoll_server_scheme
    \<Rightarrow> unit epoll_outcome \<times> 'w epoll_server_scheme" where
  "epoll_event_loop handler cfg epoll_create server_ok oks ws s =
     (case handler of
        None \<Rightarrow> (Throws (throw_tcp BadHandlerError (''event_loop bad handler, server_sock_fd='' @ tcp_fd_text (listen_fd s)) 0), s)
      | Some h \<Rightarrow>
          let (d, old, calls) = descriptor_move_assign (epoll_fd s) (new_socket epoll_create);
              s = s\<lparr>stopped := False, epoll_fd := d, watched := (\<lambda>_. None), closed_fds := closed_fds s @ calls\<rparr>
          in if \<not> is_valid (epoll_fd s) then (Throws (throw_tcp EpollCreateError ''cannot create epoll entity'' (err_of epoll_create)), s)
             else let flags = epoll_server_flags cfg OR EPOLL_IN; (status, s) = epoll_add server_ok (d_fd (listen_fd s)) flags s in
               if status < 0
               then (Throws (throw_tcp EpollAddError
                       (''cannot add to epoll server socket, server_sock_fd='' @ tcp_fd_text (listen_fd s) @ '', event='' @ to_dec (unat flags)) 0), s)
               else and_then (add_prepared oks (clients s) s) (\<lambda>s. and_then (turns h cfg ws s) (\<lambda>s.
                 let (status, d, calls) = descriptor_close 0 (epoll_fd s)
                 in (Returns (), s\<lparr>epoll_fd := d, watched := (\<lambda>_. None), closed_fds := closed_fds s @ calls\<rparr>))))"

section \<open>The invariant\<close>

text \<open>
  Every key is the descriptor of its connection, and the kernel watches nothing but the listening socket
  and descriptors of clients, so that what it reports can be found in the map.
\<close>

definition keys :: "'w epoll_server_scheme \<Rightarrow> int set" where
  "keys s = fst ` set (clients s)"

definition ep_inv :: "'w epoll_server_scheme \<Rightarrow> bool" where
  "ep_inv s \<longleftrightarrow> distinct (map fst (clients s))
     \<and> (\<forall>(k, c) \<in> set (clients s). 0 \<le> k \<and> d_fd (async_fd (conn c)) = k)
     \<and> (\<forall>k. watched s k \<noteq> None \<longrightarrow> k = d_fd (listen_fd s) \<or> k \<in> keys s)"

lemma ep_inv_extend: "ep_inv (epoll_server.extend s x) = ep_inv s"
  by (simp add: ep_inv_def keys_def epoll_server.defs)

lemma client_of_keys: "client_of s k \<noteq> None \<longleftrightarrow> k \<in> keys s"
  by (auto simp: client_of_def keys_def map_of_eq_None_iff)

lemma client_of_set: "client_of s k = Some c \<Longrightarrow> (k, c) \<in> set (clients s)"
  by (simp add: client_of_def map_of_SomeD)

lemma destroy_connection_sel [simp]:
  "clients (destroy_connection c s) = clients s" "listen_fd (destroy_connection c s) = listen_fd s"
  "epoll_fd (destroy_connection c s) = epoll_fd s" "stopped (destroy_connection c s) = stopped s"
  "keys (destroy_connection c s) = keys s" "client_of (destroy_connection c s) k = client_of s k"
  by (simp_all add: destroy_connection_def keys_def client_of_def)

lemma destroy_connection_watched: "watched (destroy_connection c s) k \<noteq> None \<Longrightarrow> watched s k \<noteq> None"
  by (auto simp: destroy_connection_def split: if_splits)

lemma destroy_connection_inv: "ep_inv s \<Longrightarrow> ep_inv (destroy_connection c s)"
  using destroy_connection_watched [of c s] by (auto simp: ep_inv_def)

lemma settle_inv: "ep_inv s \<Longrightarrow> ep_inv (settle p s)"
  by (cases p) (simp_all add: settle_def destroy_connection_inv)

lemma erase_client_sel [simp]:
  "clients (erase_client k s) = AList.delete k (clients s)" "listen_fd (erase_client k s) = listen_fd s"
  "epoll_fd (erase_client k s) = epoll_fd s" "stopped (erase_client k s) = stopped s"
  "keys (erase_client k s) = keys s - {k}"
  by (auto simp: erase_client_def keys_def client_of_def AList.delete_eq map_of_eq_None_iff split: option.splits
      intro!: filter_True [symmetric] rev_image_eqI)

lemma erase_client_inv:
  assumes "ep_inv s"
  shows "ep_inv (erase_client k s)"
proof -
  have "watched (erase_client k s) j \<noteq> None \<Longrightarrow> watched s j \<noteq> None \<and> (j = k \<longrightarrow> k \<notin> keys s)" for j
  proof (cases "client_of s k")
    case (Some c)
    then have c: "d_fd (async_fd (conn c)) = k" "0 \<le> k"
      using assms client_of_set [OF Some] by (auto simp: ep_inv_def)
    then have "async_is_opened (conn c)" by (simp add: async_is_opened_def is_valid_def)
    with c(1) Some show "watched (erase_client k s) j \<noteq> None \<Longrightarrow> ?thesis"
      by (simp add: erase_client_def destroy_connection_def split: if_splits)
  next
    case None
    then show "watched (erase_client k s) j \<noteq> None \<Longrightarrow> ?thesis"
      using client_of_keys [of s k] by (simp add: erase_client_def)
  qed
  then have "\<forall>j. watched (erase_client k s) j \<noteq> None \<longrightarrow> j = d_fd (listen_fd s) \<or> j \<in> keys s - {k}"
    using assms unfolding ep_inv_def by blast
  moreover have "set (AList.delete k (clients s)) \<subseteq> set (clients s)" by (auto simp: AList.delete_eq)
  then have "\<forall>(j, c) \<in> set (AList.delete k (clients s)). 0 \<le> j \<and> d_fd (async_fd (conn c)) = j"
    using assms unfolding ep_inv_def by blast
  ultimately show ?thesis
    using assms distinct_delete [of "clients s" k] unfolding ep_inv_def erase_client_sel by blast
qed

lemma epoll_ctl_inv:
  "ep_inv s \<Longrightarrow> fd \<in> keys s \<or> fd = d_fd (listen_fd s) \<Longrightarrow> ep_inv (snd (epoll_add ok fd events s))"
  "ep_inv s \<Longrightarrow> ep_inv (snd (epoll_mod ok fd events s))"
  "ep_inv s \<Longrightarrow> ep_inv (snd (epoll_del ok fd s))"
  by (auto simp: ep_inv_def epoll_add_def epoll_mod_def epoll_del_def keys_def)

lemma ctl_sel:
  "epoll_add ok fd events s = (r, s') \<Longrightarrow> clients s' = clients s \<and> listen_fd s' = listen_fd s \<and> epoll_fd s' = epoll_fd s"
  "epoll_mod ok fd events s = (r, s') \<Longrightarrow> clients s' = clients s \<and> listen_fd s' = listen_fd s \<and> epoll_fd s' = epoll_fd s"
  "epoll_del ok fd s = (r, s') \<Longrightarrow> clients s' = clients s \<and> listen_fd s' = listen_fd s \<and> epoll_fd s' = epoll_fd s"
  by (auto simp: epoll_add_def epoll_mod_def epoll_del_def split: if_splits)

lemma insert_client_inv:
  assumes "ep_inv s" "0 \<le> d_fd (async_fd c)" "client_of s (d_fd (async_fd c)) = None"
  shows "ep_inv (s\<lparr>clients := insort_key fst (d_fd (async_fd c), \<lparr>conn = c, conn_events = events\<rparr>) (clients s)\<rparr>)"
    "d_fd (async_fd c) \<in> keys (s\<lparr>clients := insort_key fst (d_fd (async_fd c), \<lparr>conn = c, conn_events = events\<rparr>) (clients s)\<rparr>)"
  using assms by (auto simp: ep_inv_def keys_def set_insort_key distinct_insort_key client_of_def map_of_eq_None_iff)

lemma ep_inv_clients:
  "ep_inv s \<Longrightarrow> ep_inv (s\<lparr>stopped := b\<rparr>)" "ep_inv s \<Longrightarrow> ep_inv (s\<lparr>closed_fds := xs\<rparr>)" "ep_inv s \<Longrightarrow> ep_inv (drop_fd d s)"
  by (simp_all add: ep_inv_def keys_def drop_fd_def)

lemma epoll_add_to_event_loop_inv:
  assumes "ep_inv s" "0 \<le> d_fd (async_fd c)" "epoll_add_to_event_loop ok c events s = (r, p, s')"
  shows "ep_inv s'"
proof (cases "client_of s (d_fd (async_fd c))")
  case None
  define s1 where "s1 = s\<lparr>clients := insort_key fst (d_fd (async_fd c), \<lparr>conn = c, conn_events = events\<rparr>) (clients s)\<rparr>"
  have s1: "ep_inv s1" "d_fd (async_fd c) \<in> keys s1"
    using insert_client_inv [OF assms(1,2) None] by (simp_all add: s1_def)
  have "ep_inv (snd (epoll_add ok (d_fd (async_fd c)) events s1))" using epoll_ctl_inv(1) [OF s1(1)] s1(2) by blast
  with assms(1,3) None s1(1) show ?thesis
    by (auto simp: epoll_add_to_event_loop_def s1_def [symmetric] Let_def split: if_splits prod.splits)
next
  case (Some old)
  then have k: "d_fd (async_fd c) \<in> keys s" using client_of_keys [of s] by force
  obtain status s1 where add: "epoll_add ok (d_fd (async_fd c)) events s = (status, s1)" by fastforce
  from epoll_ctl_inv(1) [OF assms(1), of "d_fd (async_fd c)" ok events] k add have s1: "ep_inv s1" by simp
  show ?thesis
  proof (cases "is_valid (epoll_fd s) \<and> status < 0")
    case True
    then have "s1 = s" using add by (auto simp: epoll_add_def split: if_splits)
    have "async_is_opened (conn old)" "d_fd (async_fd (conn old)) = d_fd (async_fd c)"
      using assms(1,2) client_of_set [OF Some] by (auto simp: ep_inv_def async_is_opened_def is_valid_def)
    then have "async_is_opened c" by (simp add: async_is_opened_def is_valid_def)
    have "s' = destroy_connection c (s\<lparr>clients := AList.delete (d_fd (async_fd c)) (clients s)\<rparr>)"
      using True add Some assms(3) \<open>s1 = s\<close> by (simp add: epoll_add_to_event_loop_def Let_def)
    also have "\<dots> = (erase_client (d_fd (async_fd c)) s)\<lparr>closed_fds := closed_fds s @ async_destroy c\<rparr>"
      using Some \<open>async_is_opened c\<close> \<open>async_is_opened (conn old)\<close> \<open>d_fd (async_fd (conn old)) = d_fd (async_fd c)\<close>
      by (simp add: erase_client_def destroy_connection_def)
    finally show ?thesis using ep_inv_clients(2) [OF erase_client_inv [OF assms(1)]] by simp
  next
    case False
    with add Some assms s1 show ?thesis
      by (auto simp: epoll_add_to_event_loop_def Let_def destroy_connection_inv split: if_splits)
  qed
qed

lemma remove_from_event_loop_inv: "ep_inv s \<Longrightarrow> ep_inv (snd (epoll_remove_from_event_loop ok k s))"
  using epoll_ctl_inv(3) [of s ok k]
  by (auto simp: epoll_remove_from_event_loop_def erase_client_inv split: prod.splits)

lemma change_event_inv: "ep_inv s \<Longrightarrow> ep_inv (snd (epoll_change_event ok c events s))"
proof -
  assume inv: "ep_inv s"
  obtain status s1 where s1: "(if is_valid (epoll_fd s) then epoll_mod ok (d_fd (async_fd c)) events s else (0, s)) = (status, s1)"
    by fastforce
  then have "ep_inv s1" using epoll_ctl_inv(2) [OF inv, of ok "d_fd (async_fd c)" events] inv by (auto split: if_splits)
  then show ?thesis using inv s1
    by (auto simp: epoll_change_event_def Let_def ep_inv_def keys_def image_iff case_prod_unfold comp_def split: if_splits)
qed

text \<open>Handlers that use the server's operations keep the invariant; this is what the loop relies on.\<close>

definition handlers_keep :: "('w epoll_server_scheme \<Rightarrow> bool) \<Rightarrow> 'w handlers \<Rightarrow> bool" where
  "handlers_keep P h \<longleftrightarrow> (\<forall>k e s. P s \<longrightarrow> P (snd (on_event h k e s)))
     \<and> (\<forall>f k e s. after_accept h = Some f \<longrightarrow> P s \<longrightarrow> P (snd (f k e s)))
     \<and> (\<forall>f k e s. before_close h = Some f \<longrightarrow> P s \<longrightarrow> P (snd (f k e s)))"

fun epoll_accept_ok :: "accept_answers \<Rightarrow> bool" where
  "epoll_accept_ok (Inl err, _) = True"
| "epoll_accept_ok (Inr (fd, _), _) = (0 \<le> fd)"

definition events_ok :: "epoll_events \<Rightarrow> bool" where
  "events_ok es \<longleftrightarrow> (\<forall>(fd, ev, as) \<in> set es. list_all epoll_accept_ok as)"

definition wait_ok :: "epoll_events sys_answer \<Rightarrow> bool" where
  "wait_ok w = (case w of Inl err \<Rightarrow> True | Inr es \<Rightarrow> events_ok es)"

lemma epoll_close_connection_inv:
  "handlers_keep ep_inv h \<Longrightarrow> ep_inv s \<Longrightarrow> ep_inv (snd (epoll_close_connection h k events s))"
  by (auto simp: epoll_close_connection_def handlers_keep_def Let_def erase_client_inv split: option.splits)

lemma async_accepted_fd: "async_accepted name d addr port = (Inr c, calls) \<Longrightarrow> async_fd c = d"
  by (auto simp: async_accepted_def async_or_close_def async_set_src_endpoint_def async_init_def split: sum.splits)

lemma accepted_added_inv:
  assumes "handlers_keep ep_inv h" "ep_inv s" "0 \<le> fd" "async_accepted name (new_socket (Inr fd)) addr port = (Inr c, calls)"
    and "epoll_add_to_event_loop add_ok c flags s = (added, p, s1)"
  shows "ep_inv (settle p s1) \<and> (\<forall>f. after_accept h = Some f \<longrightarrow> ep_inv (snd (f fd ty (settle p s1))))"
proof -
  have "d_fd (async_fd c) = fd" using async_accepted_fd [OF assms(4)] by (auto simp: new_socket_def Descriptor_int_def)
  then have "ep_inv (settle p s1)" using epoll_add_to_event_loop_inv [OF assms(2) _ assms(5)] assms(3) by (simp add: settle_inv)
  then show ?thesis using assms(1) by (simp add: handlers_keep_def)
qed

lemma epoll_accept_connections_inv:
  assumes "handlers_keep ep_inv h"
  shows "list_all epoll_accept_ok as \<Longrightarrow> ep_inv s \<Longrightarrow> ep_inv (snd (epoll_accept_connections h flags ty max_count as s))"
proof (induction as arbitrary: s max_count)
  case (Cons a as)
  obtain accept nonblock_ok name add_ok where a: "a = (accept, nonblock_ok, name, add_ok)" by (cases a)
  show ?case
  proof (cases "stopped s \<or> max_count = 0")
    case False
    show ?thesis
    proof (cases accept)
      case (Inl err)
      with Cons False show ?thesis by (simp add: a)
    next
      case (Inr x)
      obtain fd addr port where x: "x = (fd, addr, port)" by (cases x)
      have fd: "0 \<le> fd" using Cons.prems(1) by (simp add: a Inr x)
      let ?d = "new_socket (Inr fd)"
      obtain r calls where acc: "async_accepted name ?d addr port = (r, calls)" by fastforce
      show ?thesis
      proof (cases "nonblock_ok \<and> (\<exists>c. r = Inr c)")
        case True
        then obtain c where r: "r = Inr c" by blast
        obtain added p s1 where add: "epoll_add_to_event_loop add_ok c flags s = (added, p, s1)" by (cases "epoll_add_to_event_loop add_ok c flags s")
        from accepted_added_inv [OF assms Cons.prems(2) fd acc [unfolded r] add] Cons False Inr a x acc r add True
        show ?thesis by (cases "after_accept h") (simp_all add: Let_def)
      next
        case no: False
        show ?thesis
        proof (cases nonblock_ok)
          case True
          with no obtain e where "r = Inl e" by (cases r) auto
          with True False Inr a x acc Cons.prems(2) show ?thesis by (simp add: ep_inv_clients)
        next
          case nb: False
          with False Inr a x Cons.prems(2) show ?thesis by (simp add: ep_inv_clients)
        qed
      qed
    qed
  qed (use Cons.prems a in simp)
qed simp

lemma dispatch_inv:
  assumes "handlers_keep ep_inv h"
  shows "events_ok es \<Longrightarrow> ep_inv s \<Longrightarrow> ep_inv (snd (dispatch h cfg es s))"
proof (induction es arbitrary: s)
  case (Cons x es)
  obtain fd ev as where x: "x = (fd, ev, as)" by (cases x)
  have ok: "list_all epoll_accept_ok as" "events_ok es" using Cons.prems(1) by (auto simp: events_ok_def x)
  note IH = Cons.IH [OF ok(2)]
  obtain threw s1 where on: "on_event h fd ev s = (threw, s1)" by fastforce
  then have s1: "ep_inv s1" using assms Cons.prems(2) by (metis handlers_keep_def snd_conv)
  have close: "ep_inv (snd (and_then (epoll_close_connection h fd ev s') (\<lambda>s. dispatch h cfg es s)))" if "ep_inv s'" for s'
    by (rule and_then_inv [of ep_inv, OF epoll_close_connection_inv [OF assms that] IH])
  have acc: "ep_inv (snd (and_then (epoll_accept_connections h (epoll_accept_flags cfg) ev (max_accept_clients_per_loop cfg) as s)
      (\<lambda>s. dispatch h cfg es s)))"
    by (rule and_then_inv [of ep_inv, OF epoll_accept_connections_inv [OF assms ok(1) Cons.prems(2)] IH])
  show ?case
    unfolding x dispatch.simps on prod.case using Cons.prems(2) acc close [OF Cons.prems(2)] close [OF s1] IH [OF s1]
    by (cases threw) (simp_all split del: if_split split: if_split)
qed simp

lemma turns_inv:
  assumes "handlers_keep ep_inv h"
  shows "list_all wait_ok ws \<Longrightarrow> ep_inv s \<Longrightarrow> ep_inv (snd (turns h cfg ws s))"
proof (induction ws arbitrary: s)
  case (Cons w ws)
  then have IH: "ep_inv s \<Longrightarrow> ep_inv (snd (turns h cfg ws s))" for s by simp
  show ?case
  proof (cases w)
    case (Inr es)
    have "ep_inv (snd (dispatch h cfg es s))"
      using dispatch_inv [OF assms] Cons.prems Inr by (simp add: wait_ok_def)
    from and_then_inv [of ep_inv, OF this IH] Cons.prems(2) Inr show ?thesis by simp
  qed (use Cons.prems IH in simp)
qed simp

lemma add_prepared_inv: "ep_inv s \<Longrightarrow> fst ` set cs \<subseteq> keys s \<Longrightarrow> ep_inv (snd (add_prepared oks cs s))"
proof (induction oks cs s rule: add_prepared.induct)
  case (2 oks fd c cs s)
  obtain status s1 where a: "epoll_add (oks \<noteq> [] \<and> hd oks) fd (conn_events c) s = (status, s1)" by fastforce
  have "ep_inv s1" using epoll_ctl_inv(1) [OF 2(2), of fd "oks \<noteq> [] \<and> hd oks" "conn_events c"] 2(3) a by auto
  moreover have "keys s1 = keys s" using ctl_sel(1) [OF a] by (simp add: keys_def)
  ultimately show ?case using 2(1) [OF a [symmetric]] 2(3) a by auto
qed simp

lemma epoll_Server_inv: "epoll_Server a ip port = (Inr s, calls) \<Longrightarrow> ep_inv s"
  by (auto simp: epoll_Server_def ep_inv_def split: prod.splits sum.splits)

lemma epoll_event_loop_inv:
  assumes "handlers_keep ep_inv h" "list_all wait_ok ws" "ep_inv s"
  shows "ep_inv (snd (epoll_event_loop (Some h) cfg epoll_create server_ok oks ws s))"
proof -
  obtain d old calls where m: "descriptor_move_assign (epoll_fd s) (new_socket epoll_create) = (d, old, calls)"
    by (cases "descriptor_move_assign (epoll_fd s) (new_socket epoll_create)")
  define s1 where "s1 = s\<lparr>stopped := False, epoll_fd := d, watched := (\<lambda>_. None), closed_fds := closed_fds s @ calls\<rparr>"
  have s1: "ep_inv s1" using assms(3) by (simp add: ep_inv_def s1_def keys_def)
  define fl where "fl = epoll_server_flags cfg OR EPOLL_IN"
  obtain status s2 where a: "epoll_add server_ok (d_fd (listen_fd s1)) fl s1 = (status, s2)" by fastforce
  have s2: "ep_inv s2" using epoll_ctl_inv(1) [OF s1, of "d_fd (listen_fd s1)" server_ok fl] a by simp
  have at_end: "ep_inv (s\<lparr>epoll_fd := e, watched := \<lambda>_. None, closed_fds := xs\<rparr>)" if "ep_inv s" for s e xs
    using that by (simp add: ep_inv_def keys_def)
  have "ep_inv (snd (and_then (add_prepared oks (clients s2) s2) (\<lambda>s. and_then (turns h cfg ws s) (\<lambda>s.
      let (status, d, calls) = descriptor_close 0 (epoll_fd s)
      in (Returns (), s\<lparr>epoll_fd := d, watched := (\<lambda>_. None), closed_fds := closed_fds s @ calls\<rparr>)))))"
    using add_prepared_inv [OF s2, of "clients s2" oks]
    by (intro and_then_inv [of ep_inv] turns_inv [OF assms(1,2)]) (auto simp: keys_def at_end split: prod.split)
  then show ?thesis
    using s1 s2 by (simp add: epoll_event_loop_def m s1_def [symmetric] a fl_def [symmetric] Let_def)
qed

section \<open>A batch of events\<close>


text \<open>Handlers that leave the listening socket and the entries of other clients, and their own when they throw.\<close>

definition handlers_local :: "'w handlers \<Rightarrow> bool" where
  "handlers_local h \<longleftrightarrow>
     (\<forall>k e s threw s'. ep_inv s \<longrightarrow> on_event h k e s = (threw, s') \<longrightarrow> listen_fd s' = listen_fd s \<and> keys s - {k} \<subseteq> keys s'
        \<and> (threw \<longrightarrow> k \<in> keys s \<longrightarrow> k \<in> keys s'))
     \<and> (\<forall>f k e s. ep_inv s \<longrightarrow> before_close h = Some f \<longrightarrow> listen_fd (snd (f k e s)) = listen_fd s \<and> keys s \<subseteq> keys (snd (f k e s)))"




section \<open>A backlog of clients\<close>

text \<open>A client that \<open>accept\<close> delivers without any failure.\<close>

definition arriving :: "int \<times> string \<times> 16 word \<Rightarrow> accept_answers" where
  "arriving c = (Inr c, True, Inr ([], 0), True)"

definition no_more :: accept_answers where
  "no_more = (Inl EAGAIN, True, Inr ([], 0), True)"

definition backlog :: "int \<Rightarrow> (int \<times> string \<times> 16 word) list \<Rightarrow> (int \<times> string \<times> 16 word) list" where
  "backlog max_count cs = (if max_count < 0 then cs else take (nat max_count) cs)"

lemma backlog_Cons: "max_count \<noteq> 0 \<Longrightarrow>
    backlog max_count (c # cs) = c # backlog (if max_count > 0 then max_count - 1 else max_count) cs"
  by (cases "nat max_count") (auto simp: backlog_def nat_diff_distrib)

lemma accept_one:
  assumes "\<not> stopped s" "max_count \<noteq> 0" "is_valid (epoll_fd s)" "after_accept h = None"
    and "0 \<le> fd" "fd \<notin> keys s" "watched s fd = None"
  shows "\<exists>s'. epoll_accept_connections h flags ty max_count (arriving (fd, addr, port) # as) s =
      epoll_accept_connections h flags ty (if max_count > 0 then max_count - 1 else max_count) as s'
    \<and> keys s' = insert fd (keys s) \<and> watched s' = (watched s)(fd \<mapsto> flags) \<and> stopped s' = stopped s
    \<and> epoll_fd s' = epoll_fd s \<and> closed_fds s' = closed_fds s"
proof -
  let ?d = "\<lparr>d_fd = fd\<rparr>" and ?c = "(async_init \<lparr>d_fd = fd\<rparr> addr port)\<lparr>async_src_addr := [], async_src_port := 0\<rparr>"
  let ?s = "s\<lparr>clients := insort_key fst (fd, \<lparr>conn = ?c, conn_events = flags\<rparr>) (clients s), watched := (watched s)(fd \<mapsto> flags)\<rparr>"
  have acc: "async_accepted (Inr ([], 0)) ?d addr port = (Inr ?c, [])"
    by (simp add: async_accepted_def async_or_close_def async_set_src_endpoint_def)
  have "client_of s fd = None" using assms(6) client_of_keys by blast
  then have add: "epoll_add_to_event_loop True ?c flags s = (True, Kept, ?s)"
    using assms(3,7) by (simp add: epoll_add_to_event_loop_def async_init_def epoll_add_def)
  have "epoll_accept_connections h flags ty max_count (arriving (fd, addr, port) # as) s =
      epoll_accept_connections h flags ty (if max_count > 0 then max_count - 1 else max_count) as ?s"
    using assms(1,2,4) acc add by (simp add: arriving_def new_socket_def Descriptor_int_def settle_def)
  moreover have "keys ?s = insert fd (keys s)" by (simp add: keys_def set_insort_key)
  ultimately show ?thesis by (intro exI [of _ ?s]) simp
qed

section \<open>What handlers do\<close>

text \<open>
  What a handler does with a connection that it is given, other than closing or reconnecting it: it reads, sends
  from the buffer, and uses the buffer, which it may change. What the calls return is up to the handler.
\<close>

datatype conn_use = Read_in recv_answer nat | Read recv_answer nat | Write_from send_answer nat | Set_buffer string

fun used :: "conn_use \<Rightarrow> async_connection \<Rightarrow> async_connection" where
  "used (Read_in a n) c = (case async_read_in_io_buff a n c of Inl e \<Rightarrow> c | Inr (r, c) \<Rightarrow> c)"
| "used (Read a n) c = (case async_read a n c of Inl e \<Rightarrow> c | Inr (r, bs, c) \<Rightarrow> c)"
| "used (Write_from a n) c = (case async_write_from_io_buff a n c of Inl e \<Rightarrow> c | Inr (r, bs, c) \<Rightarrow> c)"
| "used (Set_buffer b) c = c\<lparr>async_io_buffer := b\<rparr>"

definition use_client :: "int \<Rightarrow> conn_use \<Rightarrow> 'w epoll_server_scheme \<Rightarrow> 'w epoll_server_scheme" where
  "use_client k u s = s\<lparr>clients := map (\<lambda>(j, cl). (j, if j = k then cl\<lparr>conn := used u (conn cl)\<rparr> else cl)) (clients s)\<rparr>"

text \<open>
  The code of the handlers \<open>h\<close> of a server: the operations of the server, the uses of connections, the state it
  captured, one after the other, where what comes next may depend on all there is to see.
\<close>

inductive handler_code :: "'w handlers \<Rightarrow> ('w epoll_server_scheme \<Rightarrow> 'w epoll_server_scheme) \<Rightarrow> bool" for h where
  Nothing: "handler_code h (\<lambda>s. s)"
| Sequence: "handler_code h f \<Longrightarrow> handler_code h g \<Longrightarrow> handler_code h (\<lambda>s. g (f s))"
| Depending: "\<forall>x. handler_code h (f x) \<Longrightarrow> handler_code h (\<lambda>s. f s s)"
| Own_state: "handler_code h (epoll_server.more_update f)"
| Use: "handler_code h (use_client k u)"
| Adding: "async_is_opened c \<Longrightarrow> handler_code h (\<lambda>s. let (added, p, s) = epoll_add_to_event_loop ok c events s in settle p s)"
| Removing: "handler_code h (\<lambda>s. snd (epoll_remove_from_event_loop ok k s))"
| Changing: "handler_code h (\<lambda>s. snd (epoll_change_event ok c events s))"
| Stopping: "handler_code h epoll_stop"
| Closing: "\<forall>f. before_close h = Some f \<longrightarrow> (\<forall>k e. handler_code h (\<lambda>s. snd (f k e s))) \<Longrightarrow>
    handler_code h (\<lambda>s. snd (epoll_close_connection h k events s))"
| Closing_server: "\<forall>f. before_close h = Some f \<longrightarrow> (\<forall>k e. handler_code h (\<lambda>s. snd (f k e s))) \<Longrightarrow>
    handler_code h (\<lambda>s. snd (epoll_close h a err close_type s))"

definition handlers_code :: "'w handlers \<Rightarrow> bool" where
  "handlers_code h \<longleftrightarrow> (\<forall>k e. handler_code h (\<lambda>s. snd (on_event h k e s)))
     \<and> (\<forall>f k e. after_accept h = Some f \<longrightarrow> handler_code h (\<lambda>s. snd (f k e s)))
     \<and> (\<forall>f k e. before_close h = Some f \<longrightarrow> handler_code h (\<lambda>s. snd (f k e s)))"

lemma used_fd [simp]: "async_fd (used u c) = async_fd c"
  by (cases u) (auto simp: async_read_in_io_buff_def async_read_def async_write_from_io_buff_def Let_def split: sum.splits recv_answer.splits)

lemma use_client_inv: "ep_inv s \<Longrightarrow> ep_inv (use_client k u s)"
proof -
  have "map fst (clients (use_client k u s)) = map fst (clients s)" by (simp add: use_client_def split_beta comp_def)
  then have "keys (use_client k u s) = keys s" by (metis keys_def list.set_map)
  moreover assume "ep_inv s"
  ultimately show ?thesis
    using \<open>map fst (clients (use_client k u s)) = map fst (clients s)\<close> by (auto simp: ep_inv_def) (auto simp: use_client_def split: if_splits)
qed

lemma erase_after_inv:
  assumes "\<And>f k e. before_close h = Some f \<Longrightarrow> ep_inv s \<Longrightarrow> ep_inv (snd (f k e s))" "ep_inv s"
  shows "ep_inv (snd (epoll_close_connection h k events s))"
  using assms by (auto simp: epoll_close_connection_def Let_def erase_client_inv split: option.splits)

lemma epoll_close_inv:
  assumes "\<And>f k e. before_close h = Some f \<Longrightarrow> ep_inv s \<Longrightarrow> ep_inv (snd (f k e s))" "ep_inv s"
  shows "ep_inv (snd (epoll_close h a err close_type s))"
proof -
  have "ep_inv (snd (epoll_close_connection h k close_type s))" for k
    by (rule erase_after_inv) (use assms in blast)+
  then have "ep_inv (snd (epoll_close_connections h close_type s))"
    using assms(2) by (auto simp: epoll_close_connections_def split: list.split)
  moreover have "ep_inv (t\<lparr>listen_fd := d, closed_fds := xs, watched := (watched t)(d_fd (listen_fd t) := None)\<rparr>)"
    if "ep_inv t" for t :: "'a epoll_server_scheme" and d xs
    using that by (auto simp: ep_inv_def keys_def)
  ultimately show ?thesis using assms(2)
    by (auto simp: epoll_close_def split: prod.split intro!: and_then_inv [of ep_inv])
qed

lemma handler_code_inv: "handler_code h f \<Longrightarrow> ep_inv s \<Longrightarrow> ep_inv (f s)"
proof (induction arbitrary: s rule: handler_code.induct)
  case (Own_state f)
  then show ?case by (simp add: ep_inv_def keys_def)
next
  case (Adding c ok events)
  obtain r p s1 where a: "epoll_add_to_event_loop ok c events s = (r, p, s1)" by (cases "epoll_add_to_event_loop ok c events s")
  then show ?case using epoll_add_to_event_loop_inv [OF Adding(2) _ a] Adding(1) settle_inv [of s1 p]
    by (simp add: async_is_opened_def is_valid_def)
next
  case (Closing k events)
  then show ?case by (intro erase_after_inv) auto
next
  case (Closing_server a err close_type)
  then show ?case by (intro epoll_close_inv) auto
qed (auto intro: use_client_inv remove_from_event_loop_inv change_event_inv simp: epoll_stop_def ep_inv_clients)

lemma handlers_code_keep: "handlers_code h \<Longrightarrow> handlers_keep ep_inv h"
  unfolding handlers_code_def handlers_keep_def using handler_code_inv by metis

section \<open>Programs of operations\<close>

datatype 'w epoll_op =
    Add_connection bool async_connection "32 word"
  | Remove_connection bool int
  | Change_event bool async_connection "32 word"
  | Close_connection "'w handlers" int "32 word"
  | Stop
  | Close_server "'w handlers" int int "32 word"
  | Event_loop "'w handlers" event_loop_config "int sys_answer" bool "bool list" "epoll_events sys_answer list"

fun epoll_op_step :: "'w epoll_op \<Rightarrow> 'w epoll_server_scheme \<Rightarrow> 'w epoll_server_scheme" where
  "epoll_op_step (Add_connection ok c events) s = (let (added, p, s) = epoll_add_to_event_loop ok c events s in settle p s)"
| "epoll_op_step (Remove_connection ok k) s = snd (epoll_remove_from_event_loop ok k s)"
| "epoll_op_step (Change_event ok c events) s = snd (epoll_change_event ok c events s)"
| "epoll_op_step (Close_connection h k events) s = snd (epoll_close_connection h k events s)"
| "epoll_op_step Stop s = epoll_stop s"
| "epoll_op_step (Close_server h a err close_type) s = snd (epoll_close h a err close_type s)"
| "epoll_op_step (Event_loop h cfg create ok oks ws) s = snd (epoll_event_loop (Some h) cfg create ok oks ws s)"

fun epoll_op_ok :: "'w epoll_op \<Rightarrow> bool" where
  "epoll_op_ok (Add_connection ok c events) = async_is_opened c"
| "epoll_op_ok (Remove_connection ok k) = True"
| "epoll_op_ok (Change_event ok c events) = True"
| "epoll_op_ok (Close_connection h k events) = handlers_code h"
| "epoll_op_ok Stop = True"
| "epoll_op_ok (Close_server h a err close_type) = handlers_code h"
| "epoll_op_ok (Event_loop h cfg create ok oks ws) = (handlers_code h \<and> list_all wait_ok ws)"

lemma epoll_op_step_inv:
  assumes "ep_inv s" "epoll_op_ok op"
  shows "ep_inv (epoll_op_step op s)"
proof (cases op)
  case (Add_connection ok c events)
  have "handler_code h (\<lambda>s. let (added, p, s) = epoll_add_to_event_loop ok c events s in settle p s)" for h :: "'a handlers"
    using assms(2) Add_connection by (intro Adding) simp
  from handler_code_inv [OF this assms(1)] Add_connection show ?thesis by simp
next
  case (Close_server h a err close_type)
  with assms show ?thesis using handlers_code_keep [of h] by (auto simp: handlers_keep_def intro!: epoll_close_inv)
qed (use assms in \<open>simp_all add: handlers_code_keep remove_from_event_loop_inv change_event_inv epoll_close_connection_inv
  epoll_event_loop_inv epoll_stop_def ep_inv_clients\<close>)

text \<open>
  The servers a program can have: new ones, those after an operation, and those moved into a new object or over
  another one. An object that was moved from is not among them: it keeps its epoll descriptor, if it has one.
\<close>

inductive epoll_program :: "'w epoll_server_scheme \<Rightarrow> bool" where
  Constructed: "epoll_Server a ip port = (Inr s0, calls) \<Longrightarrow> epoll_program (epoll_server.extend s0 x)"
| Operated: "epoll_program s \<Longrightarrow> epoll_op_ok op \<Longrightarrow> epoll_program (epoll_op_step op s)"
| Moved: "epoll_program s \<Longrightarrow> epoll_program (epoll_server.extend (fst (epoll_move (epoll_server.truncate s))) (epoll_server.more s))"
| Assigned: "epoll_program s \<Longrightarrow> epoll_program other \<Longrightarrow> epoll_program (fst (epoll_move_assign s other))"

lemma destroyed_clients:
  "\<forall>(k, c) \<in> set cs. 0 \<le> k \<and> d_fd (async_fd (conn c)) = k \<Longrightarrow>
   watched (fold (\<lambda>(k, c). destroy_connection (conn c)) cs s) fd \<noteq> None \<Longrightarrow> watched s fd \<noteq> None \<and> fd \<notin> fst ` set cs"
proof (induction cs arbitrary: s)
  case (Cons x cs)
  obtain k c where x: "x = (k, c)" by (cases x)
  then have k: "0 \<le> k" "d_fd (async_fd (conn c)) = k" using Cons.prems(1) by simp_all
  then have "async_is_opened (conn c)" by (simp add: async_is_opened_def is_valid_def)
  then show ?case using Cons.IH [of "destroy_connection (conn c) s"] Cons.prems k(2)
    by (auto simp: x destroy_connection_def split: if_splits)
qed simp

lemma move_assign_inv:
  assumes "ep_inv this" "ep_inv other"
  shows "ep_inv (fst (epoll_move_assign this other))"
proof -
  obtain d d' calls where m: "descriptor_move_assign (listen_fd this) (listen_fd other) = (d, d', calls)"
    by (cases "descriptor_move_assign (listen_fd this) (listen_fd other)")
  define t where "t = this\<lparr>closed_fds := closed_fds this @ calls, watched := (watched this)(d_fd (listen_fd this) := None)\<rparr>"
  define u where "u = fold (\<lambda>(k, c). destroy_connection (conn c)) (clients this) t"
  have keys: "\<forall>(k, c) \<in> set (clients this). 0 \<le> k \<and> d_fd (async_fd (conn c)) = k" using assms(1) by (simp add: ep_inv_def)
  have "watched u fd = None" for fd
  proof (rule ccontr)
    assume "watched u fd \<noteq> None"
    with destroyed_clients [OF keys] have "watched t fd \<noteq> None" "fd \<notin> keys this" unfolding u_def keys_def by blast+
    then show False using assms(1) by (auto simp: ep_inv_def t_def split: if_splits)
  qed
  moreover have "fst (epoll_move_assign this other) =
      u\<lparr>listen_fd := d, es_addr := es_addr other, es_port := es_port other, clients := clients other, stopped := stopped other\<rparr>"
    by (simp add: epoll_move_assign_def m t_def [symmetric] u_def [symmetric] Let_def)
  ultimately show ?thesis using assms(2) by (simp add: ep_inv_def)
qed

lemma epoll_program_inv: "epoll_program s \<Longrightarrow> ep_inv s"
proof (induction rule: epoll_program.induct)
  case (Constructed a ip port s0 calls x)
  then show ?case using epoll_Server_inv by (simp add: ep_inv_extend)
next
  case (Moved s)
  then show ?case
    unfolding ep_inv_extend by (simp add: epoll_move_def epoll_server.defs ep_inv_def keys_def split: prod.split)
qed (simp_all add: epoll_op_step_inv move_assign_inv)

section \<open>Closing and removing\<close>

text \<open>\<open>close\<close> with a client steps from the iterator it erased; \<open>remove_from_event_loop\<close> never answers true.\<close>

lemma epoll_close_outcome:
  "server_opened s \<Longrightarrow> clients s \<noteq> [] \<Longrightarrow> fst (epoll_close h a err ty s) = Undefined"
  "server_opened s \<Longrightarrow> clients s = [] \<Longrightarrow> 0 \<le> a \<Longrightarrow> fst (epoll_close h a err ty s) = Returns ()"
  by (cases "clients s"; auto simp: epoll_close_def epoll_close_connections_def descriptor_close_def server_opened_def split: prod.split)+

lemma remove_answers_false: "\<not> fst (epoll_remove_from_event_loop ok k s)"
  by (simp add: epoll_remove_from_event_loop_def split: prod.split)

section \<open>Properties\<close>

text \<open>
  C3: Every server a program can make, by construction, operations on open connections, event loops, closing and moves,
  whatever state the handlers capture, but for objects that were moved from: every key of its map is the descriptor of an open connection, and whatever
  descriptor the kernel can report is the listening socket or has a client in the map. The handlers may
  use the operations of the server, except to move it or run its loop again, and the connections they are given, but must not \<open>close\<close> or
  \<open>connect\<close> these connections themselves (what comes of that is \<open>closed_entry_refuses_client\<close>).
\<close>

theorem epoll_server_invariant:
  assumes "epoll_program s"
  shows "(\<forall>k c. client_of s k = Some c \<longrightarrow> async_is_opened (conn c) \<and> d_fd (async_fd (conn c)) = k)
    \<and> (\<forall>fd. watched s fd \<noteq> None \<longrightarrow> fd = d_fd (listen_fd s) \<or> (\<exists>c. client_of s fd = Some c))"
proof -
  have inv: "ep_inv s" using epoll_program_inv [OF assms] .
  have "async_is_opened (conn c) \<and> d_fd (async_fd (conn c)) = k" if "client_of s k = Some c" for k c
    using inv client_of_set [OF that] by (auto simp: ep_inv_def async_is_opened_def is_valid_def)
  moreover have "fd = d_fd (listen_fd s) \<or> (\<exists>c. client_of s fd = Some c)" if "watched s fd \<noteq> None" for fd
    using inv that client_of_keys [of s fd] by (auto simp: ep_inv_def)
  ultimately show ?thesis by blast
qed

definition listening :: listen_answers where
  "listening = \<lparr>a_socket = Inr 3, a_setsockopt = Inr (), a_inet_pton = True, a_bind = Inr (), a_listen = Inr (),
     a_getsockname = Inr 0\<rparr>"

text \<open>The handler stops the server; the two clients come in with the first event.\<close>

definition quiet :: "'w handlers" where
  "quiet = \<lparr>on_event = (\<lambda>k e s. (False, epoll_stop s)), after_accept = None, before_close = None\<rparr>"

definition two_clients :: "epoll_events sys_answer list" where
  "two_clients = [Inl EINTR, Inr [(3, EPOLL_IN, [arriving (5, ''10.0.0.1'', 4000), arriving (7, ''10.0.0.2'', 4001), no_more])],
     Inr [(7, EPOLL_HUP, []), (5, EPOLL_IN, [])]]"

theorem epoll_server_invariant_witness:
  "\<exists>s0 s. epoll_Server listening ''0.0.0.0'' 80 = (Inr s0, []) \<and> s = epoll_op_step (Event_loop quiet default_config (Inr 4) True [] two_clients) s0
     \<and> keys s = {5} \<and> closed_fds s = [Close 7, Close 4] \<and> (\<forall>k c. client_of s k = Some c \<longrightarrow> async_is_opened (conn c))"
proof -
  obtain s0 where s0: "epoll_Server listening ''0.0.0.0'' 80 = (Inr s0, [])"
    "s0 = \<lparr>listen_fd = \<lparr>d_fd = 3\<rparr>, epoll_fd = \<lparr>d_fd = -1\<rparr>, es_addr = ''0.0.0.0'', es_port = 80, clients = [], stopped = False,
        watched = (\<lambda>_. None), closed_fds = []\<rparr>"
    by (simp add: epoll_Server_def sync_Server_def listening_def new_socket_def Descriptor_int_def or_close_def is_valid_def failed_def Descriptor_def)
  have "handlers_code quiet" by (simp add: handlers_code_def quiet_def Stopping)
  then have ok: "epoll_op_ok (Event_loop quiet default_config (Inr 4) True [] two_clients)"
    by (simp add: two_clients_def wait_ok_def events_ok_def arriving_def no_more_def)
  define s where "s = epoll_op_step (Event_loop quiet default_config (Inr 4) True [] two_clients) s0"
  have "keys s = {5} \<and> closed_fds s = [Close 7, Close 4]"
    by (simp add: s_def s0(2) epoll_event_loop_def descriptor_move_assign_def descriptor_swap_def descriptor_destroy_def descriptor_close_def
        Descriptor_def is_valid_def new_socket_def Descriptor_int_def epoll_add_def two_clients_def EINTR_def default_config_def arriving_def
        no_more_def EAGAIN_def async_accepted_def async_or_close_def async_set_src_endpoint_def async_init_def epoll_add_to_event_loop_def
        client_of_def settle_def quiet_def EPOLL_IN_def EPOLL_HUP_def EPOLL_ERR_def epoll_close_connection_def erase_client_def
        destroy_connection_def async_is_opened_def async_destroy_def epoll_stop_def keys_def)
  moreover have "epoll_server.extend s0 () = s0" by (simp add: epoll_server.defs)
  then have "epoll_program s" using Operated [OF Constructed [OF s0(1), of "()"] ok] by (simp add: s_def)
  from epoll_server_invariant [OF this] have "\<forall>k c. client_of s k = Some c \<longrightarrow> async_is_opened (conn c)" by blast
  ultimately show ?thesis using s0(1) by (auto simp: s_def)
qed


definition two_connected :: epoll_server where
  "two_connected = \<lparr>listen_fd = \<lparr>d_fd = 3\<rparr>, epoll_fd = \<lparr>d_fd = 4\<rparr>, es_addr = [], es_port = 80,
     clients = [(5, \<lparr>conn = async_init \<lparr>d_fd = 5\<rparr> [] 1, conn_events = EPOLL_IN\<rparr>), (7, \<lparr>conn = async_init \<lparr>d_fd = 7\<rparr> [] 2, conn_events = EPOLL_IN\<rparr>)],
     stopped = False, watched = [3 \<mapsto> EPOLL_IN, 5 \<mapsto> EPOLL_IN, 7 \<mapsto> EPOLL_IN], closed_fds = []\<rparr>"

text \<open>One handler throws; another closes the other client.\<close>

definition throwing :: "'w handlers" where
  "throwing = \<lparr>on_event = (\<lambda>k e s. (True, s)), after_accept = None, before_close = None\<rparr>"

definition closing_other :: "unit handlers" where
  "closing_other = \<lparr>on_event = (\<lambda>k e s. (False, snd (epoll_close_connection throwing (12 - k) 0 s))), after_accept = None, before_close = None\<rparr>"

lemmas connected_simps = two_connected_def client_of_def EPOLL_IN_def EPOLL_HUP_def EPOLL_ERR_def epoll_close_connection_def
  erase_client_def destroy_connection_def async_is_opened_def async_destroy_def async_init_def is_valid_def descriptor_close_def


text \<open>
  When a handler closes another client whose event is in the same batch, the lookup of that event
  throws \<open>std::out_of_range\<close> out of the event loop, although every operation used is public.
\<close>

theorem stale_event_ends_loop:
  "fst (epoll_event_loop (Some closing_other) default_config (Inr 8) True [True, True]
        [Inr [(5, EPOLL_IN, []), (7, EPOLL_IN, [])]] two_connected) = Throws_out_of_range
     \<and> handlers_keep ep_inv closing_other \<and> \<not> handlers_local closing_other \<and> ep_inv two_connected"
proof -
  have "handlers_keep ep_inv closing_other"
    using epoll_close_connection_inv [of throwing] by (auto simp: handlers_keep_def closing_other_def) (auto simp: throwing_def)
  moreover have "ep_inv two_connected" by (simp add: ep_inv_def keys_def two_connected_def async_init_def)
  then have "\<not> handlers_local closing_other"
    unfolding handlers_local_def
    by (auto simp: closing_other_def throwing_def connected_simps keys_def intro!: exI [of _ "5::int"] exI [of _ two_connected])
  moreover have "ep_inv two_connected" by (simp add: ep_inv_def keys_def two_connected_def async_init_def)
  moreover have "fst (epoll_event_loop (Some closing_other) default_config (Inr 8) True [True, True]
        [Inr [(5, EPOLL_IN, []), (7, EPOLL_IN, [])]] two_connected) = Throws_out_of_range"
    by (simp add: epoll_event_loop_def descriptor_move_assign_def descriptor_swap_def descriptor_destroy_def
        Descriptor_def new_socket_def Descriptor_int_def epoll_add_def default_config_def closing_other_def throwing_def connected_simps)
  ultimately show ?thesis by blast
qed

text \<open>
  C23: A running event loop without an after-accept handler takes a backlog of clients, whose descriptors are new to
  the server and for which no call fails, until it is empty or the given number was taken: exactly
  those clients come into the map and are watched, and no descriptor is closed.
\<close>

theorem accept_takes_backlog:
  assumes "\<not> stopped s" "is_valid (epoll_fd s)" "after_accept h = None" "distinct (map fst cs)"
    and "\<forall>(fd, x) \<in> set cs. 0 \<le> fd \<and> fd \<notin> keys s \<and> watched s fd = None"
  shows "\<exists>s'. epoll_accept_connections h flags ty max_count (map arriving cs @ [no_more]) s = (Returns (), s')
    \<and> keys s' = keys s \<union> fst ` set (backlog max_count cs)
    \<and> watched s' = (\<lambda>fd. if fd \<in> fst ` set (backlog max_count cs) then Some flags else watched s fd)
    \<and> closed_fds s' = closed_fds s"
  using assms(1,2,4,5)
proof (induction cs arbitrary: s max_count)
  case Nil
  then show ?case by (simp add: no_more_def backlog_def EAGAIN_def EINTR_def)
next
  case (Cons c cs)
  obtain fd addr port where c: "c = (fd, addr, port)" by (cases c)
  show ?case
  proof (cases "max_count = 0")
    case True
    with c show ?thesis by (simp add: arriving_def backlog_def)
  next
    case False
    from Cons.prems(4) have new: "0 \<le> fd" "fd \<notin> keys s" "watched s fd = None" by (simp_all add: c)
    obtain s1 where
      s1: "epoll_accept_connections h flags ty max_count (arriving c # map arriving cs @ [no_more]) s =
          epoll_accept_connections h flags ty (if max_count > 0 then max_count - 1 else max_count) (map arriving cs @ [no_more]) s1"
        "keys s1 = insert fd (keys s)" "watched s1 = (watched s)(fd \<mapsto> flags)" "stopped s1 = stopped s" "epoll_fd s1 = epoll_fd s"
        "closed_fds s1 = closed_fds s"
      using accept_one [OF Cons.prems(1) False Cons.prems(2) assms(3) new, of flags ty addr port "map arriving cs @ [no_more]"]
      unfolding c by blast
    have "\<forall>(fd, x) \<in> set cs. 0 \<le> fd \<and> fd \<notin> keys s1 \<and> watched s1 fd = None"
      using Cons.prems(3,4) s1(2,3) by (force simp: c)
    from Cons.IH [OF _ _ _ this, of "if max_count > 0 then max_count - 1 else max_count"] Cons.prems s1
    obtain s' where s': "epoll_accept_connections h flags ty (if max_count > 0 then max_count - 1 else max_count) (map arriving cs @ [no_more]) s1 = (Returns (), s')"
      "keys s' = keys s1 \<union> fst ` set (backlog (if max_count > 0 then max_count - 1 else max_count) cs)"
      "watched s' = (\<lambda>fd. if fd \<in> fst ` set (backlog (if max_count > 0 then max_count - 1 else max_count) cs) then Some flags else watched s1 fd)"
      "closed_fds s' = closed_fds s1" by auto
    note b = backlog_Cons [OF False, of c cs]
    have "keys s' = keys s \<union> fst ` set (backlog max_count (c # cs))" unfolding b s'(2) s1(2) by (simp add: c)
    moreover have "watched s' = (\<lambda>fd. if fd \<in> fst ` set (backlog max_count (c # cs)) then Some flags else watched s fd)"
      unfolding b s'(3) s1(3) by (auto simp: c fun_eq_iff)
    ultimately show ?thesis using s1(1,6) s'(1,4) by auto
  qed
qed

theorem accept_takes_backlog_witness:
  "\<exists>s'. epoll_accept_connections throwing EPOLL_IN EPOLL_IN 1 (map arriving [(9, ''10.0.0.1'', 1), (11, ''10.0.0.2'', 2)] @ [no_more]) two_connected = (Returns (), s')
     \<and> keys s' = {5, 7, 9}"
  using accept_takes_backlog [of two_connected throwing "[(9, ''10.0.0.1'', 1), (11, ''10.0.0.2'', 2)]" EPOLL_IN EPOLL_IN 1]
  by (auto simp: throwing_def two_connected_def keys_def is_valid_def backlog_def)

text \<open>
  An entry whose connection was closed by its own \<open>close\<close> stays in the map and takes its descriptor
  out of use: when the kernel gives the same number to a new client, the map keeps the old entry, and
  the connection of the new client is closed at once, without an error.
\<close>

theorem closed_entry_refuses_client:
  assumes "client_of s fd = Some c" "\<not> async_is_opened (conn c)" "is_valid (epoll_fd s)" "watched s fd = None" "0 \<le> fd"
    and "\<not> stopped s" "max_count \<noteq> 0" "after_accept h = None"
  shows "\<exists>s'. epoll_accept_connections h flags ty max_count [arriving (fd, addr, port), no_more] s = (Returns (), s')
    \<and> clients s' = clients s \<and> watched s' = watched s \<and> closed_fds s' = closed_fds s @ [Close fd]"
proof -
  let ?c = "(async_init \<lparr>d_fd = fd\<rparr> addr port)\<lparr>async_src_addr := [], async_src_port := 0\<rparr>"
  let ?s = "s\<lparr>watched := (watched s)(fd := None), closed_fds := closed_fds s @ [Close fd]\<rparr>"
  have acc: "async_accepted (Inr ([], 0)) \<lparr>d_fd = fd\<rparr> addr port = (Inr ?c, [])"
    by (simp add: async_accepted_def async_or_close_def async_set_src_endpoint_def)
  have add: "epoll_add_to_event_loop True ?c flags s = (True, Dropped, ?s)"
    using assms by (simp add: epoll_add_to_event_loop_def async_init_def epoll_add_def destroy_connection_def async_is_opened_def
        is_valid_def async_destroy_def descriptor_close_def)
  have w: "(watched s)(fd := None) = watched s" using assms(4) by (simp add: fun_upd_idem)
  show ?thesis
    using assms(6-8) acc add w
    by (intro exI [of _ ?s]) (simp add: arriving_def no_more_def new_socket_def Descriptor_int_def settle_def EAGAIN_def EINTR_def)
qed

definition closed_by_handler :: epoll_server where
  "closed_by_handler = two_connected\<lparr>clients := [(5, \<lparr>conn = fst (snd (async_close 0 0 0 (async_init \<lparr>d_fd = 5\<rparr> [] 1))), conn_events = EPOLL_IN\<rparr>)],
     watched := [3 \<mapsto> EPOLL_IN]\<rparr>"

theorem closed_entry_refuses_client_witness:
  "\<exists>s'. epoll_accept_connections throwing EPOLL_IN EPOLL_IN (-1) [arriving (5, ''10.0.0.9'', 9), no_more] closed_by_handler = (Returns (), s')
     \<and> closed_fds s' = [Close 5] \<and> length (clients s') = 1"
  using closed_entry_refuses_client [of closed_by_handler 5 _ "-1" throwing EPOLL_IN EPOLL_IN "''10.0.0.9''" 9]
  by (auto simp: closed_by_handler_def async_close_def throwing_def connected_simps)

end
