(* ===== verification/DemoEcho.thy ===== *)
theory DemoEcho imports TcpEpoll Demo begin

text \<open>
  \<open>hw4_test\<close> of \<open>src/utils.cpp\<close>: an echo server, the handlers that a program gives to
  \<open>tcpcon::async::ipv4::Server\<close>, run in a child process, and the two clients of the parent. The
  handlers capture what the kernel will answer to their own calls; what they print and what passes
  the sockets is a log.
\<close>

section \<open>The state the handlers capture\<close>

datatype echo_line =
    Accepted_line int string
  | Closing_line int string
  | Error_line string
  | Got int string
  | Put int string

record echo_server = epoll_server +
  echo_recvs :: "recv_answer list"
  echo_sends :: "send_answer list"
  echo_log :: "echo_line list"

definition echo_say :: "echo_line \<Rightarrow> echo_server \<Rightarrow> echo_server" where
  "echo_say l s = s\<lparr>echo_log := echo_log s @ [l]\<rparr>"

text \<open>The answer of the next call; with none left it would block.\<close>

definition echo_recv :: "echo_server \<Rightarrow> recv_answer \<times> echo_server" where
  "echo_recv s = (case echo_recvs s of [] \<Rightarrow> (Recv_error EAGAIN, s) | a # as \<Rightarrow> (a, s\<lparr>echo_recvs := as\<rparr>))"

definition echo_send :: "echo_server \<Rightarrow> send_answer \<times> echo_server" where
  "echo_send s = (case echo_sends s of [] \<Rightarrow> (Send_error EAGAIN, s) | a # as \<Rightarrow> (a, s\<lparr>echo_sends := as\<rparr>))"

text \<open>The handler works on a reference to the connection in the map.\<close>

definition set_conn :: "int \<Rightarrow> async_connection \<Rightarrow> echo_server \<Rightarrow> echo_server" where
  "set_conn k c s = s\<lparr>clients := map (\<lambda>(j, cl). (j, if j = k then cl\<lparr>conn := c\<rparr> else cl)) (clients s)\<rparr>"

section \<open>The handlers\<close>

definition max_len_per_call :: nat where
  "max_len_per_call = 256"

definition echo_after_accept :: "int \<Rightarrow> 32 word \<Rightarrow> echo_server \<Rightarrow> bool \<times> echo_server" where
  "echo_after_accept k events s =
     (case client_of s k of
        None \<Rightarrow> (False, s)
      | Some cl \<Rightarrow> (False, echo_say (Accepted_line k (''accepted connection='' @ async_to_string (conn cl)
          @ '', server accept events='' @ to_dec (unat events))) s))"

definition echo_before_close :: "int \<Rightarrow> 32 word \<Rightarrow> echo_server \<Rightarrow> bool \<times> echo_server" where
  "echo_before_close k events s =
     (case client_of s k of
        None \<Rightarrow> (False, s)
      | Some cl \<Rightarrow> (False, echo_say (Closing_line k (''closing connection='' @ async_to_string (conn cl)
          @ '', closed by events='' @ to_dec (unat events))) s))"

text \<open>The hooks of the server, without the handler of events.\<close>

definition echo_hooks :: "unit echo_server_ext handlers" where
  "echo_hooks = \<lparr>on_event = (\<lambda>k events s. (False, s)), after_accept = Some echo_after_accept, before_close = Some echo_before_close\<rparr>"

definition echo_error :: "(int \<Rightarrow> string) \<Rightarrow> tcp_exn \<Rightarrow> echo_server \<Rightarrow> echo_server" where
  "echo_error strerror e s =
     echo_say (Error_line (''hw4: error in server process, error='' @ te_what e @ '', errno='' @ strerror (te_errno e))) s"

text \<open>Whatever is thrown is printed, so the handler itself never throws.\<close>

definition echo_write :: "(int \<Rightarrow> string) \<Rightarrow> int \<Rightarrow> async_connection \<Rightarrow> echo_server \<Rightarrow> echo_server" where
  "echo_write strerror k c s =
     (let (a, s) = echo_send s in
      case async_write_from_io_buff a max_len_per_call c of
        Inl e \<Rightarrow> echo_error strerror e s
      | Inr (n, out, c) \<Rightarrow> set_conn k c (echo_say (Put k out) s))"

definition echo_on_event :: "(int \<Rightarrow> string) \<Rightarrow> int \<Rightarrow> 32 word \<Rightarrow> echo_server \<Rightarrow> bool \<times> echo_server" where
  "echo_on_event strerror k events s =
     (case client_of s k of
        None \<Rightarrow> (False, s)
      | Some cl \<Rightarrow>
          if events AND EPOLL_IN \<noteq> 0 then
            let (a, s) = echo_recv s in
            (case async_read_in_io_buff a max_len_per_call (conn cl) of
               Inl e \<Rightarrow> (False, echo_error strerror e s)
             | Inr (n, c) \<Rightarrow>
                 let s = set_conn k c (echo_say (Got k (recv_bytes a)) s) in
                 if n = 0 then (False, snd (epoll_close_connection echo_hooks k events s))
                 else (False, echo_write strerror k c s))
          else (False, s))"

definition echo_handlers :: "(int \<Rightarrow> string) \<Rightarrow> unit echo_server_ext handlers" where
  "echo_handlers strerror = echo_hooks\<lparr>on_event := echo_on_event strerror\<rparr>"

definition echo_config :: event_loop_config where
  "echo_config = \<lparr>epoll_server_flags = EPOLL_IN, epoll_accept_flags = EPOLL_IN, max_accept_clients_per_loop = 3\<rparr>"

text \<open>
  The child: an exception of the loop is printed, and the function returns. \<open>at_text\<close> is what is
  printed for the exception of \<open>std::map::at\<close>, whose text is the library's.
\<close>

definition echo_child ::
  "(int \<Rightarrow> string) \<Rightarrow> string \<Rightarrow> int sys_answer \<Rightarrow> bool \<Rightarrow> bool list \<Rightarrow> epoll_events sys_answer list \<Rightarrow> echo_server
    \<Rightarrow> unit epoll_outcome \<times> echo_server" where
  "echo_child strerror at_text epoll_create server_ok oks ws s =
     (case epoll_event_loop (Some (echo_handlers strerror)) echo_config epoll_create server_ok oks ws s of
        (Throws e, s) \<Rightarrow> (Returns (), echo_say (Error_line (''hw4: error in server, error='' @ te_what e
            @ '', errno='' @ strerror (te_errno e))) s)
      | (Throws_out_of_range, s) \<Rightarrow> (Returns (), echo_say (Error_line (''hw4: error in server, error='' @ at_text)) s)
      | r \<Rightarrow> r)"

text \<open>The server that the constructor made, with what its handlers capture.\<close>

definition echo_started :: "epoll_server \<Rightarrow> recv_answer list \<Rightarrow> send_answer list \<Rightarrow> echo_server" where
  "echo_started s ras sas = epoll_server.extend s (echo_server.fields ras sas [])"

section \<open>The parent\<close>

definition hw4_text :: string where
  "hw4_text = ''1234567890''"

text \<open>\<open>sizeof(test_str)\<close>, the terminating NUL included.\<close>

definition hw4_max_msg_len :: nat where
  "hw4_max_msg_len = 11"

record hw4_answers =
  h_socket :: "int sys_answer"
  h_pton :: bool
  h_connect :: "unit sys_answer"
  h_getsockname :: "(string \<times> 16 word) sys_answer"
  h_write_timeout :: "unit sys_answer"
  h_read_timeout :: "unit sys_answer"

definition hw4_connect :: "hw4_answers \<Rightarrow> 16 word \<Rightarrow> async_connection demo" where
  "hw4_connect a port =
     demo_bind (demo_of te_what (fst (async_Connection (h_socket a) (h_pton a) (h_connect a) (h_getsockname a) ''127.0.0.1'' port))) (\<lambda>c.
     demo_bind (demo_done te_what (async_set_write_timeout (h_write_timeout a) 1 c)) (\<lambda>_.
     demo_bind (demo_done te_what (async_set_read_timeout (h_read_timeout a) 1 c)) (\<lambda>_. Demo_value c)))"

text \<open>Sleep and try again while the read would block.\<close>

fun hw4_read :: "recv_answer list \<Rightarrow> async_connection \<Rightarrow> async_connection demo" where
  "hw4_read [] c = Demo_waits"
| "hw4_read (a # as) c =
     demo_bind (demo_of te_what (async_read_in_io_buff a hw4_max_msg_len c)) (\<lambda>(n, c).
       if n < 0 then hw4_read as c else Demo_value c)"

text \<open>What the two writes put on the wire is the result.\<close>

definition hw4_parent ::
  "16 word \<Rightarrow> hw4_answers \<Rightarrow> hw4_answers \<Rightarrow> send_answer \<Rightarrow> send_answer \<Rightarrow> recv_answer list \<Rightarrow> recv_answer list
    \<Rightarrow> (int \<times> int \<times> int) \<Rightarrow> (int \<times> int \<times> int) \<Rightarrow> (string \<times> string) demo" where
  "hw4_parent port a1 a2 sa1 sa2 ras1 ras2 close1 close2 =
     demo_bind (hw4_connect a1 port) (\<lambda>c1. demo_bind (hw4_connect a2 port) (\<lambda>c2.
     let c1 = c1\<lparr>async_io_buffer := async_io_buffer c1 @ hw4_text\<rparr>;
         c2 = c2\<lparr>async_io_buffer := async_io_buffer c2 @ hw4_text\<rparr>
     in demo_bind (demo_of te_what (async_write_from_io_buff sa1 hw4_max_msg_len c1)) (\<lambda>(_, out1, c1).
     demo_bind (demo_of te_what (async_write_from_io_buff sa2 hw4_max_msg_len c2)) (\<lambda>(_, out2, c2).
     demo_bind (hw4_read ras1 c1) (\<lambda>c1. demo_bind (hw4_read ras2 c2) (\<lambda>c2.
     demo_bind (demo_require (async_io_buffer c1 = hw4_text) ''hw4 test failed'') (\<lambda>_.
     demo_bind (demo_require (async_io_buffer c2 = hw4_text) ''hw4 test failed'') (\<lambda>_.
     demo_bind (demo_done te_what (fst (async_close (fst close1) (fst (snd close1)) (snd (snd close1)) c1))) (\<lambda>_.
     demo_bind (demo_done te_what (fst (async_close (fst close2) (fst (snd close2)) (snd (snd close2)) c2))) (\<lambda>_.
     Demo_value (out1, out2)))))))))))"

text \<open>
  The function as a whole: \<open>fork\<close> is answered in both processes; the child serves and the parent
  closes its copy of the server, which has no clients.
\<close>

definition no_handlers :: "unit handlers" where
  "no_handlers = \<lparr>on_event = (\<lambda>k events s. (False, s)), after_accept = None, before_close = None\<rparr>"

datatype hw4_end = Hw4_parent "(string \<times> string) demo" | Hw4_child "unit epoll_outcome \<times> echo_server"

definition hw4_test ::
  "fork_proc \<Rightarrow> epoll_server \<Rightarrow> int \<Rightarrow> int \<Rightarrow> (16 word \<Rightarrow> (string \<times> string) demo) \<Rightarrow> (echo_server \<Rightarrow> unit epoll_outcome \<times> echo_server)
    \<Rightarrow> recv_answer list \<Rightarrow> send_answer list \<Rightarrow> hw4_end" where
  "hw4_test fork server close_answer err parent child ras sas =
     (if \<not> fork_is_valid fork then Hw4_parent (Demo_threw ''hw4: fork failed'')
      else if f_is_child fork then Hw4_child (child (echo_started server ras sas))
      else case fst (epoll_close no_handlers close_answer err 0 server) of
          Returns _ \<Rightarrow> Hw4_parent (parent (es_port server))
        | Throws e \<Rightarrow> Hw4_parent (Demo_threw (te_what e))
        | _ \<Rightarrow> Hw4_parent Demo_waits)"

section \<open>What passed the socket of a client\<close>

text \<open>The bytes received from and sent to the connection that has the descriptor now.\<close>

fun stream_step :: "int \<Rightarrow> string \<times> string \<Rightarrow> echo_line \<Rightarrow> string \<times> string" where
  "stream_step k (g, p) (Got j bs) = (if j = k then g @ bs else g, p)"
| "stream_step k (g, p) (Put j bs) = (g, if j = k then p @ bs else p)"
| "stream_step k gp (Closing_line j t) = (if j = k then ([], []) else gp)"
| "stream_step k gp l = gp"

definition streams :: "int \<Rightarrow> echo_line list \<Rightarrow> string \<times> string" where
  "streams k log = foldl (stream_step k) ([], []) log"

lemma streams_snoc [simp]: "streams k (log @ [l]) = stream_step k (streams k log) l"
  by (simp add: streams_def)

text \<open>A send that takes all it is offered, or nothing.\<close>

fun sends_whole :: "send_answer \<Rightarrow> bool" where
  "sends_whole (Taken n) = (n = 0 \<or> max_len_per_call \<le> n)"
| "sends_whole (Send_error e) = True"

text \<open>
  What was received from a client is what was sent to it and what its buffer still holds; a
  descriptor without a client has no history.
\<close>

fun balanced :: "epoll_client option \<Rightarrow> string \<times> string \<Rightarrow> bool" where
  "balanced None gp = (gp = ([], []))"
| "balanced (Some cl) gp = (fst gp = snd gp @ async_io_buffer (conn cl))"

definition echo_inv :: "echo_server \<Rightarrow> bool" where
  "echo_inv s \<longleftrightarrow> ep_inv s \<and> list_all sends_whole (echo_sends s) \<and> (\<forall>k. balanced (client_of s k) (streams k (echo_log s)))"

section \<open>Lemmas\<close>

lemma echo_sel [simp]:
  "ep_inv (echo_say l s) = ep_inv s" "keys (echo_say l s) = keys s" "client_of (echo_say l s) k = client_of s k"
  "listen_fd (echo_say l s) = listen_fd s" "clients (echo_say l s) = clients s"
  "echo_log (echo_say l s) = echo_log s @ [l]" "echo_sends (echo_say l s) = echo_sends s" "echo_recvs (echo_say l s) = echo_recvs s"
  by (simp_all add: echo_say_def ep_inv_def keys_def client_of_def)

lemma echo_more [simp]:
  "echo_log (destroy_connection c s) = echo_log s" "echo_sends (destroy_connection c s) = echo_sends s"
  "echo_log (erase_client k s) = echo_log s" "echo_sends (erase_client k s) = echo_sends s"
  by (simp_all add: destroy_connection_def erase_client_def split: option.split)

lemma client_of_erase [simp]: "client_of (erase_client k s) j = (if j = k then None else client_of s j)"
  by (simp add: client_of_def AList.delete_conv')

lemma set_conn_sel [simp]:
  "client_of (set_conn k c s) j = (if j = k then map_option (\<lambda>cl. cl\<lparr>conn := c\<rparr>) (client_of s k) else client_of s j)"
  "keys (set_conn k c s) = keys s" "listen_fd (set_conn k c s) = listen_fd s" "watched (set_conn k c s) = watched s"
  "echo_log (set_conn k c s) = echo_log s" "echo_sends (set_conn k c s) = echo_sends s"
proof -
  have "map_of (map (\<lambda>(j, cl). (j, if j = k then f cl else cl)) xs) j = (if j = k then map_option f (map_of xs k) else map_of xs j)"
    for f :: "epoll_client \<Rightarrow> epoll_client" and xs by (induction xs) auto
  then show "client_of (set_conn k c s) j = (if j = k then map_option (\<lambda>cl. cl\<lparr>conn := c\<rparr>) (client_of s k) else client_of s j)"
    by (simp add: set_conn_def client_of_def)
qed (auto simp: set_conn_def keys_def image_image case_prod_unfold)

lemma set_conn_inv:
  assumes "ep_inv s" "client_of s k = Some cl" "async_fd c = async_fd (conn cl)"
  shows "ep_inv (set_conn k c s)"
proof -
  have "d_fd (async_fd c) = k" using assms client_of_set [OF assms(2)] by (auto simp: ep_inv_def)
  then have "\<forall>(j, cl) \<in> set (clients (set_conn k c s)). 0 \<le> j \<and> d_fd (async_fd (conn cl)) = j"
    using assms(1) by (auto simp: ep_inv_def set_conn_def)
  moreover have "map fst (clients (set_conn k c s)) = map fst (clients s)"
    by (simp add: set_conn_def comp_def case_prod_unfold)
  ultimately show ?thesis using assms(1) unfolding ep_inv_def set_conn_sel by simp
qed

lemma echo_read_stream:
  "async_is_opened c \<Longrightarrow> async_read_in_io_buff a max_len_per_call c = Inr (n, c') \<Longrightarrow>
   async_fd c' = async_fd c \<and> async_io_buffer c' = async_io_buffer c @ recv_bytes a"
  by (cases a) (auto simp: async_read_in_io_buff_def async_read_def max_len_per_call_def split: if_splits)

lemma echo_write_stream:
  assumes "sends_whole a" "async_write_from_io_buff a max_len_per_call c = Inr (n, out, c')"
  shows "async_fd c' = async_fd c \<and> async_io_buffer c = out @ async_io_buffer c'"
proof -
  define l where "l = min max_len_per_call (length (async_io_buffer c))"
  have l: "(if length (async_io_buffer c) < max_len_per_call then length (async_io_buffer c) else max_len_per_call) = l"
    by (simp add: l_def)
  have len: "length (take l (async_io_buffer c)) = l" by (simp add: l_def)
  have w: "async_write a (take l (async_io_buffer c)) c = Inr m \<Longrightarrow> 0 < m \<Longrightarrow> m = int l" for m
    using assms(1) len by (cases a) (auto simp: async_write_def taken_def l_def split: if_splits)
  from assms(2) w show ?thesis
    unfolding async_write_from_io_buff_def Let_def l by (auto split: sum.splits if_splits)
qed

lemma echo_opened: "ep_inv s \<Longrightarrow> client_of s k = Some cl \<Longrightarrow> async_is_opened (conn cl) \<and> d_fd (async_fd (conn cl)) = k"
  using client_of_set [of s k cl] by (auto simp: ep_inv_def async_is_opened_def is_valid_def)

lemma ep_inv_answers [simp]: "ep_inv (s\<lparr>echo_recvs := x\<rparr>) = ep_inv s" "ep_inv (s\<lparr>echo_sends := y\<rparr>) = ep_inv s"
  by (simp_all add: ep_inv_def keys_def)

lemma echo_send_sel:
  "echo_send s = (a, s1) \<Longrightarrow> (list_all sends_whole (echo_sends s) \<longrightarrow> sends_whole a \<and> list_all sends_whole (echo_sends s1))
    \<and> (client_of s1 = client_of s) \<and> echo_log s1 = echo_log s \<and> ep_inv s1 = ep_inv s \<and> keys s1 = keys s \<and> listen_fd s1 = listen_fd s"
  by (auto simp: echo_send_def client_of_def keys_def fun_eq_iff split: list.splits)

lemma echo_recv_sel:
  "echo_recv s = (a, s1) \<Longrightarrow> echo_sends s1 = echo_sends s \<and> client_of s1 = client_of s \<and> echo_log s1 = echo_log s
    \<and> ep_inv s1 = ep_inv s \<and> keys s1 = keys s \<and> listen_fd s1 = listen_fd s"
  by (auto simp: echo_recv_def client_of_def keys_def fun_eq_iff split: list.splits)

lemma echo_invI:
  "ep_inv s \<Longrightarrow> list_all sends_whole (echo_sends s) \<Longrightarrow> (\<And>k. balanced (client_of s k) (streams k (echo_log s))) \<Longrightarrow> echo_inv s"
  by (simp add: echo_inv_def)

lemma echo_invD:
  "echo_inv s \<Longrightarrow> ep_inv s" "echo_inv s \<Longrightarrow> list_all sends_whole (echo_sends s)"
  "echo_inv s \<Longrightarrow> balanced (client_of s k) (streams k (echo_log s))"
  by (simp_all add: echo_inv_def)

lemma echo_say_inv: "echo_inv s \<Longrightarrow> (\<And>k gp. stream_step k gp l = gp) \<Longrightarrow> echo_inv (echo_say l s)"
  by (simp add: echo_inv_def)

text \<open>A stretch of a stream goes to the log and its effect to the buffer.\<close>

lemma echo_move_inv:
  assumes "echo_inv s" "client_of s k = Some cl" "async_fd c = async_fd (conn cl)"
    and "balanced (Some (cl\<lparr>conn := c\<rparr>)) (stream_step k (streams k (echo_log s)) l)" "\<And>j gp. j \<noteq> k \<Longrightarrow> stream_step j gp l = gp"
  shows "echo_inv (set_conn k c (echo_say l s))"
proof (rule echo_invI)
  show "ep_inv (set_conn k c (echo_say l s))"
    by (rule set_conn_inv [of _ k cl]) (use assms(1-3) in \<open>simp_all add: echo_inv_def\<close>)
  show "balanced (client_of (set_conn k c (echo_say l s)) j) (streams j (echo_log (set_conn k c (echo_say l s))))" for j
    using assms(2,4,5) echo_invD(3) [OF assms(1), of j] by (cases "j = k") simp_all
qed (use echo_invD [OF assms(1)] in simp)

text \<open>Closing forgets the history of the descriptor.\<close>

lemma echo_close_inv:
  assumes "echo_inv s" "before_close h = Some echo_before_close"
  shows "echo_inv (snd (epoll_close_connection h k events s))"
proof (cases "client_of s k")
  case None
  with assms show ?thesis by (simp add: epoll_close_connection_def echo_before_close_def)
next
  case (Some cl)
  have fd: "d_fd (async_fd (conn cl)) = k" using echo_opened [OF echo_invD(1) [OF assms(1)] Some] by simp
  show ?thesis
  proof (rule echo_invI)
    fix j
    show "balanced (client_of (snd (epoll_close_connection h k events s)) j) (streams j (echo_log (snd (epoll_close_connection h k events s))))"
      using assms(2) Some fd echo_invD(3) [OF assms(1), of j] by (simp add: epoll_close_connection_def echo_before_close_def)
  qed (use assms(2) Some fd echo_invD [OF assms(1)] in \<open>simp_all add: epoll_close_connection_def echo_before_close_def erase_client_inv\<close>)
qed

lemma echo_write_inv:
  assumes "echo_inv s" "client_of s k = Some cl"
  shows "echo_inv (echo_write strerror k (conn cl) s)"
proof -
  obtain a s1 where s1: "echo_send s = (a, s1)" by (cases "echo_send s")
  then have i1: "echo_inv s1" "sends_whole a" "client_of s1 k = Some cl"
    using echo_send_sel [OF s1] assms by (auto simp: echo_inv_def)
  show ?thesis
  proof (cases "async_write_from_io_buff a max_len_per_call (conn cl)")
    case (Inl e)
    with i1(1) s1 show ?thesis by (simp add: echo_write_def echo_error_def echo_say_inv)
  next
    case (Inr r)
    obtain n out c where r: "r = (n, out, c)" by (cases r)
    note w = echo_write_stream [OF i1(2) Inr [unfolded r]]
    have "balanced (Some (cl\<lparr>conn := c\<rparr>)) (stream_step k (streams k (echo_log s1)) (Put k out))"
      using w echo_invD(3) [OF i1(1), of k] i1(3) by (cases "streams k (echo_log s1)") simp
    with w have "echo_inv (set_conn k c (echo_say (Put k out) s1))" by (intro echo_move_inv [OF i1(1,3)]) auto
    then show ?thesis by (simp add: echo_write_def s1 Inr r)
  qed
qed

lemma echo_on_event_inv:
  assumes "echo_inv s"
  shows "echo_inv (snd (echo_on_event strerror k events s))"
proof (cases "client_of s k")
  case (Some cl)
  show ?thesis
  proof (cases "events AND EPOLL_IN \<noteq> 0")
    case True
    obtain a s1 where s1: "echo_recv s = (a, s1)" by (cases "echo_recv s")
    then have i1: "echo_inv s1" "client_of s1 k = Some cl" using echo_recv_sel [OF s1] assms Some by (auto simp: echo_inv_def)
    show ?thesis
    proof (cases "async_read_in_io_buff a max_len_per_call (conn cl)")
      case (Inl e)
      with Some True i1(1) s1 show ?thesis by (simp add: echo_on_event_def echo_error_def echo_say_inv)
    next
      case (Inr r)
      obtain n c where r: "r = (n, c)" by (cases r)
      have rd: "async_fd c = async_fd (conn cl)" "async_io_buffer c = async_io_buffer (conn cl) @ recv_bytes a"
        using echo_read_stream [OF _ Inr [unfolded r]] echo_opened [OF echo_invD(1) [OF i1(1)] i1(2)] by simp_all
      define s2 where "s2 = set_conn k c (echo_say (Got k (recv_bytes a)) s1)"
      have "balanced (Some (cl\<lparr>conn := c\<rparr>)) (stream_step k (streams k (echo_log s1)) (Got k (recv_bytes a)))"
        using rd echo_invD(3) [OF i1(1), of k] i1(2) by (cases "streams k (echo_log s1)") simp
      with rd have s2: "echo_inv s2" unfolding s2_def by (intro echo_move_inv [OF i1]) auto
      have "client_of s2 k = Some (cl\<lparr>conn := c\<rparr>)" by (simp add: s2_def i1(2))
      from echo_write_inv [OF s2 this] have "echo_inv (echo_write strerror k c s2)" by simp
      moreover have "echo_inv (snd (epoll_close_connection echo_hooks k events s2))"
        by (rule echo_close_inv [OF s2]) (simp add: echo_hooks_def)
      ultimately show ?thesis using Some True s1 Inr r by (simp add: echo_on_event_def s2_def [symmetric])
    qed
  qed (use Some assms in \<open>simp add: echo_on_event_def\<close>)
qed (use assms in \<open>simp add: echo_on_event_def\<close>)

section \<open>The loop keeps the streams\<close>

text \<open>A client that came in has an empty buffer, and its descriptor had no history.\<close>

lemma map_of_insort: "k \<notin> fst ` set xs \<Longrightarrow> map_of (insort_key fst (k, v) xs) = (map_of xs)(k \<mapsto> v)"
  by (induction xs) (auto simp: fun_eq_iff)

lemma ctl_more:
  "epoll_add ok fd events s = (r, s') \<Longrightarrow> echo_log s' = echo_log s \<and> echo_sends s' = echo_sends s"
  by (auto simp: epoll_add_def split: if_splits)

lemma settle_more [simp]:
  "echo_log (settle p s) = echo_log s" "echo_sends (settle p s) = echo_sends s" "client_of (settle p s) k = client_of s k"
  by (cases p; simp add: settle_def)+

lemma add_more:
  fixes s :: echo_server
  assumes "epoll_add_to_event_loop ok c events s = (added, p, s1)" "d_fd (async_fd c) = fd"
  shows "echo_log s1 = echo_log s \<and> echo_sends s1 = echo_sends s
    \<and> (client_of s1 fd \<noteq> None \<longrightarrow> client_of s1 = (client_of s)(fd := Some (case client_of s fd of
        None \<Rightarrow> \<lparr>conn = c, conn_events = events\<rparr> | Some old \<Rightarrow> old)))"
proof -
  have cl: "client_of s' = client_of s" if "clients s' = clients s" for s s' :: echo_server
    using that by (simp add: client_of_def fun_eq_iff)
  define s0 where "s0 = s\<lparr>clients := insort_key fst (fd, \<lparr>conn = c, conn_events = events\<rparr>) (clients s)\<rparr>"
  obtain st t where a: "epoll_add ok fd events s = (st, t)" by (cases "epoll_add ok fd events s")
  obtain st0 t0 where a0: "epoll_add ok fd events s0 = (st0, t0)" by (cases "epoll_add ok fd events s0")
  have s0: "echo_log s0 = echo_log s" "echo_sends s0 = echo_sends s" by (simp_all add: s0_def)
  have new: "client_of s0 = (client_of s)(fd \<mapsto> \<lparr>conn = c, conn_events = events\<rparr>)" if "client_of s fd = None"
    using that client_of_keys [of s fd] by (auto simp: s0_def client_of_def keys_def map_of_insort)
  note m = ctl_more [OF a] ctl_more [OF a0] ctl_sel(1) [OF a] ctl_sel(1) [OF a0]
  show ?thesis
  proof (cases "client_of s fd")
    case None
    have "s1 = (if is_valid (epoll_fd s) then if st0 < 0 then s else t0 else s0)"
      using assms None by (auto simp: epoll_add_to_event_loop_def s0_def [symmetric] a0 Let_def split: if_splits)
    then show ?thesis using None new [OF None] m s0 cl [of t0 s0] by auto
  next
    case (Some old)
    have "s1 = (if is_valid (epoll_fd s) then if st < 0 then destroy_connection c (t\<lparr>clients := AList.delete fd (clients t)\<rparr>)
        else destroy_connection c t else destroy_connection c s)"
      using assms Some by (auto simp: epoll_add_to_event_loop_def a Let_def split: if_splits)
    moreover have "client_of (t\<lparr>clients := AList.delete fd (clients t)\<rparr>) fd = None"
      by (simp add: client_of_def AList.delete_conv')
    ultimately show ?thesis using Some m cl [of t s] by (auto simp: fun_eq_iff)
  qed
qed

lemma echo_add_inv:
  assumes "echo_inv s" "0 \<le> fd" "d_fd (async_fd c) = fd" "async_io_buffer c = []"
    and "epoll_add_to_event_loop ok c events s = (added, p, s1)" "client_of s1 fd \<noteq> None"
  shows "echo_inv (settle p s1)"
proof (rule echo_invI)
  note m = add_more [OF assms(5,3)]
  show "ep_inv (settle p s1)"
    using settle_inv [OF epoll_add_to_event_loop_inv [OF echo_invD(1) [OF assms(1)] _ assms(5)]] assms(2,3) by simp
  show "list_all sends_whole (echo_sends (settle p s1))" using m echo_invD(2) [OF assms(1)] by simp
  show "balanced (client_of (settle p s1) k) (streams k (echo_log (settle p s1)))" for k
    using m assms(4,6) echo_invD(3) [OF assms(1), of k] by (cases "client_of s fd") auto
qed

definition ended_well :: "unit epoll_outcome \<times> echo_server \<Rightarrow> bool" where
  "ended_well r \<longleftrightarrow> fst r = Throws_out_of_range \<or> echo_inv (snd r)"

lemma ended_wellI: "echo_inv s \<Longrightarrow> ended_well (r, s)" "ended_well (Throws_out_of_range, s)"
  by (simp_all add: ended_well_def)

lemma ended_well_then: "ended_well r \<Longrightarrow> (\<And>s. echo_inv s \<Longrightarrow> ended_well (f s)) \<Longrightarrow> ended_well (and_then r f)"
  by (cases r; cases "fst r") (auto simp: ended_well_def)

lemma echo_inv_closed [simp]: "echo_inv (s\<lparr>closed_fds := xs\<rparr>) = echo_inv s" "echo_inv (drop_fd d s) = echo_inv s"
  by (simp_all add: echo_inv_def ep_inv_def keys_def client_of_def drop_fd_def)

lemma async_accepted_buffer: "async_accepted name d addr port = (Inr c, calls) \<Longrightarrow> async_io_buffer c = []"
  by (auto simp: async_accepted_def async_or_close_def async_set_src_endpoint_def async_init_def split: sum.splits)

lemma echo_accept_inv:
  assumes "after_accept h = Some echo_after_accept"
  shows "list_all epoll_accept_ok as \<Longrightarrow> echo_inv s \<Longrightarrow> ended_well (epoll_accept_connections h flags ty max_count as s)"
proof (induction as arbitrary: s max_count)
  case (Cons a as)
  obtain accept nonblock_ok name add_ok where a: "a = (accept, nonblock_ok, name, add_ok)" by (cases a)
  show ?case
  proof (cases accept)
    case (Inl err)
    with Cons show ?thesis by (simp add: a ended_wellI)
  next
    case (Inr x)
    obtain fd addr port where x: "x = (fd, addr, port)" by (cases x)
    obtain r calls where acc: "async_accepted name (new_socket (Inr fd)) addr port = (r, calls)" by fastforce
    show ?thesis
    proof (cases r)
      case (Inl e)
      with Cons.prems(2) show ?thesis using acc by (simp add: a Inr x ended_wellI Let_def)
    next
      case r: (Inr c)
      have c: "d_fd (async_fd c) = fd" "async_io_buffer c = []" "0 \<le> fd"
        using async_accepted_fd async_accepted_buffer acc r Cons.prems(1) by (auto simp: a Inr x new_socket_def Descriptor_int_def)
      obtain added p s1 where add: "epoll_add_to_event_loop add_ok c flags s = (added, p, s1)" by (cases "epoll_add_to_event_loop add_ok c flags s")
      have s2: "echo_inv (settle p s1)" if "client_of s1 fd \<noteq> None" by (rule echo_add_inv [OF Cons.prems(2) c(3,1,2) add that])
      have s3: "echo_inv (snd (echo_after_accept fd ty (settle p s1)))" if "client_of s1 fd \<noteq> None"
        using s2 [OF that] by (auto simp: echo_after_accept_def echo_say_inv split: option.split)
      show ?thesis
        using Cons.prems(2) Cons.IH [OF _ s3] Cons.prems(1) by (simp add: a Inr x acc r add assms ended_wellI Let_def)
    qed
  qed
qed (simp add: ended_wellI)

lemma echo_dispatch_inv:
  "events_ok es \<Longrightarrow> echo_inv s \<Longrightarrow> ended_well (dispatch (echo_handlers se) cfg es s)"
proof (induction es arbitrary: s)
  case (Cons x es)
  obtain fd ev as where x: "x = (fd, ev, as)" by (cases x)
  have ok: "list_all epoll_accept_ok as" "events_ok es" using Cons.prems(1) by (auto simp: events_ok_def x)
  note IH = Cons.IH [OF ok(2)]
  have h: "after_accept (echo_handlers se) = Some echo_after_accept" "before_close (echo_handlers se) = Some echo_before_close"
    "on_event (echo_handlers se) = echo_on_event se" by (simp_all add: echo_handlers_def echo_hooks_def)
  obtain threw s1 where on: "echo_on_event se fd ev s = (threw, s1)" by fastforce
  have s1: "echo_inv s1" using echo_on_event_inv [OF Cons.prems(2), of se fd ev] on by simp
  have close: "ended_well (and_then (epoll_close_connection (echo_handlers se) fd ev s') (\<lambda>s. dispatch (echo_handlers se) cfg es s))"
    if "echo_inv s'" for s'
    by (rule ended_well_then [OF _ IH]) (use echo_close_inv [OF that h(2)] in \<open>simp_all add: ended_well_def\<close>)
  have acc: "ended_well (and_then (epoll_accept_connections (echo_handlers se) (epoll_accept_flags cfg) ev (max_accept_clients_per_loop cfg) as s)
      (\<lambda>s. dispatch (echo_handlers se) cfg es s))"
    by (rule ended_well_then [OF echo_accept_inv [OF h(1) ok(1) Cons.prems(2)] IH])
  show ?case
    unfolding x dispatch.simps h(3) on prod.case using Cons.prems(2) acc close [OF Cons.prems(2)] close [OF s1] IH [OF s1]
    by (cases threw) (simp_all add: ended_wellI split del: if_split split: if_split)
qed (simp add: ended_wellI)

lemma echo_turns_inv:
  "list_all wait_ok ws \<Longrightarrow> echo_inv s \<Longrightarrow> ended_well (turns (echo_handlers se) cfg ws s)"
proof (induction ws arbitrary: s)
  case (Cons w ws)
  then have IH: "echo_inv s \<Longrightarrow> ended_well (turns (echo_handlers se) cfg ws s)" for s by simp
  show ?case
  proof (cases w)
    case (Inr es)
    have "ended_well (dispatch (echo_handlers se) cfg es s)"
      using echo_dispatch_inv Cons.prems Inr by (simp add: wait_ok_def)
    from ended_well_then [OF this IH] Cons.prems(2) Inr show ?thesis by (simp add: ended_wellI)
  qed (use Cons.prems IH in \<open>simp add: ended_wellI\<close>)
qed (simp add: ended_wellI)

lemma echo_prepared_inv:
  "echo_inv s \<Longrightarrow> fst ` set cs \<subseteq> keys s \<Longrightarrow> echo_inv (snd (add_prepared oks cs s))"
proof -
  assume s: "echo_inv s" "fst ` set cs \<subseteq> keys s"
  have "client_of (snd (add_prepared oks cs s)) = client_of s \<and> echo_log (snd (add_prepared oks cs s)) = echo_log s
      \<and> echo_sends (snd (add_prepared oks cs s)) = echo_sends s" for s :: echo_server
  proof (induction oks cs s rule: add_prepared.induct)
    case (2 oks fd c cs s)
    obtain st s1 where a: "epoll_add (oks \<noteq> [] \<and> hd oks) fd (conn_events c) s = (st, s1)" by fastforce
    have "client_of s1 = client_of s" using ctl_sel(1) [OF a] by (simp add: client_of_def fun_eq_iff)
    with 2 [OF a [symmetric]] a ctl_more [OF a] show ?case by simp
  qed simp
  with add_prepared_inv [OF echo_invD(1) [OF s(1)] s(2), of oks] s(1) show ?thesis by (simp add: echo_inv_def)
qed

lemma echo_loop_inv:
  assumes "list_all wait_ok ws" "echo_inv s"
  shows "ended_well (epoll_event_loop (Some (echo_handlers se)) cfg create server_ok oks ws s)"
proof -
  have upd: "echo_inv (s\<lparr>stopped := b, epoll_fd := d, watched := (\<lambda>_. None), closed_fds := xs\<rparr>)"
    "echo_inv (s\<lparr>epoll_fd := d, watched := (\<lambda>_. None)\<rparr>)" if "echo_inv s" for s b d xs
    using that by (simp_all add: echo_inv_def ep_inv_def keys_def client_of_def)
  obtain d old calls where m: "descriptor_move_assign (epoll_fd s) (new_socket create) = (d, old, calls)"
    by (cases "descriptor_move_assign (epoll_fd s) (new_socket create)")
  define s1 where "s1 = s\<lparr>stopped := False, epoll_fd := d, watched := (\<lambda>_. None), closed_fds := closed_fds s @ calls\<rparr>"
  have s1: "echo_inv s1" unfolding s1_def by (rule upd(1) [OF assms(2)])
  define fl where "fl = epoll_server_flags cfg OR EPOLL_IN"
  obtain st s2 where a: "epoll_add server_ok (d_fd (listen_fd s1)) fl s1 = (st, s2)" by fastforce
  have "ep_inv s2" using epoll_ctl_inv(1) [OF echo_invD(1) [OF s1], of "d_fd (listen_fd s1)" server_ok fl] a by simp
  moreover have "client_of s2 = client_of s1" using ctl_sel(1) [OF a] by (simp add: client_of_def fun_eq_iff)
  ultimately have s2: "echo_inv s2" using s1 ctl_more [OF a] by (simp add: echo_inv_def)
  have "ended_well (and_then (add_prepared oks (clients s2) s2) (\<lambda>s. and_then (turns (echo_handlers se) cfg ws s) (\<lambda>s.
      let (status, d, calls) = descriptor_close 0 (epoll_fd s)
      in (Returns (), s\<lparr>epoll_fd := d, watched := (\<lambda>_. None), closed_fds := closed_fds s @ calls\<rparr>))))"
    using echo_prepared_inv [OF s2, of "clients s2" oks]
    by (intro ended_well_then echo_turns_inv [OF assms(1)]) (auto simp: ended_well_def keys_def upd(2) split: prod.split)
  then show ?thesis
    using s1 s2 by (simp add: epoll_event_loop_def m s1_def [symmetric] a fl_def [symmetric] Let_def ended_wellI)
qed

lemma echo_started_inv:
  "epoll_Server a ip port = (Inr s0, calls) \<Longrightarrow> list_all sends_whole sas \<Longrightarrow> echo_inv (echo_started s0 ras sas)"
  by (auto simp: echo_started_def echo_inv_def epoll_Server_def ep_inv_def keys_def client_of_def streams_def
      epoll_server.defs echo_server.defs split: prod.splits sum.splits)

section \<open>The handlers leave other clients alone\<close>

lemma echo_close_local:
  assumes "ep_inv s" "before_close h = Some echo_before_close"
  shows "ep_inv (snd (epoll_close_connection h k events s)) \<and> listen_fd (snd (epoll_close_connection h k events s)) = listen_fd s
    \<and> keys s - {k} \<subseteq> keys (snd (epoll_close_connection h k events s))"
  using assms echo_opened [OF assms(1)]
  by (cases "client_of s k") (auto simp: epoll_close_connection_def echo_before_close_def erase_client_inv split: option.splits)

lemma echo_write_local:
  assumes "ep_inv s" "client_of s k = Some cl" "async_fd c = async_fd (conn cl)"
  shows "ep_inv (echo_write se k c s) \<and> listen_fd (echo_write se k c s) = listen_fd s \<and> keys (echo_write se k c s) = keys s"
proof -
  obtain a s1 where s1: "echo_send s = (a, s1)" by (cases "echo_send s")
  note m = echo_send_sel [OF s1]
  have fd: "async_fd c' = async_fd c" if "async_write_from_io_buff a max_len_per_call c = Inr (n, out, c')" for n out c'
    using that by (auto simp: async_write_from_io_buff_def Let_def split: sum.splits if_splits)
  show ?thesis
  proof (cases "async_write_from_io_buff a max_len_per_call c")
    case (Inl e)
    with assms(1) m show ?thesis by (simp add: echo_write_def s1 echo_error_def)
  next
    case (Inr r)
    obtain n out c' where r: "r = (n, out, c')" by (cases r)
    have "ep_inv (set_conn k c' (echo_say (Put k out) s1))"
      by (rule set_conn_inv [of _ k cl]) (use assms m fd [OF Inr [unfolded r]] in simp_all)
    with m show ?thesis by (simp add: echo_write_def s1 Inr r)
  qed
qed

lemma echo_on_event_local:
  assumes "ep_inv s" "echo_on_event se k events s = (threw, s')"
  shows "\<not> threw \<and> ep_inv s' \<and> listen_fd s' = listen_fd s \<and> keys s - {k} \<subseteq> keys s'"
proof (cases "client_of s k")
  case (Some cl)
  show ?thesis
  proof (cases "events AND EPOLL_IN \<noteq> 0")
    case True
    obtain a s1 where s1: "echo_recv s = (a, s1)" by (cases "echo_recv s")
    note m = echo_recv_sel [OF s1]
    show ?thesis
    proof (cases "async_read_in_io_buff a max_len_per_call (conn cl)")
      case (Inl e)
      with assms Some True s1 m show ?thesis by (auto simp: echo_on_event_def echo_error_def)
    next
      case (Inr r)
      obtain n c where r: "r = (n, c)" by (cases r)
      have c: "async_fd c = async_fd (conn cl)"
        using echo_read_stream [OF _ Inr [unfolded r]] echo_opened [OF assms(1) Some] by simp
      define s2 where "s2 = set_conn k c (echo_say (Got k (recv_bytes a)) s1)"
      have s2: "ep_inv s2" "client_of s2 k = Some (cl\<lparr>conn := c\<rparr>)" "keys s2 = keys s" "listen_fd s2 = listen_fd s"
        using set_conn_inv [of "echo_say (Got k (recv_bytes a)) s1" k cl c] assms(1) m Some c by (simp_all add: s2_def)
      note w = echo_write_local [OF s2(1,2), of c se] and cl = echo_close_local [OF s2(1), of echo_hooks k events]
      show ?thesis
        using assms(2) Some True Inr r s1 w cl s2(3,4)
        by (auto simp: echo_on_event_def s2_def [symmetric] echo_hooks_def split: if_splits)
    qed
  qed (use assms Some in \<open>simp add: echo_on_event_def\<close>)
qed (use assms in \<open>simp add: echo_on_event_def\<close>)

lemma echo_handlers_ok: "handlers_keep ep_inv (echo_handlers se)" "handlers_local (echo_handlers se)"
proof -
  have "ep_inv (snd (echo_on_event se k e s))" if "ep_inv s" for k e s
    using echo_on_event_local [OF that surjective_pairing] by blast
  then show "handlers_keep ep_inv (echo_handlers se)"
    by (auto simp: handlers_keep_def echo_handlers_def echo_hooks_def echo_after_accept_def echo_before_close_def split: option.split)
  show "handlers_local (echo_handlers se)"
    by (auto simp: handlers_local_def echo_handlers_def echo_hooks_def echo_before_close_def dest: echo_on_event_local split: option.split)
qed

section \<open>What the parent sees\<close>

text \<open>What the first call that does not block delivers.\<close>

fun first_delivery :: "recv_answer list \<Rightarrow> string option" where
  "first_delivery [] = None"
| "first_delivery (Received bs # as) = Some bs"
| "first_delivery (Recv_error e # as) = (if would_block e then first_delivery as else None)"

lemma hw4_read_value:
  assumes "async_is_opened c"
  shows "(\<exists>c'. hw4_read ras c = Demo_value c' \<and> P c') \<longleftrightarrow> (\<exists>bs. first_delivery ras = Some bs
    \<and> P (if bs = [] then c\<lparr>async_readable := False\<rparr> else c\<lparr>async_io_buffer := async_io_buffer c @ bs\<rparr>))"
proof (induction ras rule: first_delivery.induct)
  case (2 bs as)
  have "hw4_max_msg_len \<noteq> 0" by (simp add: hw4_max_msg_len_def)
  then show ?case using async_read_in_io_buff_simps(1,2) [OF assms, of hw4_max_msg_len] by (cases "bs = []") (simp_all add: demo_of_def)
next
  case (3 e as)
  have l: "hw4_max_msg_len \<noteq> 0" by (simp add: hw4_max_msg_len_def)
  show ?case
  proof (cases "would_block e")
    case True
    with 3 async_read_in_io_buff_simps(3) [OF assms l True] show ?thesis by (simp add: demo_of_def)
  next
    case False
    then obtain x where "async_read_in_io_buff (Recv_error e) hw4_max_msg_len c = Inl x"
      using async_read_in_io_buff_simps(4) [OF assms l] by blast
    with False show ?thesis by (simp add: demo_of_def)
  qed
qed simp

lemma hw4_connect_opened:
  assumes "hw4_connect a port = Demo_value c" shows "async_is_opened c \<and> async_io_buffer c = []"
  using assms
  by (auto simp: hw4_connect_def demo_bind_value async_Connection_def async_or_close_def async_set_src_endpoint_def async_init_def
      async_is_opened_def Let_def split: sum.splits if_splits)

text \<open>A write that the kernel takes whole sends the text and empties the buffer.\<close>

lemma hw4_write:
  assumes "async_is_opened c" "async_io_buffer c = hw4_text" "length hw4_text \<le> n"
  shows "async_write_from_io_buff (Taken n) hw4_max_msg_len c = Inr (10, hw4_text, c\<lparr>async_io_buffer := []\<rparr>)"
  using assms by (simp add: async_write_from_io_buff_def async_write_def hw4_text_def hw4_max_msg_len_def taken_def)

text \<open>One event, when the bytes came in one piece and go out in one.\<close>

lemma echo_one:
  assumes "ep_inv s" "client_of s k = Some cl" "async_io_buffer (conn cl) = []" "bs \<noteq> []" "length bs \<le> max_len_per_call"
    and "echo_recvs s = Received bs # ras" "echo_sends s = Taken n # sas" "max_len_per_call \<le> n"
  shows "\<exists>s'. echo_on_event se k EPOLL_IN s = (False, s') \<and> echo_log s' = echo_log s @ [Got k bs, Put k bs] \<and> ep_inv s'
    \<and> echo_recvs s' = ras \<and> echo_sends s' = sas \<and> listen_fd s' = listen_fd s \<and> stopped s' = stopped s
    \<and> (\<forall>j. j \<noteq> k \<longrightarrow> client_of s' j = client_of s j)"
proof -
  define s1 where "s1 = s\<lparr>echo_recvs := ras\<rparr>"
  define c1 where "c1 = (conn cl)\<lparr>async_io_buffer := bs\<rparr>"
  define s2 where "s2 = set_conn k c1 (echo_say (Got k bs) s1)"
  have opened: "async_is_opened (conn cl)" using echo_opened [OF assms(1,2)] by simp
  have rd: "async_read_in_io_buff (Received bs) max_len_per_call (conn cl) = Inr (int (length bs), c1)"
    using async_read_in_io_buff_simps(1) [OF opened _ assms(4), of max_len_per_call] assms(3) by (simp add: c1_def max_len_per_call_def)
  have wr: "async_write_from_io_buff (Taken n) max_len_per_call c1 = Inr (int (length bs), bs, c1\<lparr>async_io_buffer := []\<rparr>)"
    using opened assms(4,5,8) by (simp add: async_write_from_io_buff_def async_write_def c1_def taken_def)
  have s1: "echo_recv s = (Received bs, s1)" "echo_sends s1 = Taken n # sas" "stopped s1 = stopped s" "echo_recvs s1 = ras"
    using assms(6,7) by (simp_all add: echo_recv_def s1_def)
  have s2: "echo_sends s2 = Taken n # sas" "echo_recvs s2 = ras" "stopped s2 = stopped s"
    using s1 by (simp_all add: s2_def set_conn_def echo_say_def)
  let ?s = "set_conn k (c1\<lparr>async_io_buffer := []\<rparr>) (echo_say (Put k bs) (s2\<lparr>echo_sends := sas\<rparr>))"
  have e: "echo_on_event se k EPOLL_IN s = (False, ?s)"
    using assms(2,4) s1(1,2) rd wr s2(1)
    by (simp add: echo_on_event_def EPOLL_IN_def s2_def [symmetric] echo_write_def echo_send_def)
  have "echo_log ?s = echo_log s @ [Got k bs, Put k bs]" by (simp add: s2_def s1_def)
  moreover have "echo_recvs ?s = ras" "echo_sends ?s = sas" "stopped ?s = stopped s" "listen_fd ?s = listen_fd s"
    using s2 by (simp_all add: set_conn_def echo_say_def) (simp add: s2_def set_conn_def echo_say_def s1_def)
  moreover have "ep_inv ?s" using echo_on_event_local [OF assms(1) e] by simp
  moreover have "client_of ?s j = client_of s j" if "j \<noteq> k" for j
    using that by (simp add: client_of_def [of "s2\<lparr>echo_sends := sas\<rparr>"]) (simp add: client_of_def [symmetric] s2_def, simp add: client_of_def s1_def)
  ultimately show ?thesis using e by blast
qed

definition sent_to :: "int \<Rightarrow> echo_line list \<Rightarrow> string list" where
  "sent_to k log = concat (map (\<lambda>l. case l of Put j bs \<Rightarrow> if j = k then [bs] else [] | _ \<Rightarrow> []) log)"

lemma hw4_parent_value:
  assumes "hw4_connect a1 port = Demo_value c1" "hw4_connect a2 port = Demo_value c2" "length hw4_text \<le> n1" "length hw4_text \<le> n2"
    and "0 \<le> fst close1" "0 \<le> fst (snd close1)" "0 \<le> fst close2" "0 \<le> fst (snd close2)"
  shows "hw4_parent port a1 a2 (Taken n1) (Taken n2) ras1 ras2 close1 close2 = Demo_value outs \<longleftrightarrow>
    outs = (hw4_text, hw4_text) \<and> first_delivery ras1 = Some hw4_text \<and> first_delivery ras2 = Some hw4_text"
proof -
  let ?filled = "\<lambda>c. c\<lparr>async_io_buffer := async_io_buffer c @ hw4_text\<rparr>" and ?emptied = "\<lambda>c. c\<lparr>async_io_buffer := []\<rparr>"
  have c: "async_is_opened c1" "async_io_buffer c1 = []" "async_is_opened c2" "async_io_buffer c2 = []"
    using hw4_connect_opened assms(1,2) by blast+
  have w: "async_write_from_io_buff (Taken n1) hw4_max_msg_len (?filled c1) = Inr (10, hw4_text, ?emptied c1)"
    "async_write_from_io_buff (Taken n2) hw4_max_msg_len (?filled c2) = Inr (10, hw4_text, ?emptied c2)"
    using hw4_write [of "?filled c1" n1] hw4_write [of "?filled c2" n2] c assms(3,4) by simp_all
  have close: "fst (async_close (fst cl) (fst (snd cl)) (snd (snd cl)) c) = None" if "0 \<le> fst cl" "0 \<le> fst (snd cl)" for cl c
    using that by (auto simp: async_close_def descriptor_close_def async_is_opened_def)
  have ne: "hw4_text \<noteq> []" by (simp add: hw4_text_def)
  have rd: "(\<exists>c'. hw4_read ras (?emptied c) = Demo_value c' \<and> async_io_buffer c' = hw4_text) \<longleftrightarrow> first_delivery ras = Some hw4_text"
    if "async_is_opened c" for ras c
    using hw4_read_value [of "?emptied c" ras "\<lambda>c'. async_io_buffer c' = hw4_text"] that ne by auto
  have "hw4_parent port a1 a2 (Taken n1) (Taken n2) ras1 ras2 close1 close2 = Demo_value outs \<longleftrightarrow> outs = (hw4_text, hw4_text)
      \<and> (\<exists>c'. hw4_read ras1 (?emptied c1) = Demo_value c' \<and> async_io_buffer c' = hw4_text)
      \<and> (\<exists>c'. hw4_read ras2 (?emptied c2) = Demo_value c' \<and> async_io_buffer c' = hw4_text)"
    by (auto simp: hw4_parent_def assms(1,2) w demo_of_def [of _ "Inr _"] demo_bind_value close [OF assms(5,6)] close [OF assms(7,8)])
  then show ?thesis using rd [OF c(1)] rd [OF c(3)] by simp
qed

text \<open>The parent closes its copy of a new server without trouble and goes on to the clients.\<close>

lemma hw4_test_parent:
  assumes "epoll_Server a ip port = (Inr s0, calls)" "0 < pid" "0 \<le> close_answer"
  shows "hw4_test (Fork pid) s0 close_answer err parent child ras sas = Hw4_parent (parent (es_port s0))"
proof -
  have "clients s0 = []" using assms(1) by (auto simp: epoll_Server_def split: prod.splits sum.splits)
  then have "fst (epoll_close no_handlers close_answer err 0 s0) = Returns ()"
    using epoll_close_outcome(2) [of s0 close_answer no_handlers err 0] assms(3) by (cases "server_opened s0") (auto simp: epoll_close_def)
  then show ?thesis using assms(2) by (simp add: hw4_test_def Fork_def fork_is_valid_def)
qed

section \<open>Properties\<close>

text \<open>
  C24: The echo server neither loses nor mixes bytes: after any run of its event loop, over any number of
  clients and any events, the bytes received from each connected client are those sent to it
  followed by those its buffer holds. This takes a kernel that never takes only a part of what a send
  offers.
\<close>

theorem echo_keeps_streams:
  assumes "epoll_Server a ip port = (Inr s0, calls)" "list_all sends_whole sas" "list_all wait_ok ws"
    and "epoll_event_loop (Some (echo_handlers strerror)) echo_config create server_ok oks ws (echo_started s0 ras sas) = (r, s)"
    and "r \<noteq> Throws_out_of_range" "client_of s k = Some cl"
  shows "fst (streams k (echo_log s)) = snd (streams k (echo_log s)) @ async_io_buffer (conn cl)"
proof -
  have "echo_inv s"
    using echo_loop_inv [OF assms(3) echo_started_inv [OF assms(1,2)], of strerror echo_config create server_ok oks ras] assms(4,5)
    by (simp add: ended_well_def)
  from echo_invD(3) [OF this, of k] assms(6) show ?thesis by simp
qed

text \<open>
  The test of the echo server passes exactly when each client's first read that does not block
  delivers the whole text: a text that comes in two pieces, which TCP may do, fails the test.
\<close>

theorem hw4_passes:
  assumes "hw4_connect a1 port = Demo_value c1" "hw4_connect a2 port = Demo_value c2" "length hw4_text \<le> n1" "length hw4_text \<le> n2"
    and "0 \<le> fst close1" "0 \<le> fst (snd close1)" "0 \<le> fst close2" "0 \<le> fst (snd close2)"
  shows "(\<exists>outs. hw4_parent port a1 a2 (Taken n1) (Taken n2) ras1 ras2 close1 close2 = Demo_value outs) \<longleftrightarrow>
    first_delivery ras1 = Some hw4_text \<and> first_delivery ras2 = Some hw4_text"
  using hw4_parent_value [OF assms] by blast

text \<open>
  C28: Client and server together: when the bytes of each client reach the server in one piece and the
  server's kernel takes its sends whole, the server serves both events, sends each client what it
  wrote, and the parent, reading this, passes its checks.
\<close>

theorem hw4_echoed:
  assumes "hw4_connect a1 port = Demo_value c1" "hw4_connect a2 port = Demo_value c2" "length hw4_text \<le> n1" "length hw4_text \<le> n2"
    and "0 \<le> fst close1" "0 \<le> fst (snd close1)" "0 \<le> fst close2" "0 \<le> fst (snd close2)"
    and "ep_inv s" "\<not> stopped s" "client_of s k = Some d1" "client_of s j = Some d2" "k \<noteq> j" "d_fd (listen_fd s) \<notin> {k, j}"
    and "async_io_buffer (conn d1) = []" "async_io_buffer (conn d2) = []"
    and "echo_log s = []" "echo_recvs s = [Received hw4_text, Received hw4_text]" "echo_sends s = [Taken m1, Taken m2]"
    and "max_len_per_call \<le> m1" "max_len_per_call \<le> m2"
  shows "\<exists>s'. dispatch (echo_handlers strerror) echo_config [(k, EPOLL_IN, []), (j, EPOLL_IN, [])] s = (Returns (), s')
    \<and> hw4_parent port a1 a2 (Taken n1) (Taken n2) (map Received (sent_to k (echo_log s'))) (map Received (sent_to j (echo_log s')))
        close1 close2 = Demo_value (hw4_text, hw4_text)"
proof -
  have t: "hw4_text \<noteq> []" "length hw4_text \<le> max_len_per_call" by (simp_all add: hw4_text_def max_len_per_call_def)
  obtain s1 where s1: "echo_on_event strerror k EPOLL_IN s = (False, s1)" "echo_log s1 = [Got k hw4_text, Put k hw4_text]" "ep_inv s1"
    "echo_recvs s1 = [Received hw4_text]" "echo_sends s1 = [Taken m2]" "listen_fd s1 = listen_fd s" "stopped s1 = stopped s"
    "client_of s1 j = Some d2"
    using echo_one [OF assms(9,11,15) t assms(18,19,20), of strerror] assms(12,13,17) by auto
  obtain s2 where s2: "echo_on_event strerror j EPOLL_IN s1 = (False, s2)"
    "echo_log s2 = [Got k hw4_text, Put k hw4_text, Got j hw4_text, Put j hw4_text]"
    using echo_one [OF s1(3,8) assms(16) t s1(4,5) assms(21), of strerror] s1(2) by auto
  have "dispatch (echo_handlers strerror) echo_config [(k, EPOLL_IN, []), (j, EPOLL_IN, [])] s = (Returns (), s2)"
    using assms(10-14) s1 s2(1) by (simp add: echo_handlers_def EPOLL_HUP_def EPOLL_ERR_def EPOLL_IN_def)
  moreover have "sent_to k (echo_log s2) = [hw4_text]" "sent_to j (echo_log s2) = [hw4_text]"
    using assms(13) by (simp_all add: s2(2) sent_to_def)
  ultimately show ?thesis using hw4_parent_value [OF assms(1-8)] by auto
qed

text \<open>A client writes three bytes and the kernel has no room for the echo.\<close>

definition echo_waits :: "epoll_events sys_answer list" where
  "echo_waits = [Inr [(3, EPOLL_IN, [arriving (5, ''10.0.0.1'', 4000), no_more])], Inl EINTR, Inr [(5, EPOLL_IN, [])]]"

theorem echo_keeps_streams_witness:
  "\<exists>s0 r s cl. epoll_Server listening ''127.0.0.1'' 0 = (Inr s0, [])
     \<and> epoll_event_loop (Some (echo_handlers (\<lambda>_. []))) echo_config (Inr 4) True [] echo_waits
         (echo_started s0 [Received ''abc''] [Send_error EAGAIN]) = (r, s)
     \<and> client_of s 5 = Some cl \<and> streams 5 (echo_log s) = (''abc'', []) \<and> async_io_buffer (conn cl) = ''abc''"
proof -
  obtain s0 where s0: "epoll_Server listening ''127.0.0.1'' 0 = (Inr s0, [])"
    "s0 = \<lparr>listen_fd = \<lparr>d_fd = 3\<rparr>, epoll_fd = \<lparr>d_fd = -1\<rparr>, es_addr = ''127.0.0.1'', es_port = 0, clients = [], stopped = False,
        watched = (\<lambda>_. None), closed_fds = []\<rparr>"
    by (simp add: epoll_Server_def sync_Server_def listening_def new_socket_def Descriptor_int_def or_close_def is_valid_def Descriptor_def)
  let ?run = "epoll_event_loop (Some (echo_handlers (\<lambda>_. []))) echo_config (Inr 4) True [] echo_waits
         (echo_started s0 [Received ''abc''] [Send_error EAGAIN])"
  have "fst ?run = Waits \<and> client_of (snd ?run) 5 \<noteq> None \<and> streams 5 (echo_log (snd ?run)) = (''abc'', [])"
    by (simp add: s0(2) epoll_event_loop_def descriptor_move_assign_def descriptor_swap_def descriptor_destroy_def descriptor_close_def
        Descriptor_def is_valid_def new_socket_def Descriptor_int_def epoll_add_def echo_waits_def EINTR_def echo_config_def arriving_def
        no_more_def EAGAIN_def EWOULDBLOCK_def async_accepted_def async_or_close_def async_set_src_endpoint_def async_init_def epoll_add_to_event_loop_def
        client_of_def settle_def EPOLL_IN_def EPOLL_HUP_def EPOLL_ERR_def echo_started_def epoll_server.defs echo_server.defs echo_handlers_def
        echo_hooks_def echo_after_accept_def echo_say_def echo_on_event_def echo_recv_def async_read_in_io_buff_def async_read_def
        async_is_opened_def max_len_per_call_def set_conn_def echo_write_def echo_send_def async_write_from_io_buff_def async_write_def streams_def Let_def)
  then obtain r s cl where e: "?run = (r, s)" "r \<noteq> Throws_out_of_range" "client_of s 5 = Some cl" "streams 5 (echo_log s) = (''abc'', [])"
    by (cases ?run) auto
  have ok: "list_all sends_whole [Send_error EAGAIN]" "list_all wait_ok echo_waits"
    by (simp_all add: echo_waits_def wait_ok_def events_ok_def arriving_def no_more_def)
  from echo_keeps_streams [OF s0(1) ok e(1-3)] s0(1) e show ?thesis by auto
qed

definition hw4_connected :: hw4_answers where
  "hw4_connected = \<lparr>h_socket = Inr 9, h_pton = True, h_connect = Inl EINPROGRESS, h_getsockname = Inr (''127.0.0.1'', 5000),
     h_write_timeout = Inr (), h_read_timeout = Inr ()\<rparr>"

lemma hw4_connected_value: "\<exists>c. hw4_connect hw4_connected port = Demo_value c"
  by (simp add: hw4_connect_def hw4_connected_def async_Connection_def async_or_close_def new_socket_def Descriptor_int_def is_valid_def
      failed_def async_set_src_endpoint_def demo_of_def demo_done_def async_set_write_timeout_def async_set_read_timeout_def err_of_def)

theorem hw4_passes_witness:
  "\<not> (\<exists>outs. hw4_parent 80 hw4_connected hw4_connected (Taken 10) (Taken 10) [Received hw4_text]
       [Recv_error EAGAIN, Received ''12345'', Received ''67890''] (0, 0, 0) (0, 0, 0) = Demo_value outs)"
proof -
  obtain c where c: "hw4_connect hw4_connected 80 = Demo_value c" using hw4_connected_value by blast
  have l: "length hw4_text \<le> 10" by (simp add: hw4_text_def)
  show ?thesis using hw4_passes [OF c c l l, of "(0, 0, 0)" "(0, 0, 0)"] by (simp add: would_block_def hw4_text_def)
qed

theorem hw4_echoed_witness:
  "\<exists>s s'. dispatch (echo_handlers (\<lambda>_. [])) echo_config [(5, EPOLL_IN, []), (7, EPOLL_IN, [])] s = (Returns (), s')
     \<and> hw4_parent 80 hw4_connected hw4_connected (Taken 10) (Taken 10) (map Received (sent_to 5 (echo_log s')))
         (map Received (sent_to 7 (echo_log s'))) (0, 0, 0) (0, 0, 0) = Demo_value (hw4_text, hw4_text)"
proof -
  define s where "s = epoll_server.extend two_connected
      (echo_server.fields [Received hw4_text, Received hw4_text] [Taken 256, Taken 300] [])"
  obtain c where c: "hw4_connect hw4_connected 80 = Demo_value c" using hw4_connected_value by blast
  have s: "ep_inv s" "\<not> stopped s" "client_of s 5 = Some \<lparr>conn = async_init \<lparr>d_fd = 5\<rparr> [] 1, conn_events = EPOLL_IN\<rparr>"
    "client_of s 7 = Some \<lparr>conn = async_init \<lparr>d_fd = 7\<rparr> [] 2, conn_events = EPOLL_IN\<rparr>" "d_fd (listen_fd s) = 3"
    "echo_log s = []" "echo_recvs s = [Received hw4_text, Received hw4_text]" "echo_sends s = [Taken 256, Taken 300]"
    by (auto simp: s_def ep_inv_def keys_def two_connected_def async_init_def client_of_def epoll_server.defs echo_server.defs)
  show ?thesis
    by (rule exI [of _ s], rule hw4_echoed [OF c c _ _ _ _ _ _ s(1-4) _ _ _ _ s(6-8)])
      (simp_all add: hw4_text_def s(5) async_init_def max_len_per_call_def)
qed

end
