(* ===== verification/ShmRoom.thy ===== *)
theory ShmRoom imports ShmMap begin

text \<open>
  How much memory the operations of the shared memory map take: nothing that is given back can be had
  again, so the blocks that an operation asks for add up, and it throws \<open>bad_alloc\<close> exactly when their sum
  is more than the room that is left.
\<close>

section \<open>Blocks\<close>

definition bytes_of :: "(64 word \<times> 64 word) list \<Rightarrow> nat" where
  "bytes_of xs = sum_list (map (\<lambda>(s, n). unat n * unat s) xs)"

lemma bytes_of_simps [simp]:
  "bytes_of [] = 0" "bytes_of ((s, n) # xs) = unat n * unat s + bytes_of xs" "bytes_of (xs @ ys) = bytes_of xs + bytes_of ys"
  by (simp_all add: bytes_of_def)

text \<open>The allocator after blocks of so many bytes; a block that was given out before.\<close>

definition grown :: "nat \<Rightarrow> linear_allocator \<Rightarrow> linear_allocator \<Rightarrow> bool" where
  "grown c la la' \<longleftrightarrow> la_inv la' \<and> start_addr la' = start_addr la \<and> end_addr la' = end_addr la
     \<and> unat (free_addr la') = unat (free_addr la) + c"

definition given :: "linear_allocator \<Rightarrow> block \<Rightarrow> bool" where
  "given la b \<longleftrightarrow> start_addr la \<le> fst b \<and> fst b < free_addr la"

lemma grown_refl: "la_inv la \<Longrightarrow> grown 0 la la"
  by (simp add: grown_def)

lemma grown_trans: "grown c la la' \<Longrightarrow> grown d la' la'' \<Longrightarrow> grown (c + d) la la''"
  by (simp add: grown_def)

lemma grown_room: "grown c la la' \<Longrightarrow> room la' = room la - c \<and> c \<le> room la"
  by (auto simp: grown_def room_def la_inv_def)

lemma grown_given: "grown c la la' \<Longrightarrow> given la b \<Longrightarrow> given la' b"
  by (auto simp: grown_def given_def word_less_nat_alt)

lemma give_back_given:
  assumes "la_inv la" "\<forall>b \<in> set bs. given la b"
  shows "give_back bs la = la"
  using assms(2)
proof (induction bs)
  case (Cons b bs)
  obtain p s n where b: "b = (p, s, n)" by (cases b)
  have "deallocate s p n la = Inr la" using Cons.prems b assms(1) by (intro deallocate_other) (auto simp: given_def)
  with Cons b show ?case by (simp add: give_back_def)
qed (simp add: give_back_def)

definition askable :: "(64 word \<times> 64 word) list \<Rightarrow> bool" where
  "askable xs \<longleftrightarrow> (\<forall>(s, n) \<in> set xs. fits s n \<and> n \<noteq> 0 \<and> s \<noteq> 0)"

lemma askable_simps [simp]:
  "askable []" "askable ((s, n) # xs) \<longleftrightarrow> fits s n \<and> n \<noteq> 0 \<and> s \<noteq> 0 \<and> askable xs" "askable (xs @ ys) \<longleftrightarrow> askable xs \<and> askable ys"
  by (auto simp: askable_def)

text \<open>A block that fits is given and takes its bytes.\<close>

lemma allocate_room:
  assumes "la_inv la" "fits s n" "n \<noteq> 0" "s \<noteq> 0" "unat n * unat s \<le> room la"
  obtains la1 where "allocate s n la = Inr (free_addr la, la1)" "grown (unat n * unat s) la la1"
    "given la1 (free_addr la, s, n)" "room la1 = room la - unat n * unat s"
proof -
  let ?la = "la\<lparr>free_addr := free_addr la + n * s\<rparr>"
  note eq = allocate_eq [OF assms(1-3)]
  have g: "grown (unat n * unat s) la ?la"
    using eq assms(1,5) by (auto simp: grown_def la_inv_def room_def)
  have "0 < unat n * unat s" using assms(3,4) by (simp add: unat_gt_0)
  then have "given ?la (free_addr la, s, n)"
    using g assms(1) by (simp add: given_def grown_def la_inv_def word_le_nat_alt word_less_nat_alt)
  with that [of ?la] g show thesis using eq assms(5) grown_room [OF g] by simp
qed

text \<open>All blocks of a list can be had, or some of them are taken and \<open>bad_alloc\<close> is thrown.\<close>

lemma take_blocks_room:
  assumes "la_inv la" "askable xs" "\<forall>b \<in> set got. given la b"
  shows "if bytes_of xs \<le> room la
    then \<exists>bs la'. take_blocks xs got la = (Inr (rev got @ bs), la') \<and> grown (bytes_of xs) la la' \<and> length bs = length xs \<and> (\<forall>b \<in> set bs. given la' b)
    else \<exists>c la'. take_blocks xs got la = (Inl alloc_error.Bad_alloc, la') \<and> grown c la la'"
  using assms
proof (induction xs arbitrary: got la)
  case Nil
  then show ?case by (simp add: grown_refl)
next
  case (Cons x xs)
  obtain s n where x: "x = (s, n)" by (cases x)
  have ok: "fits s n" "n \<noteq> 0" "s \<noteq> 0" "askable xs" using Cons.prems(2) by (simp_all add: x)
  note eq = allocate_eq [OF Cons.prems(1) ok(1,2)]
  show ?case
  proof (cases "unat n * unat s \<le> room la")
    case True
    obtain la1 where al: "allocate s n la = Inr (free_addr la, la1)" and g: "grown (unat n * unat s) la la1"
      and first: "given la1 (free_addr la, s, n)" and r1: "room la1 = room la - unat n * unat s"
      by (rule allocate_room [OF Cons.prems(1) ok(1-3) True])
    then have got: "\<forall>b \<in> set ((free_addr la, s, n) # got). given la1 b" using Cons.prems(3) grown_given [OF g] by simp
    have run: "take_blocks (x # xs) got la = take_blocks xs ((free_addr la, s, n) # got) la1"
      by (simp add: x al)
    note IH = Cons.IH [OF _ ok(4) got, unfolded r1]
    show ?thesis
    proof (cases "bytes_of (x # xs) \<le> room la")
      case fits: True
      then have "bytes_of xs \<le> room la - unat n * unat s" by (simp add: x)
      with IH g obtain bs la' where t: "take_blocks xs ((free_addr la, s, n) # got) la1 = (Inr (rev ((free_addr la, s, n) # got) @ bs), la')"
        "grown (bytes_of xs) la1 la'" "length bs = length xs" "\<forall>b \<in> set bs. given la' b"
        by (auto simp: grown_def)
      then show ?thesis
        using fits run grown_trans [OF g t(2)] grown_given [OF t(2) first]
        by (intro if_P [THEN iffD2]) (auto simp: x intro!: exI [of _ "(free_addr la, s, n) # bs"])
    next
      case False
      then have "\<not> bytes_of xs \<le> room la - unat n * unat s" using True by (simp add: x)
      with IH g obtain c la' where "take_blocks xs ((free_addr la, s, n) # got) la1 = (Inl alloc_error.Bad_alloc, la')" "grown c la1 la'"
        by (auto simp: grown_def)
      then show ?thesis using False run grown_trans [OF g] by auto
    qed
  next
    case False
    then have "take_blocks (x # xs) got la = (Inl alloc_error.Bad_alloc, la)"
      using eq give_back_given [OF Cons.prems(1,3)] by (simp add: x)
    moreover have "\<not> bytes_of (x # xs) \<le> room la" using False by (simp add: x)
    ultimately show ?thesis using grown_refl [OF Cons.prems(1)] by auto
  qed
qed

section \<open>Operations\<close>

definition mem_inv :: "('k, 'v) shm_map \<Rightarrow> bool" where
  "mem_inv m \<longleftrightarrow> la_inv (sm_alloc m)
     \<and> (\<forall>(k, v, bs, vbs) \<in> set (sm_nodes m). \<forall>b \<in> set bs \<union> set vbs. given (sm_alloc m) b)"

text \<open>Sizes that do not wrap around; what an operation asks for, given the content.\<close>

definition sizes_ok :: "('k, 'v) sizes \<Rightarrow> bool" where
  "sizes_ok z \<longleftrightarrow> fits (node_size z) 1 \<and> node_size z \<noteq> 0 \<and> (\<forall>k. fits 1 (key_size z k)) \<and> (\<forall>v. fits 1 (value_size z v))"

fun arg_cost :: "('k, 'v) sizes \<Rightarrow> 'k key_arg \<Rightarrow> nat" where
  "arg_cost z (Same k) = 0"
| "arg_cost z (Converted k) = unat (key_size z k)"

definition node_cost :: "('k, 'v) sizes \<Rightarrow> 'k \<Rightarrow> 'v \<Rightarrow> nat" where
  "node_cost z k v = unat (key_size z k) + unat (value_size z v) + unat (node_size z)"

definition assign_cost :: "('k, 'v) sizes \<Rightarrow> ('k \<Rightarrow> 'v option) \<Rightarrow> 'k \<Rightarrow> 'v \<Rightarrow> nat" where
  "assign_cost z f k v =
     (case f k of None \<Rightarrow> node_cost z k v | Some w \<Rightarrow> if value_grows z w v then unat (value_size z v) else 0)"

fun req_cost :: "('k, 'v) sizes \<Rightarrow> ('k \<Rightarrow> 'v option) \<Rightarrow> ('k, 'v) map_req \<Rightarrow> nat" where
  "req_cost z f (At k) = arg_cost z k + (case f (the_key k) of None \<Rightarrow> 0 | Some v \<Rightarrow> unat (value_size z v))"
| "req_cost z f (Insert k v) = node_cost z k v"
| "req_cost z f (Insert_or_assign k v) = unat (key_size z k) + (unat (value_size z v) + assign_cost z f k v)"
| "req_cost z f (Insert_or_assign_forward k v) = unat (key_size z k) + assign_cost z f k v"
| "req_cost z f (Erase k) = arg_cost z k"
| "req_cost z f (Extract k) = arg_cost z k"
| "req_cost z f (Contains k) = arg_cost z k"
| "req_cost z f (Count k) = 0"
| "req_cost z f Clear = 0"
| "req_cost z f Empty = 0"
| "req_cost z f Size = 0"

definition body_room :: "nat \<Rightarrow> ('k, 'v) shm_map \<Rightarrow> (map_error + 'a) \<times> ('k, 'v) shm_map \<Rightarrow> bool" where
  "body_room c m out \<longleftrightarrow>
     (case out of (r, m') \<Rightarrow> mem_inv m' \<and> (\<exists>d. grown d (sm_alloc m) (sm_alloc m')
        \<and> (if c \<le> room (sm_alloc m) then (\<forall>e. r \<noteq> Inl (Map_alloc e)) \<and> d = c else r = Inl (Map_alloc alloc_error.Bad_alloc))))"

lemma body_roomI:
  assumes "mem_inv m'" "grown d (sm_alloc m) (sm_alloc m')"
    and "c \<le> room (sm_alloc m) \<Longrightarrow> (\<forall>e. r \<noteq> Inl (Map_alloc e)) \<and> d = c"
    and "\<not> c \<le> room (sm_alloc m) \<Longrightarrow> r = Inl (Map_alloc alloc_error.Bad_alloc)"
  shows "body_room c m (r, m')"
  using assms unfolding body_room_def by auto

lemma mem_inv_alloc: "mem_inv m \<Longrightarrow> la_inv (sm_alloc m)"
  by (simp add: mem_inv_def)

lemma mem_inv_nodes: "mem_inv m \<Longrightarrow> map_of (sm_nodes m) k = Some (v, bs, vbs) \<Longrightarrow> \<forall>b \<in> set (vbs @ bs). given (sm_alloc m) b"
  unfolding mem_inv_def using map_of_SomeD by fastforce

lemma mem_inv_grown: "mem_inv m \<Longrightarrow> grown c (sm_alloc m) la \<Longrightarrow> mem_inv (m\<lparr>sm_alloc := la\<rparr>)"
  unfolding mem_inv_def using grown_given by (fastforce simp: grown_def)

lemma body_room_same: "mem_inv m \<Longrightarrow> (\<forall>e. r \<noteq> Inl (Map_alloc e)) \<Longrightarrow> body_room 0 m (r, m)"
  by (auto intro: body_roomI grown_refl mem_inv_alloc)

lemma answer_room: "body_room c m (answer f out) \<longleftrightarrow> body_room c m out"
  by (auto simp: body_room_def answer_def split: prod.splits sum.splits)

lemma askable_copy [simp]: "fits 1 (g x) \<Longrightarrow> askable (copy_blocks g x)"
  by (simp add: copy_blocks_def)

lemma bytes_of_copy [simp]: "bytes_of (copy_blocks g x) = unat (g x)"
  by (simp add: copy_blocks_def)

text \<open>Blocks for an operation, and what is done with them.\<close>

lemma take_blocks_cases:
  assumes "mem_inv m" "askable xs"
  obtains (taken) bs la where "take_blocks xs [] (sm_alloc m) = (Inr bs, la)" "bytes_of xs \<le> room (sm_alloc m)" "length bs = length xs"
      "grown (bytes_of xs) (sm_alloc m) la" "mem_inv (m\<lparr>sm_alloc := la\<rparr>)" "\<forall>b \<in> set bs. given la b" "la_inv la"
  | (none) c la where "take_blocks xs [] (sm_alloc m) = (Inl alloc_error.Bad_alloc, la)" "\<not> bytes_of xs \<le> room (sm_alloc m)"
      "grown c (sm_alloc m) la" "mem_inv (m\<lparr>sm_alloc := la\<rparr>)"
proof (cases "bytes_of xs \<le> room (sm_alloc m)")
  case True
  with take_blocks_room [OF mem_inv_alloc [OF assms(1)] assms(2), of "[]"] obtain bs la where
    t: "take_blocks xs [] (sm_alloc m) = (Inr bs, la)" "length bs = length xs" "grown (bytes_of xs) (sm_alloc m) la" "\<forall>b \<in> set bs. given la b"
    by auto
  show ?thesis
    by (rule taken [OF t(1) True t(2,3) mem_inv_grown [OF assms(1) t(3)] t(4)]) (use t(3) in \<open>simp add: grown_def\<close>)
next
  case False
  with take_blocks_room [OF mem_inv_alloc [OF assms(1)] assms(2), of "[]"] obtain c la where
    t: "take_blocks xs [] (sm_alloc m) = (Inl alloc_error.Bad_alloc, la)" "grown c (sm_alloc m) la"
    by auto
  show ?thesis by (rule none [OF t(1) False t(2) mem_inv_grown [OF assms(1) t(2)]])
qed

lemma with_copy_room:
  assumes m: "mem_inv m" and size: "case arg of Same k \<Rightarrow> a = 0 | Converted k \<Rightarrow> fits 1 (ks k) \<and> a = unat (ks k)"
    and body: "\<And>m'. mem_inv m' \<Longrightarrow> sm_nodes m' = sm_nodes m \<Longrightarrow> body_room c m' (f (the_key arg) m')"
  shows "body_room (a + c) m (with_copy ks arg f m)"
proof (cases arg)
  case (Same k)
  with body [OF m] size show ?thesis by (simp add: with_copy_def)
next
  case (Converted k)
  with size have ask: "askable (copy_blocks ks k)" and a: "a = bytes_of (copy_blocks ks k)" by simp_all
  from m ask show ?thesis
  proof (cases rule: take_blocks_cases)
    case (taken bs la)
    obtain r m' where run: "f k (m\<lparr>sm_alloc := la\<rparr>) = (r, m')" by fastforce
    then have "body_room c (m\<lparr>sm_alloc := la\<rparr>) (r, m')" using body [OF taken(5)] Converted by simp
    then obtain d where d: "mem_inv m'" "grown d la (sm_alloc m')"
      "if c \<le> room la then (\<forall>e. r \<noteq> Inl (Map_alloc e)) \<and> d = c else r = Inl (Map_alloc alloc_error.Bad_alloc)"
      by (auto simp: body_room_def)
    have kept: "give_back bs (sm_alloc m') = sm_alloc m'"
      using taken(6) grown_given [OF d(2)] by (intro give_back_given) (auto intro: mem_inv_alloc d(1))
    have "body_room (a + c) m (r, m')"
      using d grown_trans [OF taken(4) d(2)] grown_room [OF taken(4)]
      by (intro body_roomI [where d = "a + d"]) (auto simp: a split: if_splits)
    then show ?thesis using taken(1) run kept by (simp add: with_copy_def Converted)
  next
    case (none d la)
    then show ?thesis
      by (simp add: with_copy_def Converted) (intro body_roomI [where d = d]; simp add: a)
  qed
qed

lemma map_at_room:
  assumes "mem_inv m" "\<And>v. fits 1 (vs v)"
  shows "body_room (case lookup_node (sm_nodes m) k of None \<Rightarrow> 0 | Some v \<Rightarrow> unat (vs v)) m (map_at vs ret k m)"
proof (cases "lookup_node (sm_nodes m) k")
  case None
  then show ?thesis using assms(1) by (simp add: map_at_def body_room_same)
next
  case (Some v)
  have ask: "askable (copy_blocks vs v)" using assms(2) by simp
  from assms(1) ask show ?thesis
  proof (cases rule: take_blocks_cases)
    case (taken bs la)
    then have "give_back bs la = la" by (intro give_back_given)
    with taken Some show ?thesis
      by (simp add: map_at_def) (intro body_roomI [where d = "unat (vs v)"]; simp)
  next
    case (none d la)
    with Some show ?thesis by (simp add: map_at_def) (intro body_roomI [where d = d]; simp)
  qed
qed

lemma mem_inv_nodesI:
  assumes "mem_inv m" "\<And>x. x \<in> set ns \<Longrightarrow> x \<in> set (sm_nodes m) \<or> (\<forall>b \<in> set (fst (snd (snd x)) @ snd (snd (snd x))). given (sm_alloc m) b)"
  shows "mem_inv (m\<lparr>sm_nodes := ns\<rparr>)"
  using assms unfolding mem_inv_def by fastforce

lemma mem_inv_add:
  assumes "mem_inv m" "\<forall>b \<in> set got. given (sm_alloc m) b" "set bs \<subseteq> set got" "set vbs \<subseteq> set got"
  shows "mem_inv (m\<lparr>sm_nodes := sm_nodes m @ [(k, v, bs, vbs)]\<rparr>)"
proof (rule mem_inv_nodesI [OF assms(1)])
  have "\<forall>b \<in> set (bs @ vbs). given (sm_alloc m) b" using assms(2-4) unfolding set_append by blast
  then show "x \<in> set (sm_nodes m) \<or> (\<forall>b \<in> set (fst (snd (snd x)) @ snd (snd (snd x))). given (sm_alloc m) b)"
    if "x \<in> set (sm_nodes m @ [(k, v, bs, vbs)])" for x using that by auto
qed

lemma set_parts: "set (take n xs @ drop j xs) \<subseteq> set xs" "set (take n (drop j xs)) \<subseteq> set xs"
  by (auto dest: in_set_takeD in_set_dropD)

lemma set_alist: "set (AList.update k x ns) \<subseteq> insert (k, x) (set ns)" "set (AList.delete k ns) \<subseteq> set ns"
proof -
  show "set (AList.update k x ns) \<subseteq> insert (k, x) (set ns)" by (induction ns) auto
  show "set (AList.delete k ns) \<subseteq> set ns" by (induction ns) auto
qed

lemma map_insert_room:
  assumes "mem_inv m" "sizes_ok z"
  shows "body_room (node_cost z k v) m (map_insert (node_size z) (key_size z) (value_size z) k v m)"
proof -
  let ?xs = "copy_blocks (key_size z) k @ copy_blocks (value_size z) v @ [(node_size z, 1)]"
  have ask: "askable ?xs" using assms(2) by (simp add: sizes_ok_def)
  have c: "node_cost z k v = bytes_of ?xs" by (simp add: node_cost_def)
  from assms(1) ask show ?thesis
  proof (cases rule: take_blocks_cases)
    case (taken bs la)
    let ?nk = "length (copy_blocks (key_size z) k)" and ?nv = "length (copy_blocks (value_size z) v)"
    have "give_back bs la = la" using taken(6,7) by (intro give_back_given)
    moreover have "mem_inv (m\<lparr>sm_alloc := la\<rparr>\<lparr>sm_nodes := sm_nodes m @ [(k, v, take ?nk bs @ drop (?nk + ?nv) bs, take ?nv (drop ?nk bs))]\<rparr>)"
      using mem_inv_add [OF taken(5) _ set_parts(1) [of ?nk bs "?nk + ?nv"] set_parts(2) [of ?nv ?nk bs], of k v] taken(6) by simp
    ultimately show ?thesis
      using taken by (simp add: map_insert_def Let_def c) (intro conjI impI body_roomI [where d = "bytes_of ?xs"]; simp)
  next
    case (none d la)
    then show ?thesis by (simp add: map_insert_def c) (intro body_roomI [where d = d]; simp)
  qed
qed

lemma assign_new_room:
  assumes "mem_inv m" "sizes_ok z" and None: "map_of (sm_nodes m) k = None"
  shows "body_room (assign_cost z (lookup_node (sm_nodes m)) k v) m
    (map_assign (node_size z) (key_size z) (value_size z) (value_grows z) v k m)"
proof -
  let ?xs = "(node_size z, 1) # copy_blocks (key_size z) k @ copy_blocks (value_size z) v"
  have ask: "askable ?xs" using assms(2) by (simp add: sizes_ok_def)
  have c: "assign_cost z (lookup_node (sm_nodes m)) k v = bytes_of ?xs"
    by (simp add: assign_cost_def node_cost_def map_of_lookup(2) [OF None])
  from assms(1) ask show ?thesis
  proof (cases rule: take_blocks_cases)
    case (taken bs la)
    let ?nk = "Suc (length (copy_blocks (key_size z) k))"
    have "mem_inv (m\<lparr>sm_alloc := la\<rparr>\<lparr>sm_nodes := sm_nodes m @ [(k, v, take ?nk bs, drop ?nk bs)]\<rparr>)"
      using mem_inv_add [OF taken(5) _ set_take_subset [of ?nk bs] set_drop_subset [of ?nk bs], of k v] taken(6) by simp
    then show ?thesis
      using taken None by (simp add: map_assign_def Let_def c) (intro body_roomI [where d = "bytes_of ?xs"]; simp)
  next
    case (none d la)
    with None show ?thesis by (simp add: map_assign_def c) (intro body_roomI [where d = d]; simp)
  qed
qed

lemma mem_inv_update:
  assumes "mem_inv m" "\<forall>b \<in> set (vbs @ bs). given (sm_alloc m) b"
  shows "mem_inv (m\<lparr>sm_nodes := AList.update k (v, bs, vbs) (sm_nodes m)\<rparr>)"
  using assms set_alist(1) [of k "(v, bs, vbs)" "sm_nodes m"] by (intro mem_inv_nodesI) auto

lemma assign_old_room:
  assumes "mem_inv m" "sizes_ok z" and Some: "map_of (sm_nodes m) k = Some x"
  shows "body_room (assign_cost z (lookup_node (sm_nodes m)) k v) m
    (map_assign (node_size z) (key_size z) (value_size z) (value_grows z) v k m)"
proof -
  obtain w bs0 vbs where x: "x = (w, bs0, vbs)" by (cases x)
  note old = mem_inv_nodes [OF assms(1) Some [unfolded x]]
  have l: "lookup_node (sm_nodes m) k = Some w" using map_of_lookup(1) Some x by metis
  show ?thesis
  proof (cases "value_grows z w v")
    case False
    have "mem_inv (m\<lparr>sm_nodes := AList.update k (v, bs0, vbs) (sm_nodes m)\<rparr>)" using old by (intro mem_inv_update assms(1))
    then show ?thesis
      using False Some x by (simp add: map_assign_def assign_cost_def l) (intro body_roomI [where d = 0]; simp add: grown_refl mem_inv_alloc assms(1))
  next
    case True
    have ask: "askable (copy_blocks (value_size z) v)" using assms(2) by (simp add: sizes_ok_def)
    have c: "assign_cost z (lookup_node (sm_nodes m)) k v = bytes_of (copy_blocks (value_size z) v)"
      using True by (simp add: assign_cost_def l)
    from assms(1) ask show ?thesis
    proof (cases rule: take_blocks_cases)
      case (taken bs la)
      have "\<forall>b \<in> set (vbs @ bs0). given la b" using old grown_given [OF taken(4)] by auto
      then have "give_back vbs la = la" "mem_inv (m\<lparr>sm_alloc := la\<rparr>\<lparr>sm_nodes := AList.update k (v, bs0, bs) (sm_nodes m)\<rparr>)"
        using taken(6,7) mem_inv_update [OF taken(5), of bs bs0 k v] by (auto intro: give_back_given simp: ball_Un)
      moreover have "m\<lparr>sm_alloc := la\<rparr>\<lparr>sm_nodes := AList.update k (v, bs0, bs) (sm_nodes m)\<rparr> =
          m\<lparr>sm_nodes := AList.update k (v, bs0, bs) (sm_nodes m), sm_alloc := la\<rparr>" by simp
      ultimately have "give_back vbs la = la" "mem_inv (m\<lparr>sm_nodes := AList.update k (v, bs0, bs) (sm_nodes m), sm_alloc := la\<rparr>)"
        by metis+
      then show ?thesis
        using taken True Some x by (simp add: map_assign_def c) (intro body_roomI [where d = "unat (value_size z v)"]; simp)
    next
      case (none d la)
      with True Some x show ?thesis by (simp add: map_assign_def c) (intro body_roomI [where d = d]; simp)
    qed
  qed
qed

lemma map_assign_room:
  assumes "mem_inv m" "sizes_ok z"
  shows "body_room (assign_cost z (lookup_node (sm_nodes m)) k v) m
    (map_assign (node_size z) (key_size z) (value_size z) (value_grows z) v k m)"
  using assign_new_room [OF assms] assign_old_room [OF assms] by (cases "map_of (sm_nodes m) k") simp_all

text \<open>The operations that ask for no block.\<close>

lemma map_removals_room:
  assumes "mem_inv m"
  shows "body_room 0 m (map_erase k m)" "body_room 0 m (map_extract k m)" "body_room 0 m (map_clear m)"
proof -
  have del: "mem_inv (m\<lparr>sm_nodes := AList.delete k (sm_nodes m)\<rparr>)"
    using set_alist(2) [of k "sm_nodes m"] by (intro mem_inv_nodesI assms) auto
  have same: "mem_inv (m\<lparr>sm_nodes := ns\<rparr>) \<Longrightarrow> (\<forall>e. r \<noteq> Inl (Map_alloc e)) \<Longrightarrow> body_room 0 m (r, m\<lparr>sm_nodes := ns\<rparr>)" for ns r
    by (intro body_roomI [where d = 0]) (simp_all add: grown_refl mem_inv_alloc assms)
  show "body_room 0 m (map_extract k m)" using del by (simp add: map_extract_def same)
  have "give_back (concat (map (\<lambda>(k, v, bs, vbs). vbs @ bs) (sm_nodes m))) (sm_alloc m) = sm_alloc m"
    using assms by (intro give_back_given) (auto simp: mem_inv_def)
  moreover have "mem_inv (m\<lparr>sm_nodes := []\<rparr>)" by (intro mem_inv_nodesI assms) simp
  ultimately show "body_room 0 m (map_clear m)" by (simp add: map_clear_def same)
  show "body_room 0 m (map_erase k m)"
  proof (cases "map_of (sm_nodes m) k")
    case None
    with assms show ?thesis by (simp add: map_erase_def body_room_same)
  next
    case (Some x)
    obtain v bs vbs where x: "x = (v, bs, vbs)" by (cases x)
    have "give_back (vbs @ bs) (sm_alloc m) = sm_alloc m"
      using mem_inv_nodes [OF assms Some [unfolded x]] by (intro give_back_given mem_inv_alloc assms)
    with Some x del show ?thesis by (simp add: map_erase_def same)
  qed
qed

lemma map_queries_room:
  assumes "mem_inv m"
  shows "body_room 0 m (map_contains k m)" "body_room 0 m (map_count k m)" "body_room 0 m (map_empty m)" "body_room 0 m (map_size m)"
  using assms by (simp_all add: map_contains_def map_count_def map_empty_def map_size_def body_room_same)

lemma map_body_room:
  assumes m: "mem_inv m" and z: "sizes_ok z"
  shows "body_room (req_cost z (lookup_node (sm_nodes m)) req) m (map_body z req m)"
proof -
  have arg: "case a of Same k \<Rightarrow> arg_cost z a = 0 | Converted k \<Rightarrow> fits 1 (key_size z k) \<and> arg_cost z a = unat (key_size z k)" for a
    using z by (cases a) (simp_all add: sizes_ok_def)
  have sz: "fits 1 (key_size z k)" "fits 1 (value_size z v)" for k v using z by (simp_all add: sizes_ok_def)
  have copied: "body_room (unat (key_size z k) + c) m (with_copy (key_size z) (Converted k) f m)"
    if "\<And>m'. mem_inv m' \<Longrightarrow> sm_nodes m' = sm_nodes m \<Longrightarrow> body_room c m' (f k m')" for k c f
    using that by (intro with_copy_room m) (simp_all add: sz)
  have unarg: "body_room (arg_cost z a) m (with_copy (key_size z) a f m)"
    if "\<And>m'. mem_inv m' \<Longrightarrow> body_room 0 m' (f (the_key a) m')" for a f
    using with_copy_room [OF m arg [of a], where c = 0 and f = f] that by simp
  show ?thesis
  proof (cases req)
    case (At a)
    show ?thesis
      unfolding At map_body.simps req_cost.simps
      by (rule with_copy_room [OF m arg]) (use map_at_room [of _ "value_size z" "the_key a"] sz in \<open>fastforce simp: answer_room\<close>)
  next
    case (Insert_or_assign k v)
    show ?thesis
      unfolding Insert_or_assign map_body.simps req_cost.simps
    proof (rule copied)
      fix m' assume m': "mem_inv m'" "sm_nodes m' = sm_nodes m"
      show "body_room (unat (value_size z v) + assign_cost z (lookup_node (sm_nodes m)) k v) m'
        (with_copy (value_size z) (Converted v)
          (\<lambda>v m. answer (\<lambda>_. Unit) (map_assign (node_size z) (key_size z) (value_size z) (value_grows z) v k m)) m')"
        using map_assign_room [OF _ z, of _ k v] m'(2) sz by (intro with_copy_room m'(1)) (fastforce simp: answer_room)+
    qed
  next
    case (Insert_or_assign_forward k v)
    show ?thesis
      unfolding Insert_or_assign_forward map_body.simps req_cost.simps
      by (rule copied) (use map_assign_room [OF _ z] in \<open>fastforce simp: answer_room\<close>)
  qed (use m z in \<open>simp_all add: answer_room map_insert_room map_removals_room map_queries_room unarg\<close>)
qed

text \<open>The answers of a finite map are not about memory.\<close>

lemma spec_step_no_alloc: "fst (spec_step req f) \<noteq> Map_throws (Map_alloc e)"
  by (cases req) (auto split: option.splits)

definition result_of :: "map_error + 'a \<Rightarrow> 'a map_result" where
  "result_of x = (case x of Inl e \<Rightarrow> Map_throws e | Inr x \<Rightarrow> Map_returns x)"

lemma map_body_exact:
  assumes "distinct (map fst (sm_nodes m))" "mem_inv m" "sizes_ok z" "map_body z req m = (x, m')"
  shows "sm_mutex m' = sm_mutex m \<and> distinct (map fst (sm_nodes m')) \<and> mem_inv m'
    \<and> (\<exists>d. grown d (sm_alloc m) (sm_alloc m')
      \<and> (if req_cost z (lookup_node (sm_nodes m)) req \<le> room (sm_alloc m)
         then (result_of x, lookup_node (sm_nodes m')) = spec_step req (lookup_node (sm_nodes m))
           \<and> d = req_cost z (lookup_node (sm_nodes m)) req
         else result_of x = Map_throws (Map_alloc alloc_error.Bad_alloc) \<and> lookup_node (sm_nodes m') = lookup_node (sm_nodes m)))"
proof -
  let ?f = "lookup_node (sm_nodes m)"
  have ok: "body_ok req m (x, m')" "body_room (req_cost z ?f req) m (x, m')"
    using map_body_ok [OF assms(1), of req z] map_body_room [OF assms(2,3), of req] assms(4) by simp_all
  obtain d where d: "mem_inv m'" "grown d (sm_alloc m) (sm_alloc m')"
    "if req_cost z ?f req \<le> room (sm_alloc m) then (\<forall>e. x \<noteq> Inl (Map_alloc e)) \<and> d = req_cost z ?f req
     else x = Inl (Map_alloc alloc_error.Bad_alloc)"
    using ok(2) by (auto simp: body_room_def)
  have c: "sm_mutex m' = sm_mutex m" "distinct (map fst (sm_nodes m'))"
    "(result_of x, lookup_node (sm_nodes m')) = spec_step req ?f \<or> (\<exists>e. x = Inl (Map_alloc e)) \<and> lookup_node (sm_nodes m') = ?f"
    using ok(1) by (simp_all add: body_ok_def result_of_def)
  show ?thesis
  proof (cases "req_cost z ?f req \<le> room (sm_alloc m)")
    case True
    with c d show ?thesis by auto
  next
    case False
    then have r: "result_of x = Map_throws (Map_alloc alloc_error.Bad_alloc)" using d(3) by (simp add: result_of_def)
    then have "(result_of x, lookup_node (sm_nodes m')) \<noteq> spec_step req ?f" using spec_step_no_alloc by (metis fst_conv)
    with c d(1,2) r False show ?thesis by auto
  qed
qed

lemma map_step_room:
  assumes "map_inv m" "mem_inv m" "sizes_ok z" "map_step z req m = (r, m')"
  shows "map_inv m' \<and> mem_inv m'
    \<and> (if req_cost z (lookup_node (sm_nodes m)) req \<le> room (sm_alloc m)
       then (r, lookup_node (sm_nodes m')) = spec_step req (lookup_node (sm_nodes m))
         \<and> grown (req_cost z (lookup_node (sm_nodes m)) req) (sm_alloc m) (sm_alloc m')
       else r = Map_throws (Map_alloc alloc_error.Bad_alloc) \<and> lookup_node (sm_nodes m') = lookup_node (sm_nodes m)
         \<and> (\<exists>d. grown d (sm_alloc m) (sm_alloc m')))"
proof -
  define m0 where "m0 = m\<lparr>sm_mutex := (sm_mutex m)\<lparr>sem_value := 0\<rparr>\<rparr>"
  have m0: "mem_inv m0" "sm_nodes m0 = sm_nodes m" "sm_alloc m0 = sm_alloc m" "distinct (map fst (sm_nodes m0))"
    using assms(1,2) by (simp_all add: m0_def mem_inv_def map_inv_def)
  obtain x m1 where body: "map_body z req m0 = (x, m1)" by fastforce
  note ex = map_body_exact [OF m0(4,1) assms(3) body]
  have lock: "mutex_lock None (sm_mutex m) = Synced () (sm_mutex m0)"
    using assms(1) by (simp add: mutex_lock_def sem_wait_def m0_def map_inv_def)
  have unlock: "mutex_unlock (sm_mutex m1) = Synced () ((sm_mutex m1)\<lparr>sem_value := 1\<rparr>)"
    using ex by (simp add: m0_def mutex_unlock_def sem_post_def SEM_VALUE_MAX_def)
  have "m\<lparr>sm_mutex := sm_mutex m0\<rparr> = m0" by (simp add: m0_def)
  then have out: "r = result_of x" "m' = m1\<lparr>sm_mutex := (sm_mutex m1)\<lparr>sem_value := 1\<rparr>\<rparr>"
    using assms(4) by (simp_all add: map_step_def guarded_by_def lock body unlock result_of_def)
  have "map_inv m'" "mem_inv m'" using ex by (simp_all add: out(2) map_inv_def mem_inv_def)
  moreover have "sm_nodes m' = sm_nodes m1" "sm_alloc m' = sm_alloc m1" by (simp_all add: out(2))
  ultimately show ?thesis using ex m0(2,3) out(1) by (auto split: if_splits)
qed

section \<open>Operations of several processes\<close>

text \<open>
  An operation in a section of the mutex, with a record of what it answered; and the records that operations
  one after the other on a finite map of bounded memory explain: one whose bytes fit answers and changes
  the content as on the finite map and takes them, one whose bytes do not throws \<open>bad_alloc\<close>, leaves
  the content and may take some of the room.
\<close>

type_synonym ('k, 'v) answers = "(('k, 'v) map_req \<times> 'v map_answer map_result) list"

definition logged :: "('k, 'v) sizes \<Rightarrow> ('k, 'v) map_req \<Rightarrow> ('k, 'v) shm_map \<times> ('k, 'v) answers \<Rightarrow> ('k, 'v) shm_map \<times> ('k, 'v) answers" where
  "logged z req s = (let (x, m) = map_body z req (fst s) in (m, snd s @ [(req, result_of x)]))"

fun explains :: "('k, 'v) sizes \<Rightarrow> ('k, 'v) answers \<Rightarrow> ('k \<Rightarrow> 'v option) \<times> nat \<Rightarrow> ('k \<Rightarrow> 'v option) \<times> nat \<Rightarrow> bool" where
  "explains z [] s t = (s = t)"
| "explains z ((req, r) # log) (f, left) t =
     (if req_cost z f req \<le> left
      then r = fst (spec_step req f) \<and> explains z log (snd (spec_step req f), left - req_cost z f req) t
      else r = Map_throws (Map_alloc alloc_error.Bad_alloc) \<and> (\<exists>left' \<le> left. explains z log (f, left') t))"

definition content :: "('k, 'v) shm_map \<Rightarrow> ('k \<Rightarrow> 'v option) \<times> nat" where
  "content m = (lookup_node (sm_nodes m), room (sm_alloc m))"

lemma grown_less_room: "grown d la la' \<Longrightarrow> room la' = room la - d"
  by (simp add: grown_def room_def)

lemma sections_explained:
  assumes "list_all2 (\<lambda>as req. run_section as = logged z req) es reqs" "distinct (map fst (sm_nodes m))" "mem_inv m" "sizes_ok z"
  shows "\<exists>m' new. fold run_section es (m, log) = (m', log @ new) \<and> map fst new = reqs \<and> explains z new (content m) (content m')"
  using assms(1-3)
proof (induction es reqs arbitrary: m log rule: list_all2_induct)
  case Nil
  then show ?case by simp
next
  case (Cons as es req reqs)
  obtain x m1 where body: "map_body z req m = (x, m1)" by fastforce
  note ex = map_body_exact [OF Cons.prems assms(4) body]
  have run: "run_section as (m, log) = (m1, log @ [(req, result_of x)])" using Cons.hyps(1) by (simp add: logged_def body)
  obtain m' new where rest: "fold run_section es (m1, log @ [(req, result_of x)]) = (m', (log @ [(req, result_of x)]) @ new)"
    "map fst new = reqs" "explains z new (content m1) (content m')"
    using Cons.IH [of m1 "log @ [(req, result_of x)]"] ex by blast
  have "explains z ((req, result_of x) # new) (content m) (content m')"
  proof (cases "req_cost z (lookup_node (sm_nodes m)) req \<le> room (sm_alloc m)")
    case True
    with ex have "(result_of x, lookup_node (sm_nodes m1)) = spec_step req (lookup_node (sm_nodes m))"
      "room (sm_alloc m1) = room (sm_alloc m) - req_cost z (lookup_node (sm_nodes m)) req"
      by (auto intro: grown_less_room)
    then show ?thesis using True rest(3) by (simp add: content_def prod_eq_iff)
  next
    case False
    with ex have "result_of x = Map_throws (Map_alloc alloc_error.Bad_alloc)" "lookup_node (sm_nodes m1) = lookup_node (sm_nodes m)"
      "room (sm_alloc m1) \<le> room (sm_alloc m)"
      by (auto dest: grown_less_room)
    then show ?thesis using False rest(3) by (auto simp: content_def)
  qed
  then show ?case using run rest(1,2) by (intro exI [of _ m'] exI [of _ "(req, result_of x) # new"]) simp
qed

section \<open>Properties\<close>

text \<open>
  C14: The memory of the shared map is accounted for exactly. On a map whose mutex is free, an operation answers
  and changes the content as on a finite map and takes the bytes of the copies and nodes it makes, which
  nothing gives back, when these fit into the room that is left; and exactly when they do not, it throws
  \<open>bad_alloc\<close>, and the content is what it was.
\<close>

theorem map_memory_exact:
  assumes "map_inv m" "mem_inv m" "sizes_ok z" "map_step z req m = (r, m')"
  shows "map_inv m' \<and> mem_inv m'
    \<and> (if req_cost z (lookup_node (sm_nodes m)) req \<le> room (sm_alloc m)
       then (r, lookup_node (sm_nodes m')) = spec_step req (lookup_node (sm_nodes m))
         \<and> room (sm_alloc m') + req_cost z (lookup_node (sm_nodes m)) req = room (sm_alloc m)
       else r = Map_throws (Map_alloc alloc_error.Bad_alloc) \<and> lookup_node (sm_nodes m') = lookup_node (sm_nodes m))"
proof (cases "req_cost z (lookup_node (sm_nodes m)) req \<le> room (sm_alloc m)")
  case True
  with map_step_room [OF assms] grown_room show ?thesis by fastforce
next
  case False
  with map_step_room [OF assms] show ?thesis by auto
qed

theorem map_memory_exact_witness:
  "\<exists>r m'. map_step (plain_sizes 40) (Insert 1 5) example_map = (r, m') \<and> room (sm_alloc m') = 0
     \<and> fst (map_step (plain_sizes 40) (Insert_or_assign 2 6) m') = Map_throws (Map_alloc alloc_error.Bad_alloc)"
proof -
  let ?z = "plain_sizes 40 :: (nat, nat) sizes"
  have ok: "map_inv example_map" "mem_inv example_map" "sizes_ok ?z" "room (sm_alloc example_map) = 40" "lookup_node (sm_nodes example_map) = (\<lambda>_. None)"
    by (simp_all add: map_inv_def mem_inv_def example_map_def sizes_ok_def plain_sizes_def fits_def la_inv_def room_def)
  have z: "key_size ?z = (\<lambda>_. 0)" "value_size ?z = (\<lambda>_. 0)" "node_size ?z = 40" by (simp_all add: plain_sizes_def)
  obtain r m' where 1: "map_step ?z (Insert 1 5) example_map = (r, m')" by fastforce
  obtain r' m'' where 2: "map_step ?z (Insert_or_assign 2 6) m' = (r', m'')" by fastforce
  note s1 = map_memory_exact [OF ok(1-3) 1]
  then have m': "map_inv m'" "mem_inv m'" "room (sm_alloc m') = 0" "lookup_node (sm_nodes m') = [1 \<mapsto> 5]"
    by (simp_all add: ok(4,5) z node_cost_def)
  from map_memory_exact [OF m'(1,2) ok(3) 2] have "r' = Map_throws (Map_alloc alloc_error.Bad_alloc)"
    by (simp add: m'(3,4) z assign_cost_def node_cost_def)
  with 1 2 m'(3) show ?thesis by auto
qed

text \<open>
  C15: Operations of any number of processes on one map, each in a section under the mutex of the map, with
  types whose sizes do not wrap around and memory that only this map uses meanwhile, are
  linearized: whenever nobody is inside, every answer that was given and the content are those of the
  operations one by one in the order of their locks on a finite map, an operation throwing
  \<open>bad_alloc\<close> and changing nothing exactly when the bytes it asks for are more than the room that was left.
\<close>

theorem map_operations_linearize:
  assumes "Mutex = Inr mx" "the_lock c = mx" "nobody_inside c" "shared c = (m, [])"
    and "distinct (map fst (sm_nodes m))" "mem_inv m" "sizes_ok z"
    and "section_run (\<lambda>m. locked (mutex_lock None m)) (\<lambda>m. locked (mutex_unlock m)) c es c'" "nobody_inside c'"
    and "list_all2 (\<lambda>as req. run_section as = logged z req) es reqs"
  shows "\<exists>m' log. shared c' = (m', log) \<and> map fst log = reqs
    \<and> explains z log (lookup_node (sm_nodes m), room (sm_alloc m)) (lookup_node (sm_nodes m'), room (sm_alloc m'))"
proof -
  have "sem_value (the_lock c) = 1" using assms(1,2) by (auto simp: Mutex_def sem_init_def SEM_VALUE_MAX_def)
  from shm_mutex.sections_in_order [OF assms(8) this assms(3)] assms(4,9)
  have "shared c' = fold run_section es (m, [])" by simp
  with sections_explained [OF assms(10,5-7), of "[]"] show ?thesis by (simp add: content_def)
qed

abbreviation map_lock :: "mutex \<Rightarrow> mutex option" where "map_lock m \<equiv> locked (mutex_lock None m)"
abbreviation map_unlock :: "mutex \<Rightarrow> mutex option" where "map_unlock m \<equiv> locked (mutex_unlock m)"

text \<open>Two processes insert into a map with room for one node.\<close>

definition two_waiting :: "(mutex, (nat, nat) shm_map \<times> (nat, nat) answers) sections" where
  "two_waiting = \<lparr>the_lock = \<lparr>sem_value = 1, sem_empty = False\<rparr>, shared = (example_map, []),
     at = (\<lambda>p. if p = 3 then Waiting [logged (plain_sizes 40) (Insert 1 5)]
       else if p = 4 then Waiting [logged (plain_sizes 40) (Insert 2 6)] else Done_with)\<rparr>"

lemma whole_section:
  assumes "section_run map_lock map_unlock c0 es c" "at c p = Waiting [f]" "the_lock c = \<lparr>sem_value = 1, sem_empty = False\<rparr>"
  shows "section_run map_lock map_unlock c0 (es @ [[f]]) (c\<lparr>shared := f (shared c), at := (at c)(p := Done_with)\<rparr>)"
proof -
  let ?m0 = "\<lparr>sem_value = 0, sem_empty = False\<rparr> :: mutex" and ?m1 = "\<lparr>sem_value = 1, sem_empty = False\<rparr> :: mutex"
  let ?c1 = "c\<lparr>the_lock := ?m0, at := (at c)(p := Inside [f])\<rparr>"
  let ?c2 = "?c1\<lparr>shared := f (shared ?c1), at := (at ?c1)(p := Inside [])\<rparr>"
  let ?c3 = "?c2\<lparr>the_lock := ?m1, at := (at ?c2)(p := Done_with)\<rparr>"
  have lock: "map_lock ?m1 = Some ?m0" "map_unlock ?m0 = Some ?m1"
    by (simp_all add: locked_def mutex_lock_def mutex_unlock_def sem_wait_def sem_post_def SEM_VALUE_MAX_def)
  have "section_step map_lock map_unlock c (Some [f]) ?c1" by (rule section_step.Enter) (simp_all add: assms(2,3) lock del: One_nat_def)
  moreover have "section_step map_lock map_unlock ?c1 None ?c2" by (rule section_step.Act) simp
  moreover have "section_step map_lock map_unlock ?c2 None ?c3" by (rule section_step.Leave) (simp_all add: lock del: One_nat_def)
  ultimately have "section_run map_lock map_unlock c0 (es @ [[f]]) ?c3"
    using One_more [OF One_more [OF One_more [OF assms(1)]]] by fastforce
  moreover have "?c3 = c\<lparr>shared := f (shared c), at := (at c)(p := Done_with)\<rparr>" by (simp add: assms(3))
  ultimately show ?thesis by simp
qed

theorem map_operations_linearize_witness:
  "\<exists>c' m' log. section_run map_lock map_unlock two_waiting [[logged (plain_sizes 40) (Insert 2 6)], [logged (plain_sizes 40) (Insert 1 5)]] c'
     \<and> shared c' = (m', log) \<and> lookup_node (sm_nodes m') = [2 \<mapsto> 6]
     \<and> log = [(Insert 2 6, Map_returns Unit), (Insert 1 5, Map_throws (Map_alloc alloc_error.Bad_alloc))]"
proof -
  let ?z = "plain_sizes 40 :: (nat, nat) sizes" and ?reqs = "[Insert 2 6, Insert 1 5] :: (nat, nat) map_req list"
  let ?one = "logged ?z (Insert 1 5)" and ?two = "logged ?z (Insert 2 6)"
  have one: "section_run map_lock map_unlock two_waiting [[?two]] (two_waiting\<lparr>shared := ?two (shared two_waiting), at := (at two_waiting)(4 := Done_with)\<rparr>)"
    using whole_section [OF No_step, of two_waiting 4 ?two] by (simp add: two_waiting_def)
  obtain c' where run: "section_run map_lock map_unlock two_waiting [[?two], [?one]] c'" "nobody_inside c'"
    using whole_section [OF one, of 3 ?one] by (fastforce simp: two_waiting_def nobody_inside_def)
  have m: "Mutex = Inr (the_lock two_waiting)" by (simp add: Mutex_def sem_init_def SEM_VALUE_MAX_def two_waiting_def)
  have start: "nobody_inside two_waiting" "shared two_waiting = (example_map, [])" by (auto simp: nobody_inside_def two_waiting_def)
  have ok: "distinct (map fst (sm_nodes example_map))" "mem_inv example_map" "sizes_ok ?z" "room (sm_alloc example_map) = 40"
    "lookup_node (sm_nodes example_map) = (\<lambda>_. None)" "unat (node_size ?z) = 40" "key_size ?z = (\<lambda>_. 0)" "value_size ?z = (\<lambda>_. 0)"
    by (simp_all add: mem_inv_def example_map_def sizes_ok_def plain_sizes_def fits_def la_inv_def room_def)
  have "list_all2 (\<lambda>as req. run_section as = logged ?z req) [[?two], [?one]] ?reqs" by (simp add: run_section_def fun_eq_iff)
  from map_operations_linearize [OF m refl start ok(1-3) run this] obtain m' log where
    e: "shared c' = (m', log)" "map fst log = ?reqs" "explains ?z log (\<lambda>_. None, 40) (lookup_node (sm_nodes m'), room (sm_alloc m'))"
    using ok(4,5) by auto
  obtain r1 r2 where "log = [(Insert 2 6, r1), (Insert 1 5, r2)]" using e(2) by (auto simp: map_eq_Cons_conv)
  with e(1,3) run(1) show ?thesis by (auto simp: node_cost_def ok(6-8))
qed

end
