(* ===== verification/DemoMap.thy ===== *)
theory DemoMap imports ShmRoom Demo begin

text \<open>
  \<open>hw5_test\<close> of \<open>src/utils.cpp\<close>: three maps in shared memory, which a child process fills and the parent
  reads and destroys. All three get their memory from the first allocator. What the types of the program
  take is a layout. The steps of the processes are the beginnings and the ends of their operations, in any
  order that the mutexes of the maps allow; two operations of different maps that use the allocator at the
  same time end what is known of the run.
\<close>

section \<open>Setup\<close>

definition BYTE :: "64 word" where "BYTE = 1"
definition KILOBYTE :: "64 word" where "KILOBYTE = BYTE * 1024"

record hw5_layout =
  lo_mutex :: "64 word"
  lo_map :: "nat \<Rightarrow> 64 word"
  lo_node :: "nat \<Rightarrow> 64 word"
  lo_chars :: "string \<Rightarrow> 64 word"
  lo_grows :: "string \<Rightarrow> string \<Rightarrow> bool"

record hw5_maps =
  h_alloc :: linear_allocator
  shmap :: "(int, int) shm_map"
  shmap1 :: "(string, string) shm_map"
  shmap2 :: "(string, int) shm_map"

definition sizes0 :: "hw5_layout \<Rightarrow> (int, int) sizes" where
  "sizes0 lo = plain_sizes (lo_node lo 0)"

definition sizes1 :: "hw5_layout \<Rightarrow> (string, string) sizes" where
  "sizes1 lo = \<lparr>node_size = lo_node lo 1, key_size = lo_chars lo, value_size = lo_chars lo, value_grows = lo_grows lo\<rparr>"

definition sizes2 :: "hw5_layout \<Rightarrow> (string, int) sizes" where
  "sizes2 lo = \<lparr>node_size = lo_node lo 2, key_size = lo_chars lo, value_size = (\<lambda>_. 0), value_grows = (\<lambda>_ _. False)\<rparr>"

text \<open>A region for an allocator, and a map on an allocator that may already have given out blocks.\<close>

definition hw5_region :: "(map_error \<Rightarrow> string) \<Rightarrow> 64 word option \<Rightarrow> linear_allocator demo" where
  "hw5_region what mmap =
     demo_bind (demo_of (what \<circ> Map_alloc) (create_shmem BYTE KILOBYTE mmap)) (\<lambda>(p, mapped, unmapped).
     demo_of (what \<circ> Map_alloc) (LinearAllocator p KILOBYTE))"

definition hw5_setup ::
  "hw5_layout \<Rightarrow> (map_error \<Rightarrow> string) \<Rightarrow> (nat \<Rightarrow> 64 word option) \<Rightarrow> (nat \<Rightarrow> bool) \<Rightarrow> hw5_maps demo" where
  "hw5_setup lo what mmaps inits =
     demo_bind (hw5_region what (mmaps 0)) (\<lambda>shallocator.
     demo_bind (demo_of what (fst (Map (lo_mutex lo) (lo_map lo 0) (inits 0) shallocator))) (\<lambda>m0.
     demo_bind (hw5_region what (mmaps 1)) (\<lambda>shallocator1.
     demo_bind (demo_of what (fst (Map (lo_mutex lo) (lo_map lo 1) (inits 1) (sm_alloc m0)))) (\<lambda>m1.
     demo_bind (hw5_region what (mmaps 2)) (\<lambda>shallocator2.
     demo_bind (demo_of what (fst (Map (lo_mutex lo) (lo_map lo 2) (inits 2) (sm_alloc m1)))) (\<lambda>m2.
     Demo_value \<lparr>h_alloc = sm_alloc m2, shmap = m0, shmap1 = m1, shmap2 = m2\<rparr>))))))"

section \<open>The two processes\<close>

definition hw5_key :: int where "hw5_key = 100500"
definition hw5_long_key :: string where "hw5_long_key = ''This is a very long string key for my shared map testing!''"
definition hw5_text :: string where "hw5_text = ''Yeah!!! It's working!!!''"

text \<open>
  The two processes run at the same time, and a mutex orders only the operations of its own map: an operation
  is two turns of its process. It begins by locking the mutex, when the other process is not in an operation
  of the same map, and ends with its body and the unlock. A read of \<open>shmap\<close>, whose keys and values are
  numbers, is the only operation that leaves the allocator alone; all others use the one allocator of the
  three maps, whose operations nothing synchronizes.
\<close>

datatype hw5_process = Child | Parent

datatype hw5_value = Num int | Text string

record hw5_call =
  call_number :: nat
  allocates :: bool
  begins :: "hw5_maps \<Rightarrow> hw5_maps demo"
  ends :: "hw5_maps \<Rightarrow> (string + hw5_value list) \<times> hw5_maps"

definition locked_map :: "(map_error \<Rightarrow> string) \<Rightarrow> ('k, 'v) shm_map \<Rightarrow> ('k, 'v) shm_map demo" where
  "locked_map what m =
     (case mutex_lock None (sm_mutex m) of
        Sync_blocks \<Rightarrow> Demo_waits
      | Sync_threw e mx \<Rightarrow> Demo_threw (what (Map_sync e))
      | Synced _ mx \<Rightarrow> Demo_value (m\<lparr>sm_mutex := mx\<rparr>))"

definition unlocked_map ::
  "(map_error \<Rightarrow> 'e) \<Rightarrow> ('k, 'v) sizes \<Rightarrow> ('k, 'v) map_req \<Rightarrow> linear_allocator \<Rightarrow> ('k, 'v) shm_map
    \<Rightarrow> ('e + 'v map_answer) \<times> ('k, 'v) shm_map" where
  "unlocked_map what z req la m =
     (let (x, m) = map_body z req (m\<lparr>sm_alloc := la\<rparr>)
      in (case x of Inl e \<Rightarrow> Inl (what e) | Inr x \<Rightarrow> Inr x,
          case mutex_unlock (sm_mutex m) of Synced _ mx \<Rightarrow> m\<lparr>sm_mutex := mx\<rparr> | _ \<Rightarrow> m))"

definition numbers :: "int map_answer \<Rightarrow> hw5_value list" where
  "numbers x = (case x of Value v \<Rightarrow> [Num v] | _ \<Rightarrow> [])"

definition texts :: "string map_answer \<Rightarrow> hw5_value list" where
  "texts x = (case x of Value v \<Rightarrow> [Text v] | _ \<Rightarrow> [])"

definition call0 :: "hw5_layout \<Rightarrow> (map_error \<Rightarrow> string) \<Rightarrow> (int, int) map_req \<Rightarrow> hw5_call" where
  "call0 lo what req =
     \<lparr>call_number = 0, allocates = (case req of At (Same _) \<Rightarrow> False | _ \<Rightarrow> True),
      begins = (\<lambda>h. demo_bind (locked_map what (shmap h)) (\<lambda>m. Demo_value (h\<lparr>shmap := m\<rparr>))),
      ends = (\<lambda>h. let (r, m) = unlocked_map what (sizes0 lo) req (h_alloc h) (shmap h)
        in (map_sum id numbers r, h\<lparr>h_alloc := sm_alloc m, shmap := m\<rparr>))\<rparr>"

definition call1 :: "hw5_layout \<Rightarrow> (map_error \<Rightarrow> string) \<Rightarrow> (string, string) map_req \<Rightarrow> hw5_call" where
  "call1 lo what req =
     \<lparr>call_number = 1, allocates = True,
      begins = (\<lambda>h. demo_bind (locked_map what (shmap1 h)) (\<lambda>m. Demo_value (h\<lparr>shmap1 := m\<rparr>))),
      ends = (\<lambda>h. let (r, m) = unlocked_map what (sizes1 lo) req (h_alloc h) (shmap1 h)
        in (map_sum id texts r, h\<lparr>h_alloc := sm_alloc m, shmap1 := m\<rparr>))\<rparr>"

definition call2 :: "hw5_layout \<Rightarrow> (map_error \<Rightarrow> string) \<Rightarrow> (string, int) map_req \<Rightarrow> hw5_call" where
  "call2 lo what req =
     \<lparr>call_number = 2, allocates = True,
      begins = (\<lambda>h. demo_bind (locked_map what (shmap2 h)) (\<lambda>m. Demo_value (h\<lparr>shmap2 := m\<rparr>))),
      ends = (\<lambda>h. let (r, m) = unlocked_map what (sizes2 lo) req (h_alloc h) (shmap2 h)
        in (map_sum id numbers r, h\<lparr>h_alloc := sm_alloc m, shmap2 := m\<rparr>))\<rparr>"

definition hw5_child :: "hw5_layout \<Rightarrow> (map_error \<Rightarrow> string) \<Rightarrow> hw5_call list" where
  "hw5_child lo what = [call0 lo what (Insert hw5_key hw5_key), call1 lo what (Insert hw5_long_key hw5_text),
     call2 lo what (Insert hw5_long_key hw5_key)]"

text \<open>\<open>destroy\<close>, with the blocks of the map object and of the mutex; it takes no lock.\<close>

definition destroy_on :: "block \<times> block \<Rightarrow> linear_allocator \<Rightarrow> ('k, 'v) shm_map \<Rightarrow> linear_allocator \<times> ('k, 'v) shm_map" where
  "destroy_on bs la m = 
     (case snd (map_destroy (fst bs) (snd bs) (Some (m\<lparr>sm_alloc := la\<rparr>))) of None \<Rightarrow> (la, m) | Some m \<Rightarrow> (sm_alloc m, m))"

definition destroy_call :: "nat \<Rightarrow> (hw5_maps \<Rightarrow> hw5_maps) \<Rightarrow> hw5_call" where
  "destroy_call n f = \<lparr>call_number = n, allocates = True, begins = Demo_value, ends = (\<lambda>h. (Inr [], f h))\<rparr>"

definition destroy0 :: "block \<times> block \<Rightarrow> hw5_call" where
  "destroy0 bs = destroy_call 3 (\<lambda>h. let (la, m) = destroy_on bs (h_alloc h) (shmap h) in h\<lparr>h_alloc := la, shmap := m\<rparr>)"

definition destroy1 :: "block \<times> block \<Rightarrow> hw5_call" where
  "destroy1 bs = destroy_call 4 (\<lambda>h. let (la, m) = destroy_on bs (h_alloc h) (shmap1 h) in h\<lparr>h_alloc := la, shmap1 := m\<rparr>)"

definition destroy2 :: "block \<times> block \<Rightarrow> hw5_call" where
  "destroy2 bs = destroy_call 5 (\<lambda>h. let (la, m) = destroy_on bs (h_alloc h) (shmap2 h) in h\<lparr>h_alloc := la, shmap2 := m\<rparr>)"

definition hw5_parent :: "hw5_layout \<Rightarrow> (map_error \<Rightarrow> string) \<Rightarrow> (nat \<Rightarrow> block \<times> block) \<Rightarrow> hw5_call list" where
  "hw5_parent lo what mem =
     [call0 lo what (At (Same hw5_key)), call1 lo what (At (Converted hw5_long_key)), call2 lo what (At (Converted hw5_long_key)),
      destroy0 (mem 0), destroy1 (mem 1), destroy2 (mem 2)]"

text \<open>
  The run, with a record of what began and ended. It is over when the parent throws, and when both processes
  are in operations that use the allocator: what comes of that is not defined. A child that throws has ended.
\<close>

datatype hw5_event = Begins hw5_process nat | Ends hw5_process nat

datatype hw5_over = Raced | Threw string

record hw5_state =
  maps :: hw5_maps
  calls :: "hw5_process \<Rightarrow> hw5_call list"
  inside :: "hw5_process \<Rightarrow> bool"
  got :: "hw5_value list"
  events :: "hw5_event list"
  over :: "hw5_over option"

fun other :: "hw5_process \<Rightarrow> hw5_process" where
  "other Child = Parent"
| "other Parent = Child"

definition racing :: "hw5_process \<Rightarrow> hw5_state \<Rightarrow> bool" where
  "racing p w \<longleftrightarrow> inside w (other p) \<and> allocates (hd (calls w p)) \<and> allocates (hd (calls w (other p)))"

definition leaves_by :: "string \<Rightarrow> hw5_process \<Rightarrow> hw5_state \<Rightarrow> hw5_state" where
  "leaves_by t p w = (case p of Child \<Rightarrow> w\<lparr>calls := (calls w)(Child := [])\<rparr> | Parent \<Rightarrow> w\<lparr>over := Some (Threw t)\<rparr>)"

definition begin_call :: "hw5_process \<Rightarrow> hw5_call \<Rightarrow> hw5_state \<Rightarrow> hw5_state" where
  "begin_call p c w =
     (case begins c (maps w) of
        Demo_waits \<Rightarrow> w
      | Demo_threw t \<Rightarrow> leaves_by t p w
      | Demo_value h \<Rightarrow>
          w\<lparr>maps := h, inside := (inside w)(p := True), events := events w @ [Begins p (call_number c)],
            over := (if racing p w then Some Raced else over w)\<rparr>)"

definition end_call :: "hw5_process \<Rightarrow> hw5_call \<Rightarrow> hw5_state \<Rightarrow> hw5_state" where
  "end_call p c w =
     (let (r, h) = ends c (maps w);
          w = w\<lparr>maps := h, inside := (inside w)(p := False), calls := (calls w)(p := tl (calls w p)),
            events := events w @ [Ends p (call_number c)]\<rparr>
      in case r of Inl t \<Rightarrow> leaves_by t p w | Inr xs \<Rightarrow> w\<lparr>got := got w @ xs\<rparr>)"

definition hw5_turn :: "hw5_process \<Rightarrow> hw5_state \<Rightarrow> hw5_state" where
  "hw5_turn p w =
     (if over w \<noteq> None then w
      else case calls w p of [] \<Rightarrow> w | c # _ \<Rightarrow> if inside w p then end_call p c w else begin_call p c w)"

definition hw5_run :: "hw5_process list \<Rightarrow> hw5_state \<Rightarrow> hw5_state" where
  "hw5_run schedule w = fold hw5_turn schedule w"

fun hw5_calls :: "hw5_layout \<Rightarrow> (map_error \<Rightarrow> string) \<Rightarrow> (nat \<Rightarrow> block \<times> block) \<Rightarrow> hw5_process \<Rightarrow> hw5_call list" where
  "hw5_calls lo what mem Child = hw5_child lo what"
| "hw5_calls lo what mem Parent = hw5_parent lo what mem"

definition hw5_forked :: "hw5_layout \<Rightarrow> (map_error \<Rightarrow> string) \<Rightarrow> (nat \<Rightarrow> block \<times> block) \<Rightarrow> hw5_maps \<Rightarrow> hw5_state" where
  "hw5_forked lo what mem h =
     \<lparr>maps = h, calls = hw5_calls lo what mem, inside = (\<lambda>_. False), got = [], events = [], over = None\<rparr>"

text \<open>What the parent has of the test; None is what is not defined.\<close>

definition hw5_result :: "hw5_state \<Rightarrow> hw5_value list demo option" where
  "hw5_result w =
     (case over w of
        Some Raced \<Rightarrow> None
      | Some (Threw t) \<Rightarrow> Some (Demo_threw t)
      | None \<Rightarrow> Some (if calls w Parent = [] then Demo_value (got w) else Demo_waits))"

definition hw5_test ::
  "hw5_layout \<Rightarrow> (map_error \<Rightarrow> string) \<Rightarrow> (nat \<Rightarrow> 64 word option) \<Rightarrow> (nat \<Rightarrow> bool) \<Rightarrow> (nat \<Rightarrow> block \<times> block) \<Rightarrow> int
    \<Rightarrow> hw5_process list \<Rightarrow> hw5_value list demo option" where
  "hw5_test lo what mmaps inits mem pid schedule =
     (case demo_bind (hw5_setup lo what mmaps inits) (\<lambda>h. demo_bind (demo_require (0 \<le> pid) ''hw4: fork failed'') (\<lambda>_. Demo_value h)) of
        Demo_threw t \<Rightarrow> Some (Demo_threw t)
      | Demo_waits \<Rightarrow> Some Demo_waits
      | Demo_value h \<Rightarrow> hw5_result (hw5_run schedule (hw5_forked lo what mem h)))"

text \<open>The two turns of an operation of a map are the operation, when nothing comes between them.\<close>

lemma map_step_turns:
  assumes "locked_map what m = Demo_value m1" "unlocked_map id z req la m1 = (r, m2)"
  shows "map_step z req (m\<lparr>sm_alloc := la\<rparr>) = (case r of Inl e \<Rightarrow> Map_throws e | Inr x \<Rightarrow> Map_returns x, m2)"
proof -
  obtain mx where mx: "mutex_lock None (sm_mutex m) = Synced () mx" "m1 = m\<lparr>sm_mutex := mx\<rparr>"
    using assms(1) by (auto simp: locked_map_def split: sync.splits)
  obtain x m' where "map_body z req (m1\<lparr>sm_alloc := la\<rparr>) = (x, m')" by fastforce
  moreover have "m\<lparr>sm_alloc := la, sm_mutex := mx\<rparr> = m1\<lparr>sm_alloc := la\<rparr>" using mx(2) by simp
  ultimately show ?thesis using assms(2) mx(1)
    by (auto simp: unlocked_map_def map_step_def guarded_by_def split: sum.splits sync.splits)
qed

section \<open>Lemmas\<close>

definition layout_ok :: "hw5_layout \<Rightarrow> bool" where
  "layout_ok lo \<longleftrightarrow> fits (lo_mutex lo) 1 \<and> lo_mutex lo \<noteq> 0 \<and> (\<forall>i. fits (lo_map lo i) 1 \<and> lo_map lo i \<noteq> 0)
     \<and> (\<forall>i. fits (lo_node lo i) 1 \<and> lo_node lo i \<noteq> 0) \<and> (\<forall>s. fits 1 (lo_chars lo s))"

lemma layout_sizes: "layout_ok lo \<Longrightarrow> sizes_ok (sizes0 lo) \<and> sizes_ok (sizes1 lo) \<and> sizes_ok (sizes2 lo)"
  by (simp add: layout_ok_def sizes_ok_def sizes0_def sizes1_def sizes2_def plain_sizes_def fits_def)

text \<open>A map with its mutex locked or free, with the allocator as it is by then.\<close>

definition kept :: "bool \<Rightarrow> linear_allocator \<Rightarrow> ('k \<Rightarrow> 'v option) \<Rightarrow> ('k, 'v) shm_map \<Rightarrow> bool" where
  "kept l la f m \<longleftrightarrow> sem_value (sm_mutex m) = (if l then 0 else 1) \<and> distinct (map fst (sm_nodes m))
     \<and> mem_inv (m\<lparr>sm_alloc := la\<rparr>) \<and> lookup_node (sm_nodes m) = f"

lemma kept_grown: "kept l la f m \<Longrightarrow> grown c la la' \<Longrightarrow> kept l la' f m"
  using mem_inv_grown [of "m\<lparr>sm_alloc := la\<rparr>"] by (simp add: kept_def)

lemma locked_map_run:
  assumes "kept l la f m"
  shows "if l then locked_map what m = Demo_waits else \<exists>m'. locked_map what m = Demo_value m' \<and> kept True la f m'"
  using assms by (auto simp: kept_def locked_map_def mutex_lock_def sem_wait_def mem_inv_def)

definition spec_result :: "(map_error \<Rightarrow> string) \<Rightarrow> 'v map_answer map_result \<Rightarrow> string + 'v map_answer" where
  "spec_result what r = (case r of Map_returns x \<Rightarrow> Inr x | Map_throws e \<Rightarrow> Inl (what e) | Map_blocks \<Rightarrow> Inl [])"

lemma unlocked_map_run:
  assumes "kept True la f m" "sizes_ok z" "req_cost z f req \<le> room la"
  obtains m' where "unlocked_map what z req la m = (spec_result what (fst (spec_step req f)), m')"
    "grown (req_cost z f req) la (sm_alloc m')" "kept False (sm_alloc m') (snd (spec_step req f)) m'"
proof -
  let ?m = "m\<lparr>sm_alloc := la\<rparr>"
  have m: "distinct (map fst (sm_nodes ?m))" "mem_inv ?m" "lookup_node (sm_nodes ?m) = f" "sm_alloc ?m = la" "sem_value (sm_mutex ?m) = 0"
    using assms(1) by (simp_all add: kept_def)
  obtain x m1 where body: "map_body z req ?m = (x, m1)" by fastforce
  have s: "sm_mutex m1 = sm_mutex ?m" "distinct (map fst (sm_nodes m1))" "mem_inv m1"
    "(result_of x, lookup_node (sm_nodes m1)) = spec_step req f" "grown (req_cost z f req) la (sm_alloc m1)"
    using map_body_exact [OF m(1,2) assms(2) body] m(3,4) assms(3) by auto
  let ?m' = "m1\<lparr>sm_mutex := (sm_mutex m1)\<lparr>sem_value := 1\<rparr>\<rparr>"
  have "mutex_unlock (sm_mutex m1) = Synced () (sm_mutex ?m')"
    using s(1) m(5) by (simp add: mutex_unlock_def sem_post_def SEM_VALUE_MAX_def)
  moreover have "(case x of Inl e \<Rightarrow> Inl (what e) | Inr x \<Rightarrow> Inr x) = spec_result what (fst (spec_step req f))"
    using arg_cong [OF s(4) [symmetric], of fst] by (auto simp: spec_result_def result_of_def split: sum.splits)
  ultimately have "unlocked_map what z req la m = (spec_result what (fst (spec_step req f)), ?m')"
    by (simp add: unlocked_map_def body)
  moreover have "kept False (sm_alloc ?m') (snd (spec_step req f)) ?m'"
    using s(2,3) arg_cong [OF s(4), of snd] by (simp add: kept_def mem_inv_def)
  ultimately show ?thesis using that s(5) by simp
qed

text \<open>
  Each process has had so many turns that were steps: the maps, which of them are locked, and the room that
  the rest of the test needs.
\<close>

definition content_at :: "(hw5_process \<Rightarrow> nat) \<Rightarrow> nat \<Rightarrow> 'k \<Rightarrow> 'v \<Rightarrow> 'k \<Rightarrow> 'v option" where
  "content_at n k x y = (if 2 * k + 2 \<le> n Child then [x \<mapsto> y] else (\<lambda>_. None))"

definition locked_at :: "(hw5_process \<Rightarrow> nat) \<Rightarrow> nat \<Rightarrow> bool" where
  "locked_at n k \<longleftrightarrow> n Child = 2 * k + 1 \<or> n Parent = 2 * k + 1"

definition maps_at :: "(hw5_process \<Rightarrow> nat) \<Rightarrow> nat \<Rightarrow> hw5_maps \<Rightarrow> bool" where
  "maps_at n need h \<longleftrightarrow> need \<le> room (h_alloc h)
     \<and> kept (locked_at n 0) (h_alloc h) (content_at n 0 hw5_key hw5_key) (shmap h)
     \<and> kept (locked_at n 1) (h_alloc h) (content_at n 1 hw5_long_key hw5_text) (shmap1 h)
     \<and> kept (locked_at n 2) (h_alloc h) (content_at n 2 hw5_long_key hw5_key) (shmap2 h)"

definition child_cost :: "hw5_layout \<Rightarrow> nat \<Rightarrow> nat" where
  "child_cost lo i = (if i = 0 then unat (lo_node lo 0)
     else if i = 1 then unat (lo_chars lo hw5_long_key) + unat (lo_chars lo hw5_text) + unat (lo_node lo 1)
     else if i = 2 then unat (lo_chars lo hw5_long_key) + unat (lo_node lo 2) else 0)"

definition parent_cost :: "hw5_layout \<Rightarrow> nat \<Rightarrow> nat" where
  "parent_cost lo j = (if j = 1 then unat (lo_chars lo hw5_long_key) + unat (lo_chars lo hw5_text)
     else if j = 2 then unat (lo_chars lo hw5_long_key) else 0)"

definition hw5_bytes :: "hw5_layout \<Rightarrow> nat" where
  "hw5_bytes lo = (\<Sum>i < 3. child_cost lo i) + (\<Sum>j < 3. parent_cost lo j)"

declare hw5_calls.simps [simp del]

lemmas hw5_lists = hw5_calls.simps hw5_child_def hw5_parent_def call0_def call1_def call2_def destroy0_def destroy1_def destroy2_def destroy_call_def

text \<open>Locking: the map of a process's next operation, when the other is not inside.\<close>

lemma at_begin:
  assumes "n p = 2 * k"
  shows "locked_at n k \<longleftrightarrow> n (other p) = Suc (2 * k)"
    and "locked_at (n(p := Suc (n p))) i \<longleftrightarrow> i = k \<or> locked_at n i"
    and "content_at (n(p := Suc (n p))) i x y = content_at n i x y"
proof -
  have "2 * k \<noteq> Suc (2 * k')" "2 * i + 2 \<le> Suc (2 * k) \<longleftrightarrow> 2 * i + 2 \<le> 2 * k" for k' by presburger+
  then show "locked_at n k \<longleftrightarrow> n (other p) = Suc (2 * k)"
    and "locked_at (n(p := Suc (n p))) i \<longleftrightarrow> i = k \<or> locked_at n i"
    and "content_at (n(p := Suc (n p))) i x y = content_at n i x y"
    using assms by (cases p; simp add: locked_at_def content_at_def; blast)+
qed

lemma begins_locked:
  assumes "kept l la f m" "b = demo_bind (locked_map what m) (\<lambda>m. Demo_value (g m))" "l \<longleftrightarrow> x"
    and "\<And>m'. kept True la f m' \<Longrightarrow> P (g m')"
  shows "if x then b = Demo_waits else \<exists>h'. b = Demo_value h' \<and> P h'"
  using locked_map_run [OF assms(1), of what] assms(2-4) by (cases l) auto

lemma begins_at:
  assumes "maps_at n need h" "n p = 2 * k" "k < 3"
  shows "if n (other p) = Suc (2 * k) then begins (hw5_calls lo what mem p ! k) h = Demo_waits
    else \<exists>h'. begins (hw5_calls lo what mem p ! k) h = Demo_value h' \<and> maps_at (n(p := Suc (n p))) need h'"
proof -
  let ?n = "n(p := Suc (n p))"
  note l = at_begin [where n = n and p = p and k = k, OF assms(2)]
  consider "k = 0" | "k = 1" | "k = 2" using assms(3) by linarith
  then show ?thesis
  proof cases
  case 1
    have m: "kept (locked_at n k) (h_alloc h) (content_at n k hw5_key hw5_key) (shmap h)" using assms(1) by (simp add: maps_at_def 1)
    have b: "begins (hw5_calls lo what mem p ! k) h = demo_bind (locked_map what (shmap h)) (\<lambda>m. Demo_value (h\<lparr>shmap := m\<rparr>))"
      by (cases p) (simp_all add: 1 hw5_lists hw5_parent_def)
    have "maps_at ?n need (h\<lparr>shmap := m'\<rparr>)" if "kept True (h_alloc h) (content_at n k hw5_key hw5_key) m'" for m'
      using assms(1) that l(2) [of 0] l(2) [of 1] l(2) [of 2] by (simp add: maps_at_def l(3) 1)
    then show ?thesis by (rule begins_locked [OF m b l(1)])
  next
  case 2
    have m: "kept (locked_at n k) (h_alloc h) (content_at n k hw5_long_key hw5_text) (shmap1 h)" using assms(1) by (simp add: maps_at_def 2)
    have b: "begins (hw5_calls lo what mem p ! k) h = demo_bind (locked_map what (shmap1 h)) (\<lambda>m. Demo_value (h\<lparr>shmap1 := m\<rparr>))"
      by (cases p) (simp_all add: 2 hw5_lists hw5_parent_def)
    have "maps_at ?n need (h\<lparr>shmap1 := m'\<rparr>)" if "kept True (h_alloc h) (content_at n k hw5_long_key hw5_text) m'" for m'
      using assms(1) that l(2) [of 0] l(2) [of 1] l(2) [of 2] by (simp add: maps_at_def l(3) 2)
    then show ?thesis by (rule begins_locked [OF m b l(1)])
  next
  case 3
    have m: "kept (locked_at n k) (h_alloc h) (content_at n k hw5_long_key hw5_key) (shmap2 h)" using assms(1) by (simp add: maps_at_def 3)
    have b: "begins (hw5_calls lo what mem p ! k) h = demo_bind (locked_map what (shmap2 h)) (\<lambda>m. Demo_value (h\<lparr>shmap2 := m\<rparr>))"
      by (cases p) (simp_all add: 3 hw5_lists hw5_parent_def)
    have "maps_at ?n need (h\<lparr>shmap2 := m'\<rparr>)" if "kept True (h_alloc h) (content_at n k hw5_long_key hw5_key) m'" for m'
      using assms(1) that l(2) [of 0] l(2) [of 1] l(2) [of 2] by (simp add: maps_at_def l(3) 3)
    then show ?thesis by (rule begins_locked [OF m b l(1)])
  qed
qed

text \<open>Unlocking, by the child and by the parent.\<close>

lemma at_end:
  assumes "n p = Suc (2 * k)" "n (other p) \<noteq> Suc (2 * k)"
  shows "locked_at (n(p := Suc (n p))) i \<longleftrightarrow> i \<noteq> k \<and> locked_at n i"
    and "content_at (n(p := Suc (n p))) i x y = (if p = Child \<and> i = k then [x \<mapsto> y] else content_at n i x y)"
  using assms by (cases p; auto simp: locked_at_def content_at_def)+

lemma kept_after:
  assumes "maps_at n (c + need) h" "grown d (h_alloc h) la" "d \<le> c"
  shows "need \<le> room la \<and> kept (locked_at n 0) la (content_at n 0 hw5_key hw5_key) (shmap h)
    \<and> kept (locked_at n 1) la (content_at n 1 hw5_long_key hw5_text) (shmap1 h)
    \<and> kept (locked_at n 2) la (content_at n 2 hw5_long_key hw5_key) (shmap2 h)"
  using assms grown_room [OF assms(2)] by (auto simp: maps_at_def intro: kept_grown)

lemma child_ends_at:
  assumes "layout_ok lo" "maps_at n (child_cost lo k + need) h" "n Child = Suc (2 * k)" "n Parent \<noteq> Suc (2 * k)" "k < 3"
  shows "\<exists>h'. ends (hw5_child lo what ! k) h = (Inr [], h') \<and> maps_at (n(Child := Suc (n Child))) need h'"
proof -
  note z = layout_sizes [OF assms(1)]
  have at: "n (other Child) \<noteq> Suc (2 * k)" using assms(4) by simp
  note at = at_end [where n = n and p = Child and k = k, OF assms(3) at]
  have k: "locked_at n k" using assms(3) by (simp add: locked_at_def)
  have none: "content_at n k x y = (\<lambda>_. None)" for x :: 'k and y :: 'v using assms(3) by (simp add: content_at_def)
  consider "k = 0" | "k = 1" | "k = 2" using assms(5) by linarith
  then show ?thesis
  proof cases
    case 1
    have pre: "kept True (h_alloc h) (\<lambda>_. None) (shmap h)" "req_cost (sizes0 lo) (\<lambda>_. None) (Insert hw5_key hw5_key) = child_cost lo k"
      "child_cost lo k \<le> room (h_alloc h)"
      using assms(2) k by (simp_all add: maps_at_def content_at_def assms(3) 1 child_cost_def node_cost_def sizes0_def plain_sizes_def)
    obtain m' where "unlocked_map what (sizes0 lo) (Insert hw5_key hw5_key) (h_alloc h) (shmap h) = (Inr Unit, m')"
      "grown (child_cost lo k) (h_alloc h) (sm_alloc m')" "kept False (sm_alloc m') [hw5_key \<mapsto> hw5_key] m'"
      by (rule unlocked_map_run [OF pre(1), of "sizes0 lo" "Insert hw5_key hw5_key"]) (use pre z in \<open>auto simp: spec_result_def\<close>)
    with kept_after [OF assms(2)] show ?thesis by (simp add: 1 hw5_lists numbers_def maps_at_def at)
  next
    case 2
    have pre: "kept True (h_alloc h) (\<lambda>_. None) (shmap1 h)" "req_cost (sizes1 lo) (\<lambda>_. None) (Insert hw5_long_key hw5_text) = child_cost lo k"
      "child_cost lo k \<le> room (h_alloc h)"
      using assms(2) k by (simp_all add: maps_at_def content_at_def assms(3) 2 child_cost_def node_cost_def sizes1_def)
    obtain m' where "unlocked_map what (sizes1 lo) (Insert hw5_long_key hw5_text) (h_alloc h) (shmap1 h) = (Inr Unit, m')"
      "grown (child_cost lo k) (h_alloc h) (sm_alloc m')" "kept False (sm_alloc m') [hw5_long_key \<mapsto> hw5_text] m'"
      by (rule unlocked_map_run [OF pre(1), of "sizes1 lo" "Insert hw5_long_key hw5_text"]) (use pre z in \<open>auto simp: spec_result_def\<close>)
    with kept_after [OF assms(2)] show ?thesis by (simp add: 2 hw5_lists texts_def maps_at_def at)
  next
    case 3
    have pre: "kept True (h_alloc h) (\<lambda>_. None) (shmap2 h)" "req_cost (sizes2 lo) (\<lambda>_. None) (Insert hw5_long_key hw5_key) = child_cost lo k"
      "child_cost lo k \<le> room (h_alloc h)"
      using assms(2) k by (simp_all add: maps_at_def content_at_def assms(3) 3 child_cost_def node_cost_def sizes2_def)
    obtain m' where "unlocked_map what (sizes2 lo) (Insert hw5_long_key hw5_key) (h_alloc h) (shmap2 h) = (Inr Unit, m')"
      "grown (child_cost lo k) (h_alloc h) (sm_alloc m')" "kept False (sm_alloc m') [hw5_long_key \<mapsto> hw5_key] m'"
      by (rule unlocked_map_run [OF pre(1), of "sizes2 lo" "Insert hw5_long_key hw5_key"]) (use pre z in \<open>auto simp: spec_result_def\<close>)
    with kept_after [OF assms(2)] show ?thesis by (simp add: 3 hw5_lists numbers_def maps_at_def at)
  qed
qed

definition hw5_values :: "hw5_value list" where
  "hw5_values = [Num hw5_key, Text hw5_text, Num hw5_key]"

lemma parent_ends_at:
  assumes "layout_ok lo" "maps_at n (parent_cost lo k + need) h" "n Parent = Suc (2 * k)" "n Child \<noteq> Suc (2 * k)" "k < 3"
  shows "\<exists>h'. ends (hw5_parent lo what mem ! k) h =
      (if 2 * k + 2 \<le> n Child then Inr [hw5_values ! k] else Inl (what Map_out_of_range), h')
    \<and> maps_at (n(Parent := Suc (n Parent))) need h'"
proof -
  note z = layout_sizes [OF assms(1)]
  have at: "n (other Parent) \<noteq> Suc (2 * k)" using assms(4) by simp
  note at = at_end [where n = n and p = Parent and k = k, OF assms(3) at]
  have k: "locked_at n k" using assms(3) by (simp add: locked_at_def)
  consider "k = 0" | "k = 1" | "k = 2" using assms(5) by linarith
  then show ?thesis
  proof cases
    case 1
    let ?f = "content_at n 0 hw5_key hw5_key"
    have pre: "kept True (h_alloc h) ?f (shmap h)" "req_cost (sizes0 lo) ?f (At (Same hw5_key)) = 0"
      using assms(2) k by (simp_all add: maps_at_def 1 sizes0_def plain_sizes_def split: option.split)
    obtain m' where "unlocked_map what (sizes0 lo) (At (Same hw5_key)) (h_alloc h) (shmap h) =
        (if 2 \<le> n Child then Inr (Value hw5_key) else Inl (what Map_out_of_range), m')"
      "grown 0 (h_alloc h) (sm_alloc m')" "kept False (sm_alloc m') ?f m'"
      by (rule unlocked_map_run [OF pre(1), of "sizes0 lo" "At (Same hw5_key)" what])
        (use pre z in \<open>auto simp: spec_result_def content_at_def split: if_splits\<close>)
    with kept_after [OF assms(2)] show ?thesis by (auto simp: 1 hw5_lists hw5_parent_def numbers_def maps_at_def at hw5_values_def)
  next
    case 2
    let ?f = "content_at n 1 hw5_long_key hw5_text" and ?z = "sizes1 lo" and ?req = "At (Converted hw5_long_key)"
    have pre: "kept True (h_alloc h) ?f (shmap1 h)" "req_cost ?z ?f ?req \<le> parent_cost lo k" "parent_cost lo k \<le> room (h_alloc h)"
      using assms(2) k by (simp_all add: maps_at_def 2 parent_cost_def sizes1_def content_at_def)
    obtain m' where "unlocked_map what ?z ?req (h_alloc h) (shmap1 h) =
        (if 4 \<le> n Child then Inr (Value hw5_text) else Inl (what Map_out_of_range), m')"
      "grown (req_cost ?z ?f ?req) (h_alloc h) (sm_alloc m')" "kept False (sm_alloc m') ?f m'"
      by (rule unlocked_map_run [OF pre(1), of ?z ?req what])
        (use pre(2,3) z in \<open>auto simp: spec_result_def content_at_def split: if_splits\<close>)
    with kept_after [OF assms(2) _ pre(2)] show ?thesis by (auto simp: 2 hw5_lists hw5_parent_def texts_def maps_at_def at hw5_values_def)
  next
    case 3
    let ?f = "content_at n 2 hw5_long_key hw5_key" and ?z = "sizes2 lo" and ?req = "At (Converted hw5_long_key)"
    have pre: "kept True (h_alloc h) ?f (shmap2 h)" "req_cost ?z ?f ?req \<le> parent_cost lo k" "parent_cost lo k \<le> room (h_alloc h)"
      using assms(2) k by (simp_all add: maps_at_def 3 parent_cost_def sizes2_def content_at_def)
    obtain m' where "unlocked_map what ?z ?req (h_alloc h) (shmap2 h) =
        (if 6 \<le> n Child then Inr (Value hw5_key) else Inl (what Map_out_of_range), m')"
      "grown (req_cost ?z ?f ?req) (h_alloc h) (sm_alloc m')" "kept False (sm_alloc m') ?f m'"
      by (rule unlocked_map_run [OF pre(1), of ?z ?req what])
        (use pre(2,3) z in \<open>auto simp: spec_result_def content_at_def split: if_splits\<close>)
    with kept_after [OF assms(2) _ pre(2)] show ?thesis by (auto simp: 3 hw5_lists hw5_parent_def numbers_def maps_at_def at hw5_values_def)
  qed
qed

text \<open>How far the processes are, and what was recorded.\<close>

definition counted :: "(hw5_process \<Rightarrow> nat) \<Rightarrow> hw5_event list \<Rightarrow> bool" where
  "counted n ev \<longleftrightarrow> (\<forall>p k. (Begins p k \<in> set ev \<longleftrightarrow> 2 * k + 1 \<le> n p) \<and> (Ends p k \<in> set ev \<longleftrightarrow> 2 * k + 2 \<le> n p))"

lemma counted_step:
  assumes "counted n ev"
  shows "n p = 2 * k \<Longrightarrow> counted (n(p := Suc (n p))) (ev @ [Begins p k])"
    and "n p = Suc (2 * k) \<Longrightarrow> counted (n(p := Suc (n p))) (ev @ [Ends p k])"
  using assms unfolding counted_def by (auto, presburger+)

definition progress :: "hw5_layout \<Rightarrow> (map_error \<Rightarrow> string) \<Rightarrow> (nat \<Rightarrow> block \<times> block) \<Rightarrow> (hw5_process \<Rightarrow> nat) \<Rightarrow> hw5_state \<Rightarrow> bool" where
  "progress lo what mem n w \<longleftrightarrow> over w = None \<and> calls w = (\<lambda>p. drop (n p div 2) (hw5_calls lo what mem p))
     \<and> inside w = (\<lambda>p. odd (n p)) \<and> counted n (events w)"

lemma hw5_call_at:
  assumes "n p < 2 * length (hw5_calls lo what mem p)"
  shows "drop (n p div 2) (hw5_calls lo what mem p) = hw5_calls lo what mem p ! (n p div 2) # drop (Suc (n p div 2)) (hw5_calls lo what mem p)"
  using assms by (intro Cons_nth_drop_Suc [symmetric]) linarith

lemma hw5_length: "length (hw5_calls lo what mem p) = (case p of Child \<Rightarrow> 3 | Parent \<Rightarrow> 6)"
  by (cases p) (simp_all add: hw5_calls.simps hw5_child_def hw5_parent_def)

lemma hw5_numbers: "k < length (hw5_calls lo what mem p) \<Longrightarrow> call_number (hw5_calls lo what mem p ! k) = k"
  by (cases p) (auto simp: hw5_lists hw5_parent_def less_Suc_eq numeral_eq_Suc)

lemma hw5_allocates: "k < length (hw5_calls lo what mem p) \<Longrightarrow> allocates (hw5_calls lo what mem p ! k) \<longleftrightarrow> p = Child \<or> k \<noteq> 0"
  by (cases p) (auto simp: hw5_lists hw5_parent_def less_Suc_eq numeral_eq_Suc)

text \<open>A turn of a process that has an operation left.\<close>

definition next_call :: "hw5_layout \<Rightarrow> (map_error \<Rightarrow> string) \<Rightarrow> (nat \<Rightarrow> block \<times> block) \<Rightarrow> (hw5_process \<Rightarrow> nat) \<Rightarrow> hw5_process \<Rightarrow> hw5_call" where
  "next_call lo what mem n p = hw5_calls lo what mem p ! (n p div 2)"

lemma turn_is:
  assumes "progress lo what mem n w" "n p < 2 * length (hw5_calls lo what mem p)"
  shows "hw5_turn p w = (if odd (n p) then end_call p (next_call lo what mem n p) w else begin_call p (next_call lo what mem n p) w)"
  using assms hw5_call_at [where n = n and p = p, OF assms(2)] by (simp add: hw5_turn_def progress_def next_call_def)

lemma turn_through:
  assumes "progress lo what mem n w" "n p = 2 * length (hw5_calls lo what mem p)"
  shows "hw5_turn p w = w"
  using assms by (simp add: hw5_turn_def progress_def)

lemma turn_waits:
  assumes "progress lo what mem n w" "n p < 2 * length (hw5_calls lo what mem p)" "even (n p)"
    and "begins (next_call lo what mem n p) (maps w) = Demo_waits"
  shows "hw5_turn p w = w"
  using assms by (simp add: turn_is begin_call_def)

text \<open>When both are inside with operations that allocate.\<close>

definition clash :: "(hw5_process \<Rightarrow> nat) \<Rightarrow> bool" where
  "clash n \<longleftrightarrow> odd (n Child) \<and> odd (n Parent) \<and> n Parent \<noteq> 1"

lemma turn_begins:
  assumes "progress lo what mem n w" "n p < 2 * length (hw5_calls lo what mem p)" "even (n p)"
    and "begins (next_call lo what mem n p) (maps w) = Demo_value h"
    and "odd (n (other p)) \<Longrightarrow> n (other p) < 2 * length (hw5_calls lo what mem (other p))"
  shows "if clash (n(p := Suc (n p)))
    then over (hw5_turn p w) = Some Raced \<and> counted (n(p := Suc (n p))) (events (hw5_turn p w))
    else progress lo what mem (n(p := Suc (n p))) (hw5_turn p w) \<and> maps (hw5_turn p w) = h \<and> got (hw5_turn p w) = got w
      \<and> events (hw5_turn p w) = events w @ [Begins p (n p div 2)]"
proof -
  have k: "n p div 2 < length (hw5_calls lo what mem p)" using assms(2) by linarith
  have hd: "hd (calls w q) = next_call lo what mem n q" if "n q < 2 * length (hw5_calls lo what mem q)" for q
    using hw5_call_at [where n = n and p = q, OF that] assms(1) by (simp add: progress_def next_call_def)
  have "racing p w \<longleftrightarrow> clash (n(p := Suc (n p)))"
  proof (cases "odd (n (other p))")
    case True
    then have o: "n (other p) < 2 * length (hw5_calls lo what mem (other p))" by (rule assms(5))
    then have "n (other p) div 2 < length (hw5_calls lo what mem (other p))" by linarith
    from hw5_allocates [OF this] hw5_allocates [OF k] hd [OF assms(2)] hd [OF o] True assms(1,3) show ?thesis
      by (cases p) (auto simp: racing_def clash_def progress_def next_call_def elim!: oddE evenE)
  next
    case False
    with assms(1) show ?thesis by (cases p) (simp_all add: racing_def clash_def progress_def)
  qed
  moreover have "counted (n(p := Suc (n p))) (events w @ [Begins p (n p div 2)])"
    using assms(1,3) by (intro counted_step(1)) (simp_all add: progress_def)
  moreover have "call_number (next_call lo what mem n p) = n p div 2" using k by (simp add: next_call_def hw5_numbers)
  moreover have "hw5_turn p w = begin_call p (next_call lo what mem n p) w" using turn_is [OF assms(1,2)] assms(3) by simp
  ultimately show ?thesis
    using assms(1,3,4) by (auto simp: begin_call_def progress_def fun_eq_iff)
qed

lemma turn_ends:
  assumes "progress lo what mem n w" "n p < 2 * length (hw5_calls lo what mem p)" "odd (n p)"
    and "ends (next_call lo what mem n p) (maps w) = (r, h)"
  shows "events (hw5_turn p w) = events w @ [Ends p (n p div 2)]"
    and "counted (n(p := Suc (n p))) (events (hw5_turn p w))"
    and "r = Inr xs \<Longrightarrow> progress lo what mem (n(p := Suc (n p))) (hw5_turn p w) \<and> maps (hw5_turn p w) = h \<and> got (hw5_turn p w) = got w @ xs"
    and "r = Inl t \<Longrightarrow> p = Parent \<Longrightarrow> over (hw5_turn p w) = Some (Threw t)"
proof -
  have k: "n p div 2 < length (hw5_calls lo what mem p)" using assms(2) by linarith
  have num: "call_number (next_call lo what mem n p) = n p div 2" using k by (simp add: next_call_def hw5_numbers)
  have turn: "hw5_turn p w = end_call p (next_call lo what mem n p) w" using turn_is [OF assms(1,2)] assms(3) by simp
  have c: "counted (n(p := Suc (n p))) (events w @ [Ends p (n p div 2)])"
    using assms(1,3) by (intro counted_step(2)) (simp_all add: progress_def)
  show ev: "events (hw5_turn p w) = events w @ [Ends p (n p div 2)]"
    using assms(4) num turn by (cases r; cases p) (simp_all add: end_call_def leaves_by_def)
  with c show "counted (n(p := Suc (n p))) (events (hw5_turn p w))" by simp
  show "over (hw5_turn p w) = Some (Threw t)" if "r = Inl t" "p = Parent"
    using assms(4) that turn by (simp add: end_call_def leaves_by_def)
  show "progress lo what mem (n(p := Suc (n p))) (hw5_turn p w) \<and> maps (hw5_turn p w) = h \<and> got (hw5_turn p w) = got w @ xs" if "r = Inr xs"
    using assms(1,3,4) that c by (auto simp: turn end_call_def progress_def num fun_eq_iff drop_Suc tl_drop)
qed

text \<open>The record says that one event came before another.\<close>

fun before :: "'a \<Rightarrow> 'a \<Rightarrow> 'a list \<Rightarrow> bool" where
  "before a b [] = False"
| "before a b (x # xs) = (x = a \<and> b \<in> set xs \<or> before a b xs)"

lemma before_last: "before a b (xs @ [x]) \<longleftrightarrow> before a b xs \<or> a \<in> set xs \<and> x = b"
  by (induction xs) auto

lemma before_first: "before a b xs \<Longrightarrow> a \<in> set xs"
  by (induction xs) auto

definition in_order :: "hw5_event list \<Rightarrow> bool" where
  "in_order ev \<longleftrightarrow> (\<forall>k < 3. Begins Parent k \<in> set ev \<and> Ends Child k \<in> set ev \<longrightarrow> before (Ends Child k) (Begins Parent k) ev)"

definition rest_cost :: "hw5_layout \<Rightarrow> nat \<Rightarrow> nat \<Rightarrow> nat" where
  "rest_cost lo i j = (\<Sum>k \<in> {i..<3}. child_cost lo k) + (\<Sum>k \<in> {j..<3}. parent_cost lo k)"

lemma rest_cost_child: "i < 3 \<Longrightarrow> rest_cost lo i j = child_cost lo i + rest_cost lo (Suc i) j"
  by (simp add: rest_cost_def sum.atLeast_Suc_lessThan)

lemma rest_cost_parent: "j < 3 \<Longrightarrow> rest_cost lo i j = parent_cost lo j + rest_cost lo i (Suc j)"
  by (simp add: rest_cost_def sum.atLeast_Suc_lessThan)

text \<open>What holds while nothing has thrown or raced.\<close>

definition counts_ok :: "(hw5_process \<Rightarrow> nat) \<Rightarrow> bool" where
  "counts_ok n \<longleftrightarrow> n Child \<le> 6 \<and> n Parent \<le> 12 \<and> \<not> clash n \<and> \<not> (odd (n Child) \<and> n Parent = n Child)
     \<and> (\<forall>k < 3. 2 * k + 2 \<le> n Parent \<longrightarrow> 2 * k + 2 \<le> n Child)"

definition going :: "hw5_layout \<Rightarrow> (map_error \<Rightarrow> string) \<Rightarrow> (nat \<Rightarrow> block \<times> block) \<Rightarrow> (hw5_process \<Rightarrow> nat) \<Rightarrow> hw5_state \<Rightarrow> bool" where
  "going lo what mem n w \<longleftrightarrow> progress lo what mem n w \<and> counts_ok n \<and> in_order (events w) \<and> got w = take (n Parent div 2) hw5_values
     \<and> (n Parent < 6 \<longrightarrow> maps_at n (rest_cost lo (n Child div 2) (n Parent div 2)) (maps w))"

lemma three: "(\<forall>k < 3. P k) \<longleftrightarrow> P 0 \<and> P 1 \<and> P (2 :: nat)"
  by (auto simp: numeral_eq_Suc less_Suc_eq)

lemma counts_ok_simps:
  "counts_ok n \<longleftrightarrow> n Child \<le> 6 \<and> n Parent \<le> 12 \<and> \<not> clash n \<and> \<not> (odd (n Child) \<and> n Parent = n Child)
     \<and> (2 \<le> n Parent \<longrightarrow> 2 \<le> n Child) \<and> (4 \<le> n Parent \<longrightarrow> 4 \<le> n Child) \<and> (6 \<le> n Parent \<longrightarrow> n Child = 6)"
  by (auto simp: counts_ok_def three)

lemma in_order_step:
  assumes "in_order ev"
  shows "in_order (ev @ [Begins p k])" "in_order (ev @ [Ends Parent k])"
    and "Begins Parent k \<notin> set ev \<Longrightarrow> in_order (ev @ [Ends Child k])"
  using assms by (cases p; auto simp: in_order_def before_last)+

lemma counts_ok_child:
  assumes "counts_ok n" "k < 3"
  shows "n Child = 2 * k \<Longrightarrow> n Parent \<noteq> Suc (2 * k) \<Longrightarrow> clash (n(Child := Suc (n Child))) \<longleftrightarrow> n Child = 4 \<and> n Parent = 3"
    and "n Child = 2 * k \<Longrightarrow> n Parent \<noteq> Suc (2 * k) \<Longrightarrow> \<not> clash (n(Child := Suc (n Child))) \<Longrightarrow> counts_ok (n(Child := Suc (n Child)))"
    and "n Child = Suc (2 * k) \<Longrightarrow> counts_ok (n(Child := Suc (n Child)))"
    and "n Child = Suc (2 * k) \<Longrightarrow> n Parent < 2 * k + 1"
  using assms unfolding counts_ok_simps clash_def by (simp; presburger)+

lemma counts_ok_parent:
  assumes "counts_ok n" "k < 6"
  shows "n Parent = 2 * k \<Longrightarrow> n Child \<noteq> Suc (2 * k) \<Longrightarrow> clash (n(Parent := Suc (n Parent))) \<longleftrightarrow> n Parent = 2 \<and> n Child = 5"
    and "n Parent = 2 * k \<Longrightarrow> n Child \<noteq> Suc (2 * k) \<Longrightarrow> \<not> clash (n(Parent := Suc (n Parent))) \<Longrightarrow> counts_ok (n(Parent := Suc (n Parent)))"
    and "n Parent = Suc (2 * k) \<Longrightarrow> k < 3 \<longrightarrow> 2 * k + 2 \<le> n Child \<Longrightarrow> counts_ok (n(Parent := Suc (n Parent)))"
    and "n Parent = Suc (2 * k) \<Longrightarrow> n Child \<noteq> Suc (2 * k)"
  using assms unfolding counts_ok_simps clash_def by (simp; presburger)+

lemma child_begins_turn:
  assumes "going lo what mem n w" "n Child = 2 * k" "k < 3" "n Parent \<noteq> Suc (2 * k)"
  shows "if n Child = 4 \<and> n Parent = 3 then over (hw5_turn Child w) = Some Raced \<and> counted (n(Child := 5)) (events (hw5_turn Child w))
    else going lo what mem (n(Child := Suc (n Child))) (hw5_turn Child w)"
proof -
  have g: "progress lo what mem n w" "counts_ok n" "in_order (events w)" "got w = take (n Parent div 2) hw5_values"
    and m: "n Parent < 6 \<longrightarrow> maps_at n (rest_cost lo (n Child div 2) (n Parent div 2)) (maps w)"
    using assms(1) by (simp_all add: going_def)
  have less: "n Child < 2 * length (hw5_calls lo what mem Child)" "even (n Child)" using assms(2,3) by (simp_all add: hw5_length)
  have p6: "n Parent < 6" using g(2) assms(2,3) unfolding counts_ok_simps by linarith
  from begins_at [where n = n and p = Child and k = k, OF mp [OF m p6] assms(2,3), of lo what mem] assms(4)
  obtain h where h: "begins (next_call lo what mem n Child) (maps w) = Demo_value h"
    "maps_at (n(Child := Suc (n Child))) (rest_cost lo (n Child div 2) (n Parent div 2)) h"
    by (auto simp: next_call_def assms(2))
  have o: "n (other Child) < 2 * length (hw5_calls lo what mem (other Child))" using p6 by (simp add: hw5_length)
  note t = turn_begins [where p = Child, OF g(1) less h(1) o] and c = counts_ok_child(1) [OF g(2) assms(3,2,4)]
  show ?thesis
  proof (cases "n Child = 4 \<and> n Parent = 3")
    case True
    then have "clash (n(Child := Suc (n Child)))" "n(Child := Suc (n Child)) = n(Child := 5)" using c by simp_all
    with t True show ?thesis by simp
  next
    case False
    then have n: "\<not> clash (n(Child := Suc (n Child)))" using c by blast
    with t have t: "progress lo what mem (n(Child := Suc (n Child))) (hw5_turn Child w)" "maps (hw5_turn Child w) = h" "got (hw5_turn Child w) = got w"
      "events (hw5_turn Child w) = events w @ [Begins Child (n Child div 2)]" by simp_all
    have "Suc (n Child) div 2 = n Child div 2" using less(2) by simp
    then have "going lo what mem (n(Child := Suc (n Child))) (hw5_turn Child w)"
      using t(1) h(2) g(4) in_order_step(1) [OF g(3)] counts_ok_child(2) [OF g(2) assms(3,2,4) n] by (simp add: going_def t(2-4))
    with False show ?thesis by auto
  qed
qed

lemma child_ends_turn:
  assumes "layout_ok lo" "going lo what mem n w" "n Child = Suc (2 * k)" "k < 3"
  shows "going lo what mem (n(Child := Suc (n Child))) (hw5_turn Child w)"
proof -
  have g: "progress lo what mem n w" "counts_ok n" "in_order (events w)" "got w = take (n Parent div 2) hw5_values"
    and m: "n Parent < 6 \<longrightarrow> maps_at n (rest_cost lo (n Child div 2) (n Parent div 2)) (maps w)"
    using assms(2) by (simp_all add: going_def)
  have less: "n Child < 2 * length (hw5_calls lo what mem Child)" "odd (n Child)" using assms(3,4) by (simp_all add: hw5_length)
  have np: "n Parent < 6" "n Parent < 2 * k + 1" using counts_ok_child(4) [OF g(2) assms(4,3)] assms(4) by simp_all
  have "maps_at n (child_cost lo k + rest_cost lo (Suc k) (n Parent div 2)) (maps w)"
    using mp [OF m np(1)] assms(3,4) rest_cost_child [of k lo "n Parent div 2"] by simp
  from child_ends_at [OF assms(1) this assms(3) _ assms(4), of what] np(2) obtain h where
    h: "ends (next_call lo what mem n Child) (maps w) = (Inr [], h)" "maps_at (n(Child := Suc (n Child))) (rest_cost lo (Suc k) (n Parent div 2)) h"
    by (auto simp: next_call_def assms(3) hw5_calls.simps)
  note t = turn_ends [where p = Child, OF g(1) less h(1)]
  have t3: "progress lo what mem (n(Child := Suc (n Child))) (hw5_turn Child w)" "maps (hw5_turn Child w) = h" "got (hw5_turn Child w) = got w"
    using t(3) [OF refl] by simp_all
  have k: "n Child div 2 = k" "Suc (n Child) div 2 = Suc k" using assms(3) by simp_all
  have "Begins Parent k \<notin> set (events w)" using g(1) np(2) by (auto simp: progress_def counted_def)
  from in_order_step(3) [OF g(3) this] t3(1) h(2) g(4) counts_ok_child(3) [OF g(2) assms(4,3)] show ?thesis
    by (simp add: going_def t3(2,3) t(1) k)
qed

lemma destroys:
  assumes "3 \<le> k" "k < 6"
  shows "begins (hw5_parent lo what mem ! k) h = Demo_value h" "\<exists>h'. ends (hw5_parent lo what mem ! k) h = (Inr [], h')"
proof -
  have "k = 3 \<or> k = 4 \<or> k = 5" using assms by linarith
  then show "begins (hw5_parent lo what mem ! k) h = Demo_value h" "\<exists>h'. ends (hw5_parent lo what mem ! k) h = (Inr [], h')"
    by (auto simp: hw5_lists hw5_parent_def numeral_eq_Suc)
qed

lemma parent_begins_turn:
  assumes "going lo what mem n w" "n Parent = 2 * k" "k < 6" "n Child \<noteq> Suc (2 * k)"
  shows "if n Parent = 2 \<and> n Child = 5 then over (hw5_turn Parent w) = Some Raced \<and> counted (n(Parent := 3)) (events (hw5_turn Parent w))
    else going lo what mem (n(Parent := Suc (n Parent))) (hw5_turn Parent w)"
proof -
  have g: "progress lo what mem n w" "counts_ok n" "in_order (events w)" "got w = take (n Parent div 2) hw5_values"
    and m: "n Parent < 6 \<longrightarrow> maps_at n (rest_cost lo (n Child div 2) (n Parent div 2)) (maps w)"
    using assms(1) by (simp_all add: going_def)
  have less: "n Parent < 2 * length (hw5_calls lo what mem Parent)" "even (n Parent)" using assms(2,3) by (simp_all add: hw5_length)
  obtain h where h: "begins (next_call lo what mem n Parent) (maps w) = Demo_value h"
    "n Parent < 6 \<longrightarrow> maps_at (n(Parent := Suc (n Parent))) (rest_cost lo (n Child div 2) (n Parent div 2)) h"
  proof (cases "k < 3")
    case True
    then have "n Parent < 6" using assms(2) by simp
    from begins_at [where n = n and p = Parent and k = k, OF mp [OF m this] assms(2) True, of lo what mem] assms(4) that show ?thesis
      by (auto simp: next_call_def assms(2))
  next
    case False
    with that [of "maps w"] destroys(1) [of k] assms(2,3) show ?thesis by (simp add: next_call_def hw5_calls.simps)
  qed
  have "odd (n Child) \<Longrightarrow> n Child < 6" using g(2) by (cases "n Child = 6") (auto simp: counts_ok_def)
  then have o: "odd (n (other Parent)) \<Longrightarrow> n (other Parent) < 2 * length (hw5_calls lo what mem (other Parent))" by (simp add: hw5_length)
  note t = turn_begins [where p = Parent, OF g(1) less h(1) o] and c = counts_ok_parent(1) [OF g(2) assms(3,2,4)]
  show ?thesis
  proof (cases "n Parent = 2 \<and> n Child = 5")
    case True
    then have "clash (n(Parent := Suc (n Parent)))" "n(Parent := Suc (n Parent)) = n(Parent := 3)" using c by simp_all
    with t True show ?thesis by simp
  next
    case False
    then have n: "\<not> clash (n(Parent := Suc (n Parent)))" using c by blast
    with t have t: "progress lo what mem (n(Parent := Suc (n Parent))) (hw5_turn Parent w)" "maps (hw5_turn Parent w) = h" "got (hw5_turn Parent w) = got w"
      "events (hw5_turn Parent w) = events w @ [Begins Parent (n Parent div 2)]" by simp_all
    have "Suc (n Parent) div 2 = n Parent div 2" using less(2) by simp
    then have "going lo what mem (n(Parent := Suc (n Parent))) (hw5_turn Parent w)"
      using t(1) h(2) g(4) in_order_step(1) [OF g(3)] counts_ok_parent(2) [OF g(2) assms(3,2,4) n] by (simp add: going_def t(2-4))
    with False show ?thesis by auto
  qed
qed

lemma parent_ends_turn:
  assumes "layout_ok lo" "going lo what mem n w" "n Parent = Suc (2 * k)" "k < 6"
  shows "if k < 3 \<and> n Child < 2 * k + 2
    then over (hw5_turn Parent w) = Some (Threw (what Map_out_of_range)) \<and> counted (n(Parent := Suc (n Parent))) (events (hw5_turn Parent w))
    else going lo what mem (n(Parent := Suc (n Parent))) (hw5_turn Parent w)"
proof -
  have g: "progress lo what mem n w" "counts_ok n" "in_order (events w)" "got w = take (n Parent div 2) hw5_values"
    and m: "n Parent < 6 \<longrightarrow> maps_at n (rest_cost lo (n Child div 2) (n Parent div 2)) (maps w)"
    using assms(2) by (simp_all add: going_def)
  have less: "n Parent < 2 * length (hw5_calls lo what mem Parent)" "odd (n Parent)" using assms(3,4) by (simp_all add: hw5_length)
  have k: "n Parent div 2 = k" "Suc (n Parent) div 2 = Suc k" using assms(3) by simp_all
  let ?r = "if k < 3 then if 2 * k + 2 \<le> n Child then Inr [hw5_values ! k] else Inl (what Map_out_of_range) else Inr []"
  obtain h where h: "ends (next_call lo what mem n Parent) (maps w) = (?r, h)"
    "k < 3 \<longrightarrow> maps_at (n(Parent := Suc (n Parent))) (rest_cost lo (n Child div 2) (Suc k)) h"
  proof (cases "k < 3")
    case True
    then have "maps_at n (parent_cost lo k + rest_cost lo (n Child div 2) (Suc k)) (maps w)"
      using m assms(3) rest_cost_parent [of k lo "n Child div 2"] by simp
    from parent_ends_at [OF assms(1) this assms(3) counts_ok_parent(4) [OF g(2) assms(4,3)] True, of what mem] True that show ?thesis
      by (auto simp: next_call_def k(1) hw5_calls.simps)
  next
    case False
    with that destroys(2) [of k lo what mem "maps w"] assms(4) show ?thesis by (auto simp: next_call_def k(1) hw5_calls.simps)
  qed
  note t = turn_ends [where p = Parent, OF g(1) less h(1)]
  show ?thesis
  proof (cases "k < 3 \<and> n Child < 2 * k + 2")
    case True
    with t(2,4) show ?thesis by simp
  next
    case False
    then have read: "k < 3 \<longrightarrow> 2 * k + 2 \<le> n Child" by auto
    define xs where "xs = (if k < 3 then [hw5_values ! k] else [])"
    have "?r = Inr xs" using read by (simp add: xs_def)
    from t(3) [OF this] have t3: "progress lo what mem (n(Parent := Suc (n Parent))) (hw5_turn Parent w)" "maps (hw5_turn Parent w) = h"
      "got (hw5_turn Parent w) = got w @ xs" by simp_all
    have "take k hw5_values @ xs = take (Suc k) hw5_values"
      using take_Suc_conv_app_nth [of k hw5_values] by (simp add: xs_def hw5_values_def)
    then have "going lo what mem (n(Parent := Suc (n Parent))) (hw5_turn Parent w)"
      using t3(1) h(2) g(4) in_order_step(2) [OF g(3)] counts_ok_parent(3) [OF g(2) assms(4,3) read] by (simp add: going_def t3(2,3) t(1) k assms(3))
    with False show ?thesis by auto
  qed
qed

text \<open>A turn, and a run.\<close>

lemma going_calls: "going lo what mem n w \<Longrightarrow> calls w p = [] \<longleftrightarrow> n p = (case p of Child \<Rightarrow> 6 | Parent \<Rightarrow> 12)"
  by (cases p) (auto simp: going_def progress_def counts_ok_def hw5_length split: hw5_process.splits)

definition overlapping :: "hw5_event list \<Rightarrow> bool" where
  "overlapping ev \<longleftrightarrow> Begins Child 2 \<in> set ev \<and> Ends Child 2 \<notin> set ev \<and> Begins Parent 1 \<in> set ev \<and> Ends Parent 1 \<notin> set ev"

definition read_too_early :: "hw5_event list \<Rightarrow> bool" where
  "read_too_early ev \<longleftrightarrow> (\<exists>k < 3. Begins Parent k \<in> set ev \<and> \<not> before (Ends Child k) (Begins Parent k) ev)"

definition settled :: "hw5_layout \<Rightarrow> (map_error \<Rightarrow> string) \<Rightarrow> (nat \<Rightarrow> block \<times> block) \<Rightarrow> hw5_state \<Rightarrow> bool" where
  "settled lo what mem w \<longleftrightarrow>
     (case over w of
        Some Raced \<Rightarrow> overlapping (events w)
      | Some (Threw t) \<Rightarrow> t = what Map_out_of_range \<and> read_too_early (events w)
      | None \<Rightarrow> \<exists>n. going lo what mem n w)"

lemma going_settled: "going lo what mem n w \<Longrightarrow> settled lo what mem w"
  by (simp add: settled_def) (auto simp: going_def progress_def)

lemma turn_through_waits:
  assumes "going lo what mem n w" "n p = (case p of Child \<Rightarrow> 6 | Parent \<Rightarrow> 12)"
  shows "hw5_turn p w = w"
  using assms by (intro turn_through [of lo what mem n]) (simp_all add: going_def hw5_length split: hw5_process.splits)

lemma turn_blocked:
  assumes "going lo what mem n w" "n p = 2 * k" "k < 3" "n (other p) = Suc (2 * k)"
  shows "hw5_turn p w = w"
proof -
  have "n Parent < 6" "n p < 2 * length (hw5_calls lo what mem p)"
    using assms by (cases p; auto simp: hw5_length going_def counts_ok_simps)+
  then have "maps_at n (rest_cost lo (n Child div 2) (n Parent div 2)) (maps w)" "n p < 2 * length (hw5_calls lo what mem p)"
    using assms(1) by (simp_all add: going_def)
  with begins_at [where n = n and p = p and k = k, OF this(1) assms(2,3), of lo what mem] assms show ?thesis
    by (intro turn_waits [of lo what mem n]) (simp_all add: going_def next_call_def)
qed

lemma child_turn:
  assumes "layout_ok lo" "going lo what mem n w"
  shows "hw5_turn Child w = w \<or> going lo what mem (n(Child := Suc (n Child))) (hw5_turn Child w)
    \<or> over (hw5_turn Child w) = Some Raced \<and> overlapping (events (hw5_turn Child w))"
    and "n Parent = 0 \<Longrightarrow> n Child < 6 \<Longrightarrow> going lo what mem (n(Child := Suc (n Child))) (hw5_turn Child w)"
proof -
  have "n Child \<le> 6" using assms(2) by (simp add: going_def counts_ok_def)
  then have "n Child = 6 \<or> (\<exists>k < 3. n Child = 2 * k) \<or> (\<exists>k < 3. n Child = Suc (2 * k))" by presburger
  then consider "n Child = 6" | k where "k < 3" "n Child = 2 * k" | k where "k < 3" "n Child = Suc (2 * k)" by blast
  then have "hw5_turn Child w = w \<and> (n Child = 6 \<or> n Parent \<noteq> 0) \<or> going lo what mem (n(Child := Suc (n Child))) (hw5_turn Child w)
    \<or> n Parent \<noteq> 0 \<and> over (hw5_turn Child w) = Some Raced \<and> overlapping (events (hw5_turn Child w))"
  proof cases
    case 1
    with turn_through_waits [OF assms(2), of Child] show ?thesis by simp
  next
    case (2 k)
    show ?thesis
    proof (cases "n Parent = Suc (2 * k)")
      case True
      with turn_blocked [OF assms(2), where p = Child and k = k] 2 show ?thesis by simp
    next
      case False
      with child_begins_turn [OF assms(2) 2(2,1)] show ?thesis
        by (auto simp: overlapping_def counted_def split: if_splits)
    qed
  next
    case (3 k)
    with child_ends_turn [OF assms 3(2,1)] show ?thesis by simp
  qed
  then show "hw5_turn Child w = w \<or> going lo what mem (n(Child := Suc (n Child))) (hw5_turn Child w)
    \<or> over (hw5_turn Child w) = Some Raced \<and> overlapping (events (hw5_turn Child w))"
    "n Parent = 0 \<Longrightarrow> n Child < 6 \<Longrightarrow> going lo what mem (n(Child := Suc (n Child))) (hw5_turn Child w)"
    by auto
qed

lemma parent_turn:
  assumes "layout_ok lo" "going lo what mem n w"
  shows "hw5_turn Parent w = w \<or> going lo what mem (n(Parent := Suc (n Parent))) (hw5_turn Parent w)
    \<or> over (hw5_turn Parent w) = Some Raced \<and> overlapping (events (hw5_turn Parent w))
    \<or> over (hw5_turn Parent w) = Some (Threw (what Map_out_of_range)) \<and> read_too_early (events (hw5_turn Parent w))"
    and "n Child = 6 \<Longrightarrow> n Parent < 12 \<Longrightarrow> going lo what mem (n(Parent := Suc (n Parent))) (hw5_turn Parent w)"
proof -
  have "n Parent \<le> 12" using assms(2) by (simp add: going_def counts_ok_def)
  then have "n Parent = 12 \<or> (\<exists>k < 6. n Parent = 2 * k) \<or> (\<exists>k < 6. n Parent = Suc (2 * k))" by presburger
  then consider "n Parent = 12" | k where "k < 6" "n Parent = 2 * k" | k where "k < 6" "n Parent = Suc (2 * k)" by blast
  then have "hw5_turn Parent w = w \<and> (n Parent = 12 \<or> n Child \<noteq> 6) \<or> going lo what mem (n(Parent := Suc (n Parent))) (hw5_turn Parent w)
    \<or> n Child \<noteq> 6 \<and> over (hw5_turn Parent w) = Some Raced \<and> overlapping (events (hw5_turn Parent w))
    \<or> n Child \<noteq> 6 \<and> over (hw5_turn Parent w) = Some (Threw (what Map_out_of_range)) \<and> read_too_early (events (hw5_turn Parent w))"
  proof cases
    case 1
    with turn_through_waits [OF assms(2), of Parent] show ?thesis by simp
  next
    case (2 k)
    show ?thesis
    proof (cases "n Child = Suc (2 * k)")
      case True
      then have "k < 3" using assms(2) by (auto simp: going_def counts_ok_def)
      with turn_blocked [OF assms(2), where p = Parent and k = k] 2 True show ?thesis by simp
    next
      case False
      with parent_begins_turn [OF assms(2) 2(2,1)] show ?thesis
        by (auto simp: overlapping_def counted_def split: if_splits)
    qed
  next
    case (3 k)
    show ?thesis
    proof (cases "k < 3 \<and> n Child < 2 * k + 2")
      case True
      with parent_ends_turn [OF assms 3(2,1)] have t: "over (hw5_turn Parent w) = Some (Threw (what Map_out_of_range))"
        "counted (n(Parent := Suc (n Parent))) (events (hw5_turn Parent w))" by simp_all
      have "Begins Parent k \<in> set (events (hw5_turn Parent w))" "Ends Child k \<notin> set (events (hw5_turn Parent w))"
        using t(2) 3(2) True by (simp_all add: counted_def)
      with True have "read_too_early (events (hw5_turn Parent w))" by (auto simp: read_too_early_def dest: before_first)
      moreover have "n Child \<noteq> 6" using True by auto
      ultimately show ?thesis using t(1) by blast
    next
      case False
      with parent_ends_turn [OF assms 3(2,1)] show ?thesis by auto
    qed
  qed
  then show "hw5_turn Parent w = w \<or> going lo what mem (n(Parent := Suc (n Parent))) (hw5_turn Parent w)
    \<or> over (hw5_turn Parent w) = Some Raced \<and> overlapping (events (hw5_turn Parent w))
    \<or> over (hw5_turn Parent w) = Some (Threw (what Map_out_of_range)) \<and> read_too_early (events (hw5_turn Parent w))"
    "n Child = 6 \<Longrightarrow> n Parent < 12 \<Longrightarrow> going lo what mem (n(Parent := Suc (n Parent))) (hw5_turn Parent w)"
    by auto
qed

lemma turn_settled:
  assumes "layout_ok lo" "settled lo what mem w"
  shows "settled lo what mem (hw5_turn p w)"
proof (cases "over w")
  case None
  then obtain n where n: "going lo what mem n w" using assms(2) by (auto simp: settled_def)
  have go: "over w' = None" if "going lo what mem n' w'" for n' w' using that by (simp add: going_def progress_def)
  show ?thesis
  proof (cases p)
    case Child
    with child_turn(1) [OF assms(1) n] assms(2) go None show ?thesis unfolding settled_def by (elim disjE conjE) (auto split: option.splits)
  next
    case Parent
    with parent_turn(1) [OF assms(1) n] assms(2) go None show ?thesis unfolding settled_def by (elim disjE conjE) (auto split: option.splits)
  qed
next
  case (Some x)
  then have "hw5_turn p w = w" by (simp add: hw5_turn_def)
  with assms(2) show ?thesis by simp
qed

lemma run_settled: "layout_ok lo \<Longrightarrow> settled lo what mem w \<Longrightarrow> settled lo what mem (hw5_run s w)"
  unfolding hw5_run_def by (induction s arbitrary: w) (simp_all add: turn_settled)

text \<open>A child that is through before the parent begins.\<close>

lemma child_first:
  assumes "layout_ok lo" "going lo what mem n w" "n Parent = 0" "n Child + i \<le> 6"
  shows "going lo what mem (n(Child := n Child + i)) (hw5_run (replicate i Child) w)"
  using assms(2-4)
proof (induction i arbitrary: n w)
  case 0
  then show ?case by (simp add: hw5_run_def)
next
  case (Suc i)
  with child_turn(2) [OF assms(1) Suc.prems(1)] have "going lo what mem (n(Child := Suc (n Child))) (hw5_turn Child w)" by simp
  from Suc.IH [OF this] Suc.prems(2,3) have "going lo what mem (n(Child := n Child + Suc i)) (hw5_run (replicate i Child) (hw5_turn Child w))"
    by (simp del: fun_upd_apply add: fun_upd_other fun_upd_same)
  then show ?case by (simp add: hw5_run_def del: fun_upd_apply)
qed

lemma then_parent:
  assumes "layout_ok lo" "going lo what mem n w" "n Child = 6" "12 \<le> n Parent + count_list s Parent"
  shows "going lo what mem (n(Parent := 12)) (hw5_run s w)"
  using assms(2-4)
proof (induction s arbitrary: n w)
  case Nil
  then have "n Parent = 12" by (simp add: going_def counts_ok_def)
  with Nil show ?case by (simp add: hw5_run_def fun_upd_idem)
next
  case (Cons p s)
  have stays: "hw5_turn q w = w \<Longrightarrow> 12 \<le> n Parent + count_list s Parent \<Longrightarrow> going lo what mem (n(Parent := 12)) (hw5_run s (hw5_turn q w))" for q
    using Cons.IH [OF Cons.prems(1,2)] by (simp only:)
  consider "p = Child" | "p = Parent" "n Parent = 12" | "p = Parent" "n Parent < 12"
    using Cons.prems(1) by (cases p) (auto simp: going_def counts_ok_def le_less)
  then show ?case
  proof cases
    case 1
    with stays [of Child] turn_through_waits [OF Cons.prems(1), of Child] Cons.prems(2,3) show ?thesis by (simp add: hw5_run_def del: fun_upd_apply)
  next
    case 2
    with stays [of Parent] turn_through_waits [OF Cons.prems(1), of Parent] show ?thesis by (simp add: hw5_run_def del: fun_upd_apply)
  next
    case 3
    have "going lo what mem ((n(Parent := Suc (n Parent)))(Parent := 12)) (hw5_run s (hw5_turn Parent w))"
      by (rule Cons.IH [OF parent_turn(2) [OF assms(1) Cons.prems(1,2)]]) (use 3 Cons.prems(2,3) in simp_all)
    then show ?thesis by (simp add: hw5_run_def 3 del: fun_upd_apply)
  qed
qed

text \<open>What the parent has when nothing has thrown or raced.\<close>

lemma going_result:
  assumes "going lo what mem n w"
  shows "hw5_result w = Some (if n Parent = 12 then Demo_value hw5_values else Demo_waits)"
    and "n Parent = 12 \<Longrightarrow> calls w Child = [] \<and> (\<forall>k < 3. before (Ends Child k) (Begins Parent k) (events w))"
proof -
  have c: "calls w Parent = [] \<longleftrightarrow> n Parent = 12" "over w = None" "got w = take (n Parent div 2) hw5_values"
    using going_calls [OF assms, of Parent] assms by (simp_all add: going_def progress_def)
  then show "hw5_result w = Some (if n Parent = 12 then Demo_value hw5_values else Demo_waits)"
    by (simp add: hw5_result_def hw5_values_def)
  assume "n Parent = 12"
  with assms have n: "n Child = 6" "counted n (events w)" "in_order (events w)" by (simp_all add: going_def counts_ok_simps progress_def)
  then have "\<forall>k < 3. Ends Child k \<in> set (events w) \<and> Begins Parent k \<in> set (events w)" using \<open>n Parent = 12\<close> by (simp add: counted_def)
  with n(1,3) going_calls [OF assms, of Child] show "calls w Child = [] \<and> (\<forall>k < 3. before (Ends Child k) (Begins Parent k) (events w))"
    by (simp add: in_order_def)
qed

lemma settled_result:
  assumes "settled lo what mem w"
  shows "case hw5_result w of
      Some (Demo_value vs) \<Rightarrow> vs = hw5_values \<and> calls w Child = [] \<and> (\<forall>k < 3. before (Ends Child k) (Begins Parent k) (events w))
    | Some (Demo_threw t) \<Rightarrow> t = what Map_out_of_range
        \<and> (\<exists>k < 3. Begins Parent k \<in> set (events w) \<and> \<not> before (Ends Child k) (Begins Parent k) (events w))
    | Some Demo_waits \<Rightarrow> calls w Parent \<noteq> []
    | None \<Rightarrow> Begins Child 2 \<in> set (events w) \<and> Ends Child 2 \<notin> set (events w)
        \<and> Begins Parent 1 \<in> set (events w) \<and> Ends Parent 1 \<notin> set (events w)"
proof (cases "over w")
  case None
  with assms obtain n where n: "going lo what mem n w" by (auto simp: settled_def)
  with going_result [OF n] going_calls [OF n, of Parent] show ?thesis by simp
next
  case (Some x)
  with assms show ?thesis by (cases x) (simp_all add: hw5_result_def settled_def overlapping_def read_too_early_def)
qed

text \<open>The one overlap: the parent reads the second map and the child begins to insert into the third.\<close>

lemma hw5_races:
  assumes "layout_ok lo" "going lo what mem (\<lambda>_. 0) w"
  shows "hw5_result (hw5_run (replicate 4 Child @ [Parent, Parent, Parent, Child]) w) = None"
proof -
  define n where "n i p = (case p of Child \<Rightarrow> 4 | Parent \<Rightarrow> i)" for i :: nat and p
  have n: "n i Child = 4" "n i Parent = i" "(n i)(Parent := Suc i) = n (Suc i)" for i
    by (auto simp: n_def fun_eq_iff split: hw5_process.split)
  have "(\<lambda>_. 0)(Child := 0 + 4) = n 0" by (auto simp: n_def fun_eq_iff split: hw5_process.split)
  with child_first [OF assms, of 4] have 0: "going lo what mem (n 0) (hw5_run (replicate 4 Child) w)" (is "going _ _ _ _ ?w") by simp
  have 1: "going lo what mem (n 1) (hw5_turn Parent ?w)" using parent_begins_turn [OF 0, of 0] by (simp add: n)
  have 2: "going lo what mem (n 2) (hw5_turn Parent (hw5_turn Parent ?w))"
    using parent_ends_turn [OF assms(1) 1, of 0] by (simp add: n numeral_2_eq_2)
  have 3: "going lo what mem (n 3) (hw5_turn Parent (hw5_turn Parent (hw5_turn Parent ?w)))"
    using parent_begins_turn [OF 2, of 1] n(3) [of 2] by (simp add: n(1,2))
  from child_begins_turn [OF 3, of 2] show ?thesis by (simp add: n hw5_run_def hw5_result_def)
qed

text \<open>The maps as they are made.\<close>

lemma Map_made:
  assumes "la_inv la" "fits ms 1" "ms \<noteq> 0" "fits os 1" "os \<noteq> 0" "fst (Map ms os init la) = Inr m"
  shows "map_inv m \<and> sm_nodes m = [] \<and> grown (unat ms + unat os) la (sm_alloc m)"
proof -
  obtain p la1 where a: "allocate ms 1 la = Inr (p, la1)" using assms(6) by (cases "allocate ms 1 la") (auto simp: Map_def)
  obtain q la2 where b: "allocate os 1 la1 = Inr (q, la2)" using assms(6) a by (cases "allocate os 1 la1") (auto simp: Map_def)
  have one: "grown (unat s) l l'" if "la_inv l" "fits s 1" "allocate s 1 l = Inr (r, l')" for s l l' r
    using allocate_eq [OF that(1,2)] that(1,3) by (auto simp: grown_def la_inv_def room_def split: if_splits)
  have g: "grown (unat ms) la la1" "grown (unat os) la1 la2" using one [OF assms(1,2) a] one [OF _ assms(4) b] by (simp_all add: grown_def)
  have "m = \<lparr>sm_mutex = \<lparr>sem_value = 1, sem_empty = False\<rparr>, sm_alloc = la2, sm_nodes = []\<rparr>"
    using assms(6) by (auto simp: Map_def a b Mutex_def sem_init_def SEM_VALUE_MAX_def split: if_splits)
  with grown_trans [OF g] show ?thesis by (simp add: map_inv_def)
qed

lemma hw5_setup_parts:
  assumes "hw5_setup lo what mmaps inits = Demo_value h" "mmaps 0 = Some p"
  obtains la m0 m1 m2 where "LinearAllocator p KILOBYTE = Inr la"
    "fst (Map (lo_mutex lo) (lo_map lo 0) (inits 0) la) = Inr m0" "fst (Map (lo_mutex lo) (lo_map lo 1) (inits 1) (sm_alloc m0)) = Inr m1"
    "fst (Map (lo_mutex lo) (lo_map lo 2) (inits 2) (sm_alloc m1)) = Inr m2"
    "h = \<lparr>h_alloc = sm_alloc m2, shmap = m0, shmap1 = m1, shmap2 = m2\<rparr>"
proof -
  have region: "hw5_region what (Some p) = Demo_value la \<Longrightarrow> LinearAllocator p KILOBYTE = Inr la" for la
    by (simp add: hw5_region_def create_shmem_def demo_of_def split: sum.splits)
  show ?thesis
    using assms by (auto simp: hw5_setup_def demo_bind_value dest!: region intro: that)
qed

lemma hw5_setup_inv:
  assumes "layout_ok lo" "hw5_setup lo what mmaps inits = Demo_value h" "mmaps 0 = Some p" "unat p + 1024 \<le> 2 ^ 63"
  shows "maps_at (\<lambda>_. 0) need h \<longleftrightarrow> need \<le> room (h_alloc h)"
    and "room (h_alloc h) + 3 * unat (lo_mutex lo) + (\<Sum>i < 3. unat (lo_map lo i)) = 1000"
proof -
  from hw5_setup_parts [OF assms(2,3)] obtain la m0 m1 m2 where la: "LinearAllocator p KILOBYTE = Inr la"
    and m: "fst (Map (lo_mutex lo) (lo_map lo 0) (inits 0) la) = Inr m0" "fst (Map (lo_mutex lo) (lo_map lo 1) (inits 1) (sm_alloc m0)) = Inr m1"
      "fst (Map (lo_mutex lo) (lo_map lo 2) (inits 2) (sm_alloc m1)) = Inr m2"
    and h: "h = \<lparr>h_alloc = sm_alloc m2, shmap = m0, shmap1 = m1, shmap2 = m2\<rparr>" by blast
  have sum3: "(\<Sum>i < 3. f i) = f 0 + f 1 + f 2" for f :: "nat \<Rightarrow> nat" by (simp add: eval_nat_numeral)
  have K: "unat KILOBYTE = 1024" by (simp add: KILOBYTE_def BYTE_def)
  have inv: "la_inv la" "unat (end_addr la) = unat (free_addr la) + 1000"
    using LinearAllocator_inv [OF _ la] assms(4) by (simp_all add: K)
  have lo: "fits (lo_mutex lo) 1" "lo_mutex lo \<noteq> 0" "\<And>i. fits (lo_map lo i) 1" "\<And>i. lo_map lo i \<noteq> 0"
    using assms(1) by (simp_all add: layout_ok_def)
  note made = Map_made [OF _ lo(1,2,3,4)]
  have g0: "map_inv m0 \<and> sm_nodes m0 = [] \<and> grown (unat (lo_mutex lo) + unat (lo_map lo 0)) la (sm_alloc m0)" by (rule made [OF inv(1) m(1)])
  then have g1: "map_inv m1 \<and> sm_nodes m1 = [] \<and> grown (unat (lo_mutex lo) + unat (lo_map lo 1)) (sm_alloc m0) (sm_alloc m1)"
    by (intro made [OF _ m(2)]) (simp add: grown_def)
  then have g2: "map_inv m2 \<and> sm_nodes m2 = [] \<and> grown (unat (lo_mutex lo) + unat (lo_map lo 2)) (sm_alloc m1) (sm_alloc m2)"
    by (intro made [OF _ m(3)]) (simp add: grown_def)
  have la2: "la_inv (sm_alloc m2)" using g2 by (simp add: grown_def)
  then show "maps_at (\<lambda>_. 0) need h \<longleftrightarrow> need \<le> room (h_alloc h)"
    using g0 g1 g2 by (simp add: maps_at_def locked_at_def content_at_def h kept_def mem_inv_def map_inv_def)
  show "room (h_alloc h) + 3 * unat (lo_mutex lo) + (\<Sum>i < 3. unat (lo_map lo i)) = 1000"
  proof -
    have "unat (free_addr (sm_alloc m2)) = unat (free_addr la) + 3 * unat (lo_mutex lo) + (\<Sum>i < 3. unat (lo_map lo i))"
      using g0 g1 g2 by (simp add: sum3 grown_def)
    moreover have "end_addr (sm_alloc m2) = end_addr la" using g0 g1 g2 by (simp add: grown_def)
    moreover have "unat (free_addr (sm_alloc m2)) \<le> unat (end_addr (sm_alloc m2))" using la2 by (simp add: la_inv_def)
    ultimately show ?thesis using inv(2) by (simp add: h room_def)
  qed
qed

text \<open>
  What it may come to when both are in such operations: an allocation of one process that has read the state
  before another of the other process is through, and writes it afterwards, has the same block.
\<close>

definition allocate_late :: "64 word \<Rightarrow> 64 word \<Rightarrow> linear_allocator \<Rightarrow> linear_allocator \<Rightarrow> alloc_error + 64 word \<times> linear_allocator" where
  "allocate_late sizeof_T n seen la =
     (case allocate sizeof_T n seen of Inl e \<Rightarrow> Inl e | Inr (p, la') \<Rightarrow> Inr (p, la\<lparr>free_addr := free_addr la'\<rparr>))"

lemma racing_allocations_share:
  assumes "allocate s n la = Inr (p, la1)" "allocate_late s' n' la la1 = Inr (q, la2)" "n \<noteq> 0" "n' \<noteq> 0"
  shows "p = q \<and> free_addr la2 = free_addr la + n' * s'"
  using assms by (auto simp: allocate_late_def allocate_def Let_def split: if_splits)

section \<open>Property\<close>

text \<open>
  C26: The test of the shared map, in the lower half of the address space and when what all three maps take
  fits into the first region of 1 KB. An operation begins with its lock and ends with its unlock; for every
  schedule of the beginnings and ends of both processes: if the parent ends with values, they are the three
  that were inserted, each read began after the child's insertion into that map had ended, and the child is
  through; if it throws, that is \<open>out_of_range\<close>, and a read began before that; and what comes of it is not
  defined only when its read of the second map and the child's insertion into the third are
  under way at the same time, as they share an allocator and no mutex. When the child is through before the
  parent begins, as the sleep is to see to, the parent ends with the values.
\<close>

theorem hw5_outcome:
  assumes "layout_ok lo" "hw5_setup lo what mmaps inits = Demo_value h" "mmaps 0 = Some p" "unat p + 1024 \<le> 2 ^ 63" "0 \<le> pid"
    and "3 * unat (lo_mutex lo) + (\<Sum>i < 3. unat (lo_map lo i)) + hw5_bytes lo \<le> 1000"
  shows "let w = hw5_run s (hw5_forked lo what mem h)
    in (case hw5_test lo what mmaps inits mem pid s of
          Some (Demo_value vs) \<Rightarrow> vs = [Num 100500, Text hw5_text, Num 100500] \<and> calls w Child = []
            \<and> (\<forall>k < 3. before (Ends Child k) (Begins Parent k) (events w))
        | Some (Demo_threw t) \<Rightarrow> t = what Map_out_of_range
            \<and> (\<exists>k < 3. Begins Parent k \<in> set (events w) \<and> \<not> before (Ends Child k) (Begins Parent k) (events w))
        | Some Demo_waits \<Rightarrow> calls w Parent \<noteq> []
        | None \<Rightarrow> Begins Child 2 \<in> set (events w) \<and> Ends Child 2 \<notin> set (events w)
            \<and> Begins Parent 1 \<in> set (events w) \<and> Ends Parent 1 \<notin> set (events w))
      \<and> (12 \<le> count_list s Parent \<longrightarrow>
          hw5_test lo what mmaps inits mem pid (replicate 6 Child @ s) = Some (Demo_value [Num 100500, Text hw5_text, Num 100500]))"
proof -
  let ?w = "hw5_forked lo what mem h" and ?n = "\<lambda>_. 0 :: nat"
  have "hw5_bytes lo = rest_cost lo 0 0" by (simp add: hw5_bytes_def rest_cost_def lessThan_atLeast0)
  moreover have "hw5_bytes lo \<le> room (h_alloc h)" using hw5_setup_inv(2) [OF assms(1-4)] assms(6) by simp
  ultimately have "maps_at ?n (rest_cost lo 0 0) h" using hw5_setup_inv(1) [OF assms(1-4)] by simp
  then have start: "going lo what mem ?n ?w"
    by (simp add: going_def progress_def hw5_forked_def counted_def counts_ok_def clash_def in_order_def)
  from run_settled [OF assms(1) going_settled [OF this]] have w: "settled lo what mem (hw5_run s ?w)" .
  have test: "hw5_test lo what mmaps inits mem pid s' = hw5_result (hw5_run s' ?w)" for s'
    using assms(2,5) by (simp add: hw5_test_def demo_require_def)
  have vals: "hw5_values = [Num 100500, Text hw5_text, Num 100500]" by (simp add: hw5_values_def hw5_key_def)
  have "hw5_test lo what mmaps inits mem pid (replicate 6 Child @ s) = Some (Demo_value [Num 100500, Text hw5_text, Num 100500])"
    if "12 \<le> count_list s Parent"
  proof -
    have "going lo what mem (?n(Child := 6)) (hw5_run (replicate 6 Child) ?w)" using child_first [OF assms(1) start, of 6] by simp
    from then_parent [OF assms(1) this fun_upd_same, of s] that
    have "going lo what mem (?n(Child := 6, Parent := 12)) (hw5_run (replicate 6 Child @ s) ?w)" by (simp add: hw5_run_def del: fun_upd_apply)
    from going_result(1) [OF this] show ?thesis unfolding test vals by simp
  qed
  with settled_result [OF w] show ?thesis unfolding test vals Let_def by blast
qed

definition example_chars :: "string \<Rightarrow> 64 word" where
  "example_chars s = (if length s \<le> 15 then 0 else word_of_nat (min (length s + 1) 4096))"

definition example_layout :: hw5_layout where
  "example_layout = \<lparr>lo_mutex = 40, lo_map = (\<lambda>_. 56), lo_node = (\<lambda>i. if i = 0 then 40 else if i = 1 then 112 else 80),
     lo_chars = example_chars, lo_grows = (\<lambda>w v. length w < length v)\<rparr>"

definition example_what :: "map_error \<Rightarrow> string" where
  "example_what e = (if e = Map_out_of_range then ''map::at'' else ''std::bad_alloc'')"

lemma example_layout_ok: "layout_ok example_layout"
proof -
  have le: "unat (word_of_nat m :: 64 word) \<le> m" for m by (simp add: unat_of_nat)
  have c: "unat (example_chars s) \<le> 4096" for s
    using le [of "min (length s + 1) 4096"] unfolding example_chars_def by (auto simp del: of_nat_Suc of_nat_add)
  have "fits 1 (example_chars s)" for s using c [of s] by (simp add: fits_def)
  then show ?thesis by (simp add: layout_ok_def example_layout_def) (simp add: fits_def)
qed

lemma example_bytes: "3 * unat (lo_mutex example_layout) + (\<Sum>i < 3. unat (lo_map example_layout i)) + hw5_bytes example_layout \<le> 1000"
proof -
  have "length hw5_long_key = 57" "length hw5_text = 23" by (simp_all add: hw5_long_key_def hw5_text_def)
  then show ?thesis
    by (simp add: example_layout_def example_chars_def hw5_bytes_def child_cost_def parent_cost_def lessThan_nat_numeral lessThan_Suc)
qed

lemma example_setup: "\<exists>h. hw5_setup example_layout example_what (\<lambda>_. Some 0x7000) (\<lambda>_. True) = Demo_value h"
  by (simp add: hw5_setup_def hw5_region_def create_shmem_def demo_of_def LinearAllocator_def KILOBYTE_def BYTE_def shared_state_size_def
      Map_def allocate_def example_layout_def Mutex_def sem_init_def SEM_VALUE_MAX_def Let_def)

abbreviation example_hw5 :: "hw5_process list \<Rightarrow> hw5_value list demo option" where
  "example_hw5 \<equiv> hw5_test example_layout example_what (\<lambda>_. Some 0x7000) (\<lambda>_. True) (\<lambda>_. ((0x7040, 56, 1), (0x7018, 40, 1))) 5"

theorem hw5_outcome_witness:
  "example_hw5 (replicate 6 Child @ replicate 12 Parent) = Some (Demo_value [Num 100500, Text hw5_text, Num 100500])"
proof -
  obtain h where h: "hw5_setup example_layout example_what (\<lambda>_. Some 0x7000) (\<lambda>_. True) = Demo_value h" using example_setup by blast
  have "count_list (replicate 12 Parent) Parent = 12" by (simp add: eval_nat_numeral)
  then show ?thesis
    using hw5_outcome [OF example_layout_ok h, where p = "0x7000" and pid = 5 and s = "replicate 12 Parent"] example_bytes
    by (simp add: Let_def)
qed

end
