(* ===== verification/Spec2Isabelle.thy ===== *)
theory Spec2Isabelle imports HttpClients LibErrors ScopeGuard DemoProcess DemoLog DemoSync DemoEcho DemoMap begin

text \<open>
  A verification development of the C++ libraries under \<open>src/lib\<close> and of the program that tests them: the HTTP server \<open>tinyhttp\<close> with its
  coroutines, the TCP library \<open>tcpcon\<close>, child processes (\<open>linuxproc\<close>) over owners of descriptors
  (\<open>unixprimwrap\<close>), containers in shared memory (\<open>shmem\<close>) and loggers (\<open>trivilog\<close>).

  \<^bold>\<open>How the parts work together.\<close> A \<open>tinyhttp::Server\<close> owns the listening socket and runs several
  \<open>EpollWorker\<close>s. A worker accepts connections, gives each a coroutine that runs its client routine, and
  resumes the routine of a descriptor when epoll reports it. The routine reads into the buffer of the
  connection, parses head and body, asks \<open>on_request\<close> (for the static server: a file below the root) for a
  response, prints it and sends it; where a call would block it suspends itself. The epoll server of
  \<open>tcpcon\<close> does the same with handlers of the user in place of routines. Processes, connections, pipes and
  servers hold their descriptors in \<open>unixprimwrap::Descriptor\<close>. The shared-memory map takes its nodes from
  the linear allocator and runs every operation under the interprocess mutex.

  \<^bold>\<open>Theories and sources.\<close>
  \<^item> \<open>Prelude\<close>, \<open>CppStd\<close>: lemmas on lists and options; the parts of the C++ library that are used (number
    conversions, unordered maps with the contract \<open>dict_store\<close>, standard exceptions).
  \<^item> \<open>HttpConstants\<close>, \<open>HttpErrors\<close>, \<open>HttpUtils\<close>, \<open>GmTime\<close>: \<open>constants\<close>, \<open>errors\<close>, \<open>utils\<close> of \<open>tinyhttp\<close>; the date
    texts, also those of \<open>trivilog/base_logger\<close>.
  \<^item> \<open>HttpHeadersT\<close>, \<open>HttpQuery\<close>, \<open>HttpRequestLineT\<close>, \<open>HttpMessages\<close>: \<open>http_headers\<close>, \<open>http_query_parameters\<close>,
    \<open>http_request_line\<close>, \<open>http_request\<close> and \<open>http_response\<close>: parsing and printing.
  \<^item> \<open>NetIO\<close>, \<open>HttpConnection\<close>: the answers of \<open>recv\<close> and \<open>send\<close>, the contract \<open>buffered_socket\<close> and \<open>connection\<close>.
  \<^item> \<open>HttpReading\<close>, \<open>HttpSending\<close>, \<open>HttpStatic\<close>, \<open>HttpWorker\<close>, \<open>HttpService\<close>, \<open>HttpClients\<close>: the client routine of
    \<open>epoll_worker\<close>, \<open>basic_static_server\<close>, the worker and the server, the two composed, and one client among
    others.
  \<^item> \<open>Coroutines\<close>: \<open>lib/coroutine\<close> with its free list. \<open>UnixPrim\<close>: \<open>lib/unixprimwrap\<close>.
  \<^item> \<open>ExactIO\<close>, \<open>LinuxProc\<close>: the loops \<open>write_exact\<close> and \<open>read_exact\<close> with their contract, and \<open>lib/linuxproc\<close>.
  \<^item> \<open>TcpErrors\<close>, \<open>TcpSync\<close>, \<open>TcpAsync\<close>, \<open>TcpEpoll\<close>: \<open>tcpcon/errors\<close>, \<open>sync/connection\<close> and \<open>sync/server\<close>,
    \<open>async/connection\<close> and \<open>async/utils\<close>, \<open>async/epoll/server\<close>.
  \<^item> \<open>ShmAllocator\<close>, \<open>ShmSync\<close>, \<open>ShmMap\<close>, \<open>ShmRoom\<close>: \<open>linear_allocator\<close> and \<open>shared_memory\<close>, \<open>semaphore\<close> and
    \<open>mutex\<close>, \<open>containers/map\<close>, and the memory its operations take.
  \<^item> \<open>Logging\<close>, \<open>LogCalls\<close>: \<open>lib/trivilog\<close>, loggers and the global logger among threads, and call by call; a call that is not
    interrupted is a run of the steps of its thread.
  \<^item> \<open>LibErrors\<close>: the errors of \<open>shmem\<close> and \<open>linuxproc\<close>, and inheritance as the contract \<open>class_tree\<close>.
    \<open>ScopeGuard\<close>: \<open>lib/raiiguards\<close>.
  \<^item> \<open>Demo\<close>, \<open>DemoProcess\<close>, \<open>DemoLog\<close>, \<open>DemoSync\<close>, \<open>DemoEcho\<close>, \<open>DemoMap\<close>: \<open>src/main.cpp\<close> and the five tests of
    \<open>src/utils.cpp\<close>, \<open>hw1_test\<close> to \<open>hw5_test\<close> in this order.

  \<^bold>\<open>How code is modelled.\<close> A class is a record of its members, an operation a function from the object to its
  result and the object after it, a throw an \<open>Inl\<close> or a constructor of its own. System calls are not
  modelled: what they answer is an argument, the calls that matter are part of the result. Threads and
  processes are inductive step relations. Behaviour that C++ leaves undefined is an outcome, \<open>Undefined\<close>.

  \<^bold>\<open>What the lemmas show.\<close>
  \<^item> Parsing: printing and parsing headers, query and request line are inverse; what the parsers make of
    every line; the invariants of the containers; the form of every response.
  \<^item> The client routine: a request is read whole however \<open>recv\<close> splits it, and the response is sent; the
    static server never leaves its root, up to the sibling directories that share its prefix.
  \<^item> The worker and the coroutines: clients and routines are in step, a resumed routine continues where it
    suspended, the free list of coroutines cannot be seen from outside unless its bound is set above its length. A worker records the sockets it
    accepted and those it closed: every accepted socket is a client's or was closed once
    (\<open>accepted_sockets_closed_once\<close>). A run of the client routine says which events the worker asks epoll for.
  \<^item> A worker with many clients: what it does for one of them is what it does for that client alone, and a
    client whose request arrives is served whatever events the others have, up to the exception that ends the loop for all (\<open>clients_do_not_interfere\<close>,
    \<open>client_served_among_others\<close>).
  \<^item> Descriptors: in any program of owners an open descriptor has one owner; constructors that throw close
    what they got; the descriptor tables of the parent and the child of a process after their calls.
  \<^item> The loops of exact reads and writes: they end after as many calls as there are bytes, and what they
    send and store when the pieces are short.
  \<^item> The epoll server of \<open>tcpcon\<close>: the invariant of its map in every program of operations and event loops,
    closing and moves, with handlers written in its operations (\<open>handler_code\<close>); what a batch of events amounts to, the acceptance of a backlog, and what breaks these.
  \<^item> Shared memory: blocks never overlap, and the allocator never takes one back; critical sections are in
    the order of their locks; the map refines a finite map or fails to allocate, exactly when the bytes of the operation are more
    than the room left; and what several processes are answered is what their operations answer one after the other.
  \<^item> Logging: with guarded loggers the lines on a stream are whole and in the order they were begun; what one
    call leaves on its stream, also when the locale is missing.
  \<^item> Exceptions: the handlers computed from the classes are those of the derivation, and which class each
    operation of \<open>shmem\<close> and \<open>linuxproc\<close> throws.
  \<^item> The tests: which deliveries of the kernel and which orders of the processes make each test return, and
    what it prints; the echo server neither loses nor mixes bytes of its clients.

  \<^bold>\<open>Bounds and fuel.\<close> Loops over system calls recurse on the list of answers, and a run whose answers are used
  up has an outcome of its own (it waits), so that statements about completed runs say which answers are
  enough: \<open>sync_exact_calls_end\<close> for the loops of exact length, \<open>accept_takes_backlog\<close> for accepting,
  \<open>read_http_request_message\<close> for a request. The number of resumptions of a routine is the number of answers
  that would block. The inheritance of \<open>tinyhttp\<close> exceptions is at most six classes deep, which is the bound
  of \<open>derived_within\<close>; for \<open>tcpcon\<close> the height of a class is the measure. Addresses and sizes in shared memory
  are 64-bit words; memory lies in the lower half of the address space. Times run from 1970 to 9999.

  The schedule of \<open>hw5_test\<close> is a list of turns, each the beginning or the end of a map operation; six of the
  child before twelve of the parent are enough. The three maps have a mutex each and one allocator: two operations of
  different maps that use it at the same time end the run with no claim about it (\<open>hw5_races\<close> of \<open>DemoMap\<close>).

  \<^bold>\<open>Not modelled.\<close> The build files; declarations, type aliases and getters that only return a member, and the
  functions that only fill the arguments of \<open>epoll_ctl\<close>, whose answers are arguments; the kernel and the network beyond the answers
  above; the memory behind the pointers of the shared-memory library; the stacks of coroutines, which are the
  continuations of their routines; the signals a process handles; routines
  that resume or kill other routines or set the bound of the free list, as a switch from inside a routine loses the
  way back of the one before (\<open>nested_switch_loses_main\<close>): the operations of coroutines are called from outside, as
  the server does. Of the tests: the lines that only name
  sockets, and that the child processes of \<open>hw4_test\<close> and \<open>hw5_test\<close> return into \<open>main\<close>.
\<close>

end
